(* ===== verification/Prelude.thy ===== *)
theory Prelude
  imports Main "HOL-Library.Word" "HOL-Library.Char_ord"
begin

text \<open>
  Shared vocabulary of the development: the ways a C operation can go wrong
  (\<open>fault\<close>), results that carry a fault as a value, the bytes and C strings the
  program works on, and fixed-size character buffers written through a moving pointer.

  A loop that might not return is a \<^theory_text>\<open>partial_function (option)\<close>; its value
  is then \<open>None\<close> when it does not return, \<open>Some (Inl f)\<close> when it runs into the
  fault \<open>f\<close> and \<open>Some (Inr x)\<close> when it returns \<open>x\<close>.
\<close>

named_theorems c_eval \<open>equations that evaluate C-level helpers\<close>
named_theorems heap_simps \<open>rewrite rules for stores and linked segments\<close>

subsection \<open>Faults and results\<close>

datatype fault =
    Null_deref        \<comment> \<open>a read or a write through a null pointer\<close>
  | Dangling          \<comment> \<open>a pointer to a cell that is not allocated\<close>
  | Overflow          \<comment> \<open>a write beyond the end of a buffer\<close>
  | Unterminated      \<comment> \<open>a C string read beyond the end of its buffer\<close>
  | Uninitialised     \<comment> \<open>a local variable read before it was assigned\<close>
  | Uncaught          \<comment> \<open>a C++ exception thrown by the library\<close>

type_synonym 'a result = "fault + 'a"

definition rbind :: "'a result \<Rightarrow> ('a \<Rightarrow> 'b result) \<Rightarrow> 'b result" where
  "rbind m f = (case m of Inl e \<Rightarrow> Inl e | Inr x \<Rightarrow> f x)"

definition rmap :: "('a \<Rightarrow> 'b) \<Rightarrow> 'a result \<Rightarrow> 'b result" where
  "rmap f m = rbind m (\<lambda>x. Inr (f x))"

lemma rbind_simps [simp]:
  "rbind (Inl e) f = Inl e"
  "rbind (Inr x) f = f x"
  by (simp_all add: rbind_def)

lemma rbind_Inr_iff: "rbind m f = Inr y \<longleftrightarrow> (\<exists>x. m = Inr x \<and> f x = Inr y)"
  by (cases m) auto

lemma rmap_simps [simp]:
  "rmap f (Inl e) = Inl e"
  "rmap f (Inr x) = Inr (f x)"
  by (simp_all add: rmap_def)

subsection \<open>Bytes\<close>

abbreviation NUL :: char where "NUL \<equiv> CHR 0x00"
abbreviation TAB :: char where "TAB \<equiv> CHR 0x09"
abbreviation LF :: char where "LF \<equiv> CHR 0x0A"
abbreviation CR :: char where "CR \<equiv> CHR 0x0D"
abbreviation SP :: char where "SP \<equiv> CHR 0x20"
abbreviation DQUOTE :: char where "DQUOTE \<equiv> CHR 0x22"

text \<open>
  The value of a C \<open>char\<close> as an \<open>int\<close>. The type is signed on the platforms the
  program is built for, so the bytes from 128 on are negative.
\<close>

definition schar :: "char \<Rightarrow> int" where
  "schar c = (if (of_char c :: int) < 128 then of_char c else of_char c - 256)"

lemma of_char_int_bounds: "0 \<le> (of_char c :: int)" "(of_char c :: int) < 256"
proof -
  have "0 \<le> (of_char c :: int) mod 256" and "(of_char c :: int) mod 256 < 256"
    by (rule pos_mod_sign pos_mod_bound, simp)+
  then show "0 \<le> (of_char c :: int)" and "(of_char c :: int) < 256"
    by (simp_all only: of_char_mod_256)
qed

lemma schar_bounds: "- 128 \<le> schar c \<and> schar c \<le> 127"
  using of_char_int_bounds [of c] by (auto simp: schar_def)

lemma schar_inject: "schar c = schar d \<longleftrightarrow> c = d"
  using of_char_int_bounds [of c] of_char_int_bounds [of d]
  by (auto simp: schar_def split: if_splits)

subsection \<open>C strings\<close>

text \<open>The part of a byte sequence that \<open>strlen\<close>, \<open>strcmp\<close> and \<open>strdup\<close> see.\<close>

definition cstr :: "string \<Rightarrow> string" where
  "cstr s = takeWhile (\<lambda>c. c \<noteq> NUL) s"

definition no_nul :: "string \<Rightarrow> bool" where
  "no_nul s \<longleftrightarrow> NUL \<notin> set s"

lemma cstr_id [simp]: "no_nul s \<Longrightarrow> cstr s = s"
  by (auto simp: cstr_def no_nul_def takeWhile_eq_all_conv)

lemma no_nul_cstr [simp]: "no_nul (cstr s)"
  by (auto simp: no_nul_def cstr_def dest: set_takeWhileD)

lemma cstr_append_nul: "no_nul s \<Longrightarrow> cstr (s @ NUL # t) = s"
  by (induction s) (auto simp: cstr_def no_nul_def)

lemma no_nul_append [simp]: "no_nul (s @ t) \<longleftrightarrow> no_nul s \<and> no_nul t"
  by (auto simp: no_nul_def)

lemma no_nul_Nil [simp]: "no_nul []"
  by (simp add: no_nul_def)

lemma no_nul_Cons [simp]: "no_nul (c # s) \<longleftrightarrow> c \<noteq> NUL \<and> no_nul s"
  by (auto simp: no_nul_def)

subsection \<open>Character buffers\<close>

text \<open>
  A \<open>char\<close> array of a fixed capacity. Its contents are a function of the index, so that
  bytes never written keep whatever value they had; the capacity is checked by every access.
\<close>

type_synonym cbuf = "nat \<Rightarrow> char"

definition buf_put :: "nat \<Rightarrow> nat \<Rightarrow> char \<Rightarrow> cbuf \<Rightarrow> cbuf result" where
  "buf_put cap i c b = (if i < cap then Inr (b(i := c)) else Inl Overflow)"

text \<open>The C string that starts at index \<open>i\<close>: the bytes up to the first NUL.\<close>

function buf_str :: "nat \<Rightarrow> cbuf \<Rightarrow> nat \<Rightarrow> string result" where
  "buf_str cap b i =
     (if cap \<le> i then Inl Unterminated
      else if b i = NUL then Inr []
      else rmap (Cons (b i)) (buf_str cap b (Suc i)))"
  by pat_completeness auto
termination
  by (relation "measure (\<lambda>(cap, b, i). cap - i)") auto

declare buf_str.simps [simp del]

lemma buf_str_prefix:
  assumes "i \<le> k" and "k < cap" and "b k = NUL"
    and "\<And>j. i \<le> j \<Longrightarrow> j < k \<Longrightarrow> b j \<noteq> NUL"
  shows "buf_str cap b i = Inr (map b [i..<k])"
  using assms
proof (induction "k - i" arbitrary: i)
  case 0
  then have "i = k" by simp
  with 0 show ?case by (subst buf_str.simps) simp
next
  case (Suc n)
  then have lt: "i < k" by simp
  have "buf_str cap b (Suc i) = Inr (map b [Suc i..<k])"
    using Suc.hyps(2) Suc.prems lt by (intro Suc.hyps(1)) auto
  moreover have "b i \<noteq> NUL" using Suc.prems(4) lt by auto
  ultimately show ?case
    using lt Suc.prems(2) by (subst buf_str.simps) (simp add: upt_conv_Cons)
qed

lemma buf_str_empty: "b 0 = NUL \<Longrightarrow> 0 < cap \<Longrightarrow> buf_str cap b 0 = Inr []"
  by (subst buf_str.simps) simp

text \<open>What a pointer that started at index 0 has written so far.\<close>

definition written :: "cbuf \<Rightarrow> nat \<Rightarrow> string" where
  "written b n = map b [0..<n]"

lemma written_0 [simp]: "written b 0 = []"
  by (simp add: written_def)

lemma written_Suc: "written (b(n := c)) (Suc n) = written b n @ [c]"
  by (simp add: written_def)

lemma written_upd [simp]: "n \<le> i \<Longrightarrow> written (b(i := c)) n = written b n"
  by (simp add: written_def)

lemma length_written [simp]: "length (written b n) = n"
  by (simp add: written_def)

lemma buf_str_written:
  assumes "n < cap" and "b n = NUL" and "no_nul (written b n)"
  shows "buf_str cap b 0 = Inr (written b n)"
proof -
  have "b j \<noteq> NUL" if "j < n" for j
    using assms(3) that by (force simp: no_nul_def written_def)
  then show ?thesis
    unfolding written_def using assms(1,2) by (intro buf_str_prefix) auto
qed

subsection \<open>Decimal numbers\<close>

text \<open>What \<open>printf\<close> writes for \<open>%d\<close> and a number that is not negative.\<close>

fun dec :: "nat \<Rightarrow> string" where
  "dec n = (if n < 10 then [char_of (48 + n)] else dec (n div 10) @ [char_of (48 + n mod 10)])"

declare dec.simps [simp del]

definition is_digit_char :: "char \<Rightarrow> bool" where
  "is_digit_char c \<longleftrightarrow> 48 \<le> (of_char c :: nat) \<and> (of_char c :: nat) \<le> 57"

lemma is_digit_char_of: "(n::nat) < 10 \<Longrightarrow> is_digit_char (char_of (48 + n))"
  by (simp add: is_digit_char_def)

lemma dec_digits: "list_all is_digit_char (dec n)"
proof (induction n rule: dec.induct)
  case (1 n)
  then show ?case
    by (subst dec.simps) (simp add: is_digit_char_of)
qed

lemma dec_nonempty [simp]: "dec n \<noteq> []"
  by (subst dec.simps) simp

lemma length_dec_le: "n < 10 ^ k \<Longrightarrow> 0 < k \<Longrightarrow> length (dec n) \<le> k"
proof (induction n arbitrary: k rule: dec.induct)
  case (1 n)
  show ?case
  proof (cases "n < 10")
    case True
    with "1.prems" show ?thesis by (subst dec.simps) simp
  next
    case False
    then obtain j where k: "k = Suc j" "0 < j"
      using "1.prems" by (cases k; cases "k - 1") auto
    then have "n div 10 < 10 ^ j" using "1.prems" by (simp add: less_mult_imp_div_less mult.commute)
    with False k have "length (dec (n div 10)) \<le> j" using "1.IH" by blast
    with False k show ?thesis by (subst dec.simps) simp
  qed
qed

lemma length_dec_ge: "10 ^ k \<le> n \<Longrightarrow> k < length (dec n)"
proof (induction n arbitrary: k rule: dec.induct)
  case (1 n)
  show ?case
  proof (cases k)
    case 0
    then show ?thesis by (subst dec.simps) simp
  next
    case (Suc j)
    have big: "\<not> n < 10"
    proof
      assume "n < 10"
      with "1.prems" have "(10::nat) ^ k < 10" by (rule le_less_trans)
      with Suc show False by simp
    qed
    moreover have "10 ^ j \<le> n div 10"
      using "1.prems" Suc by (simp add: div_le_mono less_eq_div_iff_mult_less_eq mult.commute)
    ultimately have "j < length (dec (n div 10))" using "1.IH" by blast
    with big Suc show ?thesis by (subst dec.simps) simp
  qed
qed

end
