(* ===== verification/HamList.thy ===== *)
theory HamList
  imports Prelude
begin

text \<open>
  The doubly linked list of \<open>library/list.c\<close>, on an explicit store.

  \<^item> \<open>item\<close> is \<open>struct _HAMListItem\<close>, \<open>ham_list\<close> is \<open>struct _HAMList\<close>; a null pointer
    is \<open>None\<close>. \<open>store\<close> holds the allocated items and the addresses the allocator still
    has: \<open>malloc\<close> hands out the first of them and fails when there is none, \<open>free\<close> gives
    an address back (so addresses are reused).
  \<^item> Every operation follows the pointers and performs the writes of the C code in their order;
    a read or write through a null or dangling pointer is a fault. The loops of
    \<open>ham_list_remove\<close> and \<open>ham_list_destroy\<close> are partial functions, \<open>None\<close> when they do
    not return.
  \<^item> \<open>dll\<close> is the invariant, and relates the store to the sequence of items; the theorems
    show that each operation keeps it and what it does to the sequence.
\<close>

type_synonym addr = nat

record 'a item =
  item_data :: 'a
  lptr :: "addr option"
  rptr :: "addr option"

record 'a store =
  cells :: "addr \<rightharpoonup> 'a item"
  avail :: "addr list"

record 'f ham_list =
  first_item :: "addr option"
  last_item :: "addr option"
  free_func :: "'f option"

subsection \<open>Allocation and field access\<close>

definition item_malloc :: "'a item \<Rightarrow> 'a store \<Rightarrow> addr option \<times> 'a store" where
  "item_malloc it s = (case avail s of
     [] \<Rightarrow> (None, s)
   | p # ps \<Rightarrow> (Some p, s\<lparr>cells := (cells s)(p \<mapsto> it), avail := ps\<rparr>))"

definition item_free :: "addr \<Rightarrow> 'a store \<Rightarrow> 'a store" where
  "item_free p s = s\<lparr>cells := (cells s)(p := None), avail := p # avail s\<rparr>"

definition deref :: "'a store \<Rightarrow> addr option \<Rightarrow> 'a item result" where
  "deref s p = (case p of None \<Rightarrow> Inl Null_deref
     | Some a \<Rightarrow> (case cells s a of None \<Rightarrow> Inl Dangling | Some it \<Rightarrow> Inr it))"

definition set_lptr :: "addr option \<Rightarrow> addr option \<Rightarrow> 'a store \<Rightarrow> 'a store result" where
  "set_lptr p v s = rbind (deref s p)
     (\<lambda>it. Inr (s\<lparr>cells := (cells s)(the p \<mapsto> it\<lparr>lptr := v\<rparr>)\<rparr>))"

definition set_rptr :: "addr option \<Rightarrow> addr option \<Rightarrow> 'a store \<Rightarrow> 'a store result" where
  "set_rptr p v s = rbind (deref s p)
     (\<lambda>it. Inr (s\<lparr>cells := (cells s)(the p \<mapsto> it\<lparr>rptr := v\<rparr>)\<rparr>))"

subsection \<open>The operations\<close>

text \<open>\<open>ok\<close> says whether the \<open>malloc\<close> of the list structure itself succeeds.\<close>

definition ham_list_new :: "bool \<Rightarrow> 'f ham_list option" where
  "ham_list_new ok = (if \<not> ok then None
     else Some \<lparr>first_item = None, last_item = None, free_func = None\<rparr>)"

definition ham_list_set_free_func :: "'f ham_list \<Rightarrow> 'f option \<Rightarrow> 'f ham_list" where
  "ham_list_set_free_func l f = l\<lparr>free_func := f\<rparr>"

definition ham_list_insert_first ::
  "'a \<Rightarrow> 'a store \<times> 'f ham_list \<Rightarrow> ('a store \<times> 'f ham_list) result" where
  "ham_list_insert_first d = (\<lambda>(s, l).
     case item_malloc \<lparr>item_data = d, lptr = None, rptr = first_item l\<rparr> s of
       (None, _) \<Rightarrow> Inr (s, l)
     | (Some p, s1) \<Rightarrow>
         (if first_item l \<noteq> None
          then rbind (set_lptr (first_item l) (Some p) s1)
                 (\<lambda>s2. Inr (s2, l\<lparr>first_item := Some p\<rparr>))
          else Inr (s1, l\<lparr>last_item := Some p, first_item := Some p\<rparr>)))"

definition ham_list_insert_last ::
  "'a \<Rightarrow> 'a store \<times> 'f ham_list \<Rightarrow> ('a store \<times> 'f ham_list) result" where
  "ham_list_insert_last d = (\<lambda>(s, l).
     case item_malloc \<lparr>item_data = d, lptr = last_item l, rptr = None\<rparr> s of
       (None, _) \<Rightarrow> Inr (s, l)
     | (Some p, s1) \<Rightarrow>
         (if last_item l \<noteq> None
          then rbind (set_rptr (last_item l) (Some p) s1)
                 (\<lambda>s2. Inr (s2, l\<lparr>last_item := Some p\<rparr>))
          else Inr (s1, l\<lparr>first_item := Some p, last_item := Some p\<rparr>)))"

text \<open>The search loop of \<open>ham_list_remove\<close>: the item that holds \<open>d\<close>, if there is one.\<close>

partial_function (option) find_item ::
  "'a store \<Rightarrow> 'a \<Rightarrow> addr option \<Rightarrow> addr option result option" where
  "find_item s d act = (case act of
     None \<Rightarrow> Some (Inr None)
   | Some p \<Rightarrow> (case cells s p of
       None \<Rightarrow> Some (Inl Dangling)
     | Some it \<Rightarrow> (if item_data it = d then Some (Inr act) else find_item s d (rptr it))))"

text \<open>The unlinking part of \<open>ham_list_remove\<close>, once the item is found.\<close>

definition unlink_item ::
  "addr \<Rightarrow> 'a store \<times> 'f ham_list \<Rightarrow> ('a store \<times> 'f ham_list) result" where
  "unlink_item act = (\<lambda>(s, l).
     rbind (deref s (Some act)) (\<lambda>it.
     rbind (if first_item l = Some act
            then Inr (s, l\<lparr>first_item := rptr it\<rparr>)
            else rbind (set_rptr (lptr it) (rptr it) s) (\<lambda>s1. Inr (s1, l)))
       (\<lambda>(s1, l1). rbind (deref s1 (Some act)) (\<lambda>it1.
     rbind (if last_item l1 = Some act
            then Inr (s1, l1\<lparr>last_item := lptr it1\<rparr>)
            else rbind (set_lptr (rptr it1) (lptr it1) s1) (\<lambda>s2. Inr (s2, l1)))
       (\<lambda>(s2, l2). Inr (item_free act s2, l2))))))"

definition ham_list_remove ::
  "'a \<Rightarrow> 'a store \<times> 'f ham_list \<Rightarrow> ('a store \<times> 'f ham_list) result option" where
  "ham_list_remove d = (\<lambda>(s, l).
     case find_item s d (first_item l) of
       None \<Rightarrow> None
     | Some (Inl e) \<Rightarrow> Some (Inl e)
     | Some (Inr None) \<Rightarrow> Some (Inr (s, l))
     | Some (Inr (Some act)) \<Rightarrow> Some (unlink_item act (s, l)))"

text \<open>A null data pointer and an empty list are both \<open>NULL\<close> in C; here an empty list gives \<open>None\<close>.\<close>

definition ham_list_get_first :: "'a store \<times> 'f ham_list \<Rightarrow> 'a option result" where
  "ham_list_get_first = (\<lambda>(s, l).
     if first_item l = None then Inr None
     else rmap (Some \<circ> item_data) (deref s (first_item l)))"

definition ham_list_get_last :: "'a store \<times> 'f ham_list \<Rightarrow> 'a option result" where
  "ham_list_get_last = (\<lambda>(s, l).
     if last_item l = None then Inr None
     else rmap (Some \<circ> item_data) (deref s (last_item l)))"

definition ham_list_pop_first ::
  "'a store \<times> 'f ham_list \<Rightarrow> ('a option \<times> 'a store \<times> 'f ham_list) result option" where
  "ham_list_pop_first = (\<lambda>(s, l).
     if first_item l = None then Some (Inr (None, s, l))
     else (case deref s (first_item l) of
         Inl e \<Rightarrow> Some (Inl e)
       | Inr it \<Rightarrow> map_option (rmap (\<lambda>sl. (Some (item_data it), sl)))
                     (ham_list_remove (item_data it) (s, l))))"

definition ham_list_get_first_item :: "'f ham_list \<Rightarrow> addr option" where
  "ham_list_get_first_item l = first_item l"

definition ham_list_get_next_item :: "'a store \<Rightarrow> addr option \<Rightarrow> addr option result" where
  "ham_list_get_next_item s p = rmap rptr (deref s p)"

definition ham_list_item_get_data :: "'a store \<Rightarrow> addr option \<Rightarrow> 'a result" where
  "ham_list_item_get_data s p = rmap item_data (deref s p)"

text \<open>
  The loop of \<open>ham_list_destroy\<close>. Its result is the calls of the free function, in order, and
  the store without the items.
\<close>

partial_function (option) destroy_items ::
  "'f option \<Rightarrow> addr option \<Rightarrow> ('f \<times> 'a) list \<Rightarrow> 'a store
   \<Rightarrow> (('f \<times> 'a) list \<times> 'a store) result option" where
  "destroy_items f ptr calls s = (case ptr of
     None \<Rightarrow> Some (Inr (calls, s))
   | Some p \<Rightarrow> (case cells s p of
       None \<Rightarrow> Some (Inl Dangling)
     | Some it \<Rightarrow> destroy_items f (rptr it)
         (case f of None \<Rightarrow> calls | Some g \<Rightarrow> calls @ [(g, item_data it)])
         (item_free p s)))"

definition ham_list_destroy ::
  "'a store \<times> 'f ham_list option \<Rightarrow> (('f \<times> 'a) list \<times> 'a store) result option" where
  "ham_list_destroy = (\<lambda>(s, lo). case lo of
     None \<Rightarrow> Some (Inr ([], s))
   | Some l \<Rightarrow> destroy_items (free_func l) (first_item l) [] s)"

subsection \<open>Linked segments\<close>

text \<open>
  \<open>dseg h q p ns z r\<close>: from the pointer \<open>p\<close> on, the cells hold the addresses and data
  \<open>ns\<close>; the first cell points back to \<open>q\<close>, the last cell is \<open>z\<close> and points forward to \<open>r\<close>
  (for an empty segment \<open>p = r\<close> and \<open>z = q\<close>).
\<close>

fun dseg :: "(addr \<rightharpoonup> 'a item) \<Rightarrow> addr option \<Rightarrow> addr option \<Rightarrow> (addr \<times> 'a) list
    \<Rightarrow> addr option \<Rightarrow> addr option \<Rightarrow> bool" where
  "dseg h q p [] z r \<longleftrightarrow> p = r \<and> z = q"
| "dseg h q p ((a, d) # ns) z r \<longleftrightarrow> p = Some a \<and>
     (case h a of None \<Rightarrow> False
      | Some it \<Rightarrow> item_data it = d \<and> lptr it = q \<and> dseg h (Some a) (rptr it) ns z r)"

definition dll :: "'a store \<Rightarrow> 'f ham_list \<Rightarrow> (addr \<times> 'a) list \<Rightarrow> bool" where
  "dll s l ns \<longleftrightarrow> dseg (cells s) None (first_item l) ns (last_item l) None
     \<and> distinct (map fst ns) \<and> distinct (avail s) \<and> set (avail s) \<inter> dom (cells s) = {}"

lemma dseg_append [heap_simps]:
  "dseg h q p (xs @ ys) z r \<longleftrightarrow> (\<exists>y m. dseg h q p xs y m \<and> dseg h y m ys z r)"
  by (induction h q p xs z r rule: dseg.induct) (auto split: option.splits)

lemma dseg_frame [heap_simps]:
  "a \<notin> fst ` set ns \<Longrightarrow> dseg (h(a := v)) q p ns z r = dseg h q p ns z r"
  by (induction h q p ns z r rule: dseg.induct) (auto split: option.splits)

lemma dseg_dom: "dseg h q p ns z r \<Longrightarrow> fst ` set ns \<subseteq> dom h"
  by (induction h q p ns z r rule: dseg.induct) (auto split: option.splits)

lemma dseg_nonempty:
  "dseg h q p ns z None \<Longrightarrow> p \<noteq> None \<longleftrightarrow> ns \<noteq> []"
  by (cases ns) (auto split: option.splits)

lemma dseg_first: "dseg h q p ns z r \<Longrightarrow> ns \<noteq> [] \<Longrightarrow> p = Some (fst (hd ns))"
  by (cases "(h, q, p, ns, z, r)" rule: dseg.cases) auto

lemma dseg_last: "dseg h q p ns z r \<Longrightarrow> ns \<noteq> [] \<Longrightarrow> z = Some (fst (last ns))"
  by (induction h q p ns z r rule: dseg.induct) (auto split: option.splits if_splits)

text \<open>Redirecting the back pointer of a segment's first cell, and the forward pointer of its last.\<close>

lemma dseg_redirect_lptr:
  "dseg h q (Some a) ns z r \<Longrightarrow> distinct (map fst ns) \<Longrightarrow> ns \<noteq> [] \<Longrightarrow> h a = Some it
   \<Longrightarrow> dseg (h(a \<mapsto> it\<lparr>lptr := q'\<rparr>)) q' (Some a) ns z r"
  by (cases "(h, q, Some a, ns, z, r)" rule: dseg.cases) (auto simp: heap_simps)

lemma dseg_redirect_rptr:
  "dseg h q p ns (Some a) r \<Longrightarrow> distinct (map fst ns) \<Longrightarrow> ns \<noteq> [] \<Longrightarrow> h a = Some it
   \<Longrightarrow> dseg (h(a \<mapsto> it\<lparr>rptr := r'\<rparr>)) q p ns (Some a) r'"
proof (induction ns arbitrary: q p)
  case Nil
  then show ?case by simp
next
  case (Cons n ns)
  obtain b d where n: "n = (b, d)" by (cases n)
  show ?case
  proof (cases "ns = []")
    case True
    with Cons.prems n show ?thesis by (auto split: option.splits)
  next
    case False
    with Cons.prems n have "a \<noteq> b"
      using dseg_last [OF Cons.prems(1)] by (auto simp: image_iff)
    with Cons False n show ?thesis by (auto split: option.splits)
  qed
qed

subsection \<open>Insertion\<close>

lemma dll_first_last_None:
  assumes "dll s l ns"
  shows "first_item l = None \<longleftrightarrow> ns = []" and "last_item l = None \<longleftrightarrow> ns = []"
  using assms dseg_nonempty [of "cells s" None "first_item l" ns "last_item l"]
    dseg_last [of "cells s" None "first_item l" ns "last_item l" None]
  by (cases ns; auto simp: dll_def)+

lemma insert_no_memory:
  assumes "avail s = []"
  shows "ham_list_insert_last d (s, l) = Inr (s, l)" and "ham_list_insert_first d (s, l) = Inr (s, l)"
  using assms by (simp_all add: ham_list_insert_last_def ham_list_insert_first_def item_malloc_def)

lemma insert_last_dll:
  assumes inv: "dll s l ns" and mem: "avail s = p # ps"
  shows "\<exists>s' l'. ham_list_insert_last d (s, l) = Inr (s', l') \<and> dll s' l' (ns @ [(p, d)])
           \<and> avail s' = ps \<and> free_func l' = free_func l"
proof (cases "last_item l")
  case None
  then have "ns = []" and "first_item l = None" using dll_first_last_None [OF inv] by simp_all
  with None inv mem show ?thesis
    by (auto simp: ham_list_insert_last_def item_malloc_def dll_def)
next
  case (Some a)
  have seg: "dseg (cells s) None (first_item l) ns (Some a) None" and ne: "ns \<noteq> []"
    using inv Some dll_first_last_None [OF inv] by (auto simp: dll_def)
  have a_in: "a \<in> fst ` set ns"
    using dseg_last [OF seg ne] ne by auto
  with dseg_dom [OF seg] obtain it where it: "cells s a = Some it" by auto
  have p: "p \<notin> dom (cells s)" and pa: "p \<noteq> a" and p_ns: "p \<notin> fst ` set ns"
    using inv mem it dseg_dom [OF seg] by (auto simp: dll_def)
  let ?n = "\<lparr>item_data = d, lptr = Some a, rptr = None\<rparr>"
  let ?h = "(cells s)(p \<mapsto> ?n, a \<mapsto> it\<lparr>rptr := Some p\<rparr>)"
  have "dseg ((cells s)(p \<mapsto> ?n)) None (first_item l) ns (Some a) None"
    using seg p_ns by (simp add: heap_simps)
  then have "dseg ?h None (first_item l) ns (Some a) (Some p)"
    using inv ne it pa by (intro dseg_redirect_rptr) (auto simp: dll_def)
  then have "dseg ?h None (first_item l) (ns @ [(p, d)]) (Some p) None"
    using pa by (auto simp: heap_simps)
  then show ?thesis
    using inv mem Some it pa p_ns
    by (auto simp: ham_list_insert_last_def item_malloc_def set_rptr_def deref_def dll_def)
qed

lemma insert_first_dll:
  assumes inv: "dll s l ns" and mem: "avail s = p # ps"
  shows "\<exists>s' l'. ham_list_insert_first d (s, l) = Inr (s', l') \<and> dll s' l' ((p, d) # ns)
           \<and> avail s' = ps \<and> free_func l' = free_func l"
proof (cases "first_item l")
  case None
  then have "ns = []" and "last_item l = None" using dll_first_last_None [OF inv] by simp_all
  with None inv mem show ?thesis
    by (auto simp: ham_list_insert_first_def item_malloc_def dll_def)
next
  case (Some a)
  have seg: "dseg (cells s) None (Some a) ns (last_item l) None" and ne: "ns \<noteq> []"
    using inv Some dll_first_last_None [OF inv] by (auto simp: dll_def)
  have a_in: "a \<in> fst ` set ns"
    using dseg_first [OF seg ne] ne by auto
  with dseg_dom [OF seg] obtain it where it: "cells s a = Some it" by auto
  have pa: "p \<noteq> a" and p_ns: "p \<notin> fst ` set ns"
    using inv mem it dseg_dom [OF seg] by (auto simp: dll_def)
  let ?n = "\<lparr>item_data = d, lptr = None, rptr = Some a\<rparr>"
  let ?h = "(cells s)(p \<mapsto> ?n, a \<mapsto> it\<lparr>lptr := Some p\<rparr>)"
  have "dseg ((cells s)(p \<mapsto> ?n)) None (Some a) ns (last_item l) None"
    using seg p_ns by (simp add: heap_simps)
  then have "dseg ?h (Some p) (Some a) ns (last_item l) None"
    using inv ne it pa by (intro dseg_redirect_lptr) (auto simp: dll_def)
  then have "dseg ?h None (Some p) ((p, d) # ns) (last_item l) None"
    using pa by auto
  then show ?thesis
    using inv mem Some it pa p_ns
    by (auto simp: ham_list_insert_first_def item_malloc_def set_lptr_def deref_def dll_def)
qed

subsection \<open>Search and removal\<close>

lemma find_item_dseg:
  "dseg (cells s) q p ns z None
   \<Longrightarrow> find_item s d p = Some (Inr (map_option fst (List.find (\<lambda>n. snd n = d) ns)))"
proof (induction ns arbitrary: q p)
  case Nil
  then show ?case by (simp add: find_item.simps)
next
  case (Cons n ns)
  then show ?case
    by (cases n) (auto split: option.splits if_splits; subst find_item.simps; auto)
qed

lemma find_split:
  assumes "List.find P xs = Some x"
  shows "\<exists>us vs. xs = us @ x # vs \<and> P x \<and> (\<forall>u \<in> set us. \<not> P u)"
proof -
  from assms have "dropWhile (Not \<circ> P) xs = x # tl (dropWhile (Not \<circ> P) xs)"
    by (auto simp: find_dropWhile split: list.splits)
  then have "xs = takeWhile (Not \<circ> P) xs @ x # tl (dropWhile (Not \<circ> P) xs)"
    by (metis takeWhile_dropWhile_id)
  moreover have "P x" using assms by (auto simp: find_Some_iff)
  moreover have "\<forall>u \<in> set (takeWhile (Not \<circ> P) xs). \<not> P u"
    by (auto dest: set_takeWhileD)
  ultimately show ?thesis by blast
qed

text \<open>
  The two halves of unlinking: what the segments before and after the item \<open>a\<close> become when the
  neighbours are redirected past it.
\<close>

lemma splice_left:
  assumes seg: "dseg h None p xs y (Some a)" and dist: "distinct (map fst xs)"
    and h1: "h1 = (case y of None \<Rightarrow> h | Some b \<Rightarrow> h(b \<mapsto> (the (h b))\<lparr>rptr := m\<rparr>))"
  shows "dseg h1 None (if xs = [] then m else p) xs y m"
proof (cases "xs = []")
  case True
  with seg show ?thesis by simp
next
  case False
  with dseg_last [OF seg] obtain b where y: "y = Some b" and b: "b \<in> fst ` set xs" by auto
  with dseg_dom [OF seg] obtain it where "h b = Some it" by auto
  with seg dist False y h1 show ?thesis
    by (auto intro!: dseg_redirect_rptr)
qed

lemma splice_right:
  assumes seg: "dseg h1 (Some a) m ys z None" and dist: "distinct (map fst ys)"
    and h2: "h2 = (case m of None \<Rightarrow> h1 | Some c \<Rightarrow> h1(c \<mapsto> (the (h1 c))\<lparr>lptr := y\<rparr>))"
  shows "dseg h2 y m ys (if ys = [] then y else z) None"
proof (cases "ys = []")
  case True
  with seg h2 show ?thesis by simp
next
  case False
  with dseg_first [OF seg] obtain c where m: "m = Some c" and c: "c \<in> fst ` set ys" by auto
  with dseg_dom [OF seg] obtain it where "h1 c = Some it" by auto
  with seg dist False m h2 show ?thesis
    by (auto intro!: dseg_redirect_lptr)
qed

lemma unlink_item_dll:
  assumes inv: "dll s l (xs @ (a, d) # ys)"
  shows "\<exists>s' l'. unlink_item a (s, l) = Inr (s', l') \<and> dll s' l' (xs @ ys)
           \<and> avail s' = a # avail s \<and> free_func l' = free_func l"
proof -
  let ?h = "cells s"
  obtain y m z it where left: "dseg ?h None (first_item l) xs y (Some a)"
    and it: "?h a = Some it" "lptr it = y" "rptr it = m"
    and right: "dseg ?h (Some a) m ys z None" and z: "z = last_item l"
    using inv by (auto simp: dll_def heap_simps split: option.splits)
  have dist: "distinct (map fst xs)" "distinct (map fst ys)" "a \<notin> fst ` set xs" "a \<notin> fst ` set ys"
    "fst ` set xs \<inter> fst ` set ys = {}"
    using inv by (auto simp: dll_def)
  define h1 where "h1 = (case y of None \<Rightarrow> ?h | Some b \<Rightarrow> ?h(b \<mapsto> (the (?h b))\<lparr>rptr := m\<rparr>))"
  define h2 where "h2 = (case m of None \<Rightarrow> h1 | Some c \<Rightarrow> h1(c \<mapsto> (the (h1 c))\<lparr>lptr := y\<rparr>))"
  have y_None: "(y = None) = (xs = [])"
    using left dseg_last [OF left] by (cases "xs = []") auto
  have y_in: "b \<in> fst ` set xs \<and> b \<in> dom ?h" if "y = Some b" for b
  proof -
    have "xs \<noteq> []" using y_None that by simp
    with dseg_last [OF left] that have "b \<in> fst ` set xs" by simp
    with dseg_dom [OF left] show ?thesis by blast
  qed
  have m_None: "(m = None) = (ys = [])"
    using dseg_nonempty [OF right] by blast
  have m_in: "c \<in> fst ` set ys \<and> c \<in> dom ?h" if "m = Some c" for c
  proof -
    have "ys \<noteq> []" using m_None that by simp
    with dseg_first [OF right] that have "c \<in> fst ` set ys" by simp
    with dseg_dom [OF right] show ?thesis by blast
  qed
  note y = y_None y_in
  note m = m_None m_in
  have left1: "dseg h1 None (if xs = [] then m else first_item l) xs y m"
    using left dist(1) h1_def by (rule splice_left)
  have right1: "dseg h1 (Some a) m ys z None"
  proof (cases y)
    case None
    with right show ?thesis by (simp add: h1_def)
  next
    case (Some b)
    with y(2) dist(5) have "b \<notin> fst ` set ys" by blast
    with Some right show ?thesis by (simp add: h1_def dseg_frame)
  qed
  have "dseg h2 None (if xs = [] then m else first_item l) xs y m"
  proof (cases m)
    case None
    with left1 show ?thesis by (simp add: h2_def)
  next
    case (Some c)
    with m(2) dist(5) have "c \<notin> fst ` set xs" by blast
    with Some left1 show ?thesis by (simp add: h2_def dseg_frame)
  qed
  moreover have "dseg h2 y m ys (if ys = [] then y else z) None"
    using right1 dist(2) h2_def by (rule splice_right)
  ultimately have joined: "dseg (h2(a := None)) None (if xs = [] then m else first_item l)
      (xs @ ys) (if ys = [] then y else z) None"
    using dist(3,4) by (auto simp: heap_simps)
  have first_a: "(first_item l = Some a) = (xs = [])"
    using left dist(3) dseg_first [OF left] by (cases "xs = []") auto
  have last_a: "(last_item l = Some a) = (ys = [])"
    using right z dist(4) dseg_last [OF right] by (cases "ys = []") auto
  have dom: "dom h2 = dom ?h"
    unfolding h2_def h1_def using y(2) m(2) by (auto split: option.splits)
  have "unlink_item a (s, l) = Inr (item_free a (s\<lparr>cells := h2\<rparr>),
      l\<lparr>first_item := (if xs = [] then m else first_item l),
        last_item := (if ys = [] then y else z)\<rparr>)"
    using it first_a last_a y m dist z
    unfolding unlink_item_def h2_def h1_def
    by (cases y; cases m) (auto simp: deref_def set_rptr_def set_lptr_def item_free_def)
  then show ?thesis
    using joined inv dom it by (auto simp: dll_def item_free_def)
qed

lemma remove_dll:
  assumes inv: "dll s l ns"
  shows "\<exists>s' l' ns'. ham_list_remove d (s, l) = Some (Inr (s', l')) \<and> dll s' l' ns'
     \<and> map snd ns' = remove1 d (map snd ns)
     \<and> length (avail s') = length (avail s) + (length ns - length ns')
     \<and> free_func l' = free_func l"
proof (cases "List.find (\<lambda>n. snd n = d) ns")
  case None
  then have "d \<notin> set (map snd ns)" by (auto simp: find_None_iff)
  then show ?thesis
    using inv None find_item_dseg [of s None "first_item l" ns "last_item l" d]
    by (auto simp: ham_list_remove_def dll_def remove1_idem)
next
  case (Some n)
  then obtain xs ys where ns: "ns = xs @ n # ys" and n: "snd n = d"
    and xs: "\<forall>u \<in> set xs. snd u \<noteq> d"
    using find_split [OF Some] by blast
  obtain a where n_def: "n = (a, d)" using n by (cases n) auto
  from unlink_item_dll [of s l xs a d ys] inv ns n_def obtain s' l'
    where "unlink_item a (s, l) = Inr (s', l')" "dll s' l' (xs @ ys)"
      "avail s' = a # avail s" "free_func l' = free_func l" by auto
  moreover have "map snd (xs @ ys) = remove1 d (map snd ns)"
    using xs unfolding ns n_def by (auto simp: remove1_append)
  ultimately show ?thesis
    using inv Some ns n_def find_item_dseg [of s None "first_item l" ns "last_item l" d]
    by (intro exI [of _ s'] exI [of _ l'] exI [of _ "xs @ ys"])
      (auto simp: ham_list_remove_def dll_def)
qed

lemma get_first_dll:
  "dll s l ns \<Longrightarrow> ham_list_get_first (s, l) = Inr (case ns of [] \<Rightarrow> None | n # _ \<Rightarrow> Some (snd n))"
  by (cases ns) (auto simp: ham_list_get_first_def dll_def deref_def split: option.splits)

lemma get_last_dll:
  assumes "dll s l ns"
  shows "ham_list_get_last (s, l) = Inr (if ns = [] then None else Some (snd (last ns)))"
proof (cases "ns = []")
  case True
  with assms show ?thesis by (auto simp: ham_list_get_last_def dll_def)
next
  case False
  then obtain us a d where ns: "ns = us @ [(a, d)]"
    by (metis append_butlast_last_id surj_pair)
  with assms show ?thesis
    by (auto simp: ham_list_get_last_def dll_def deref_def heap_simps split: option.splits)
qed

lemma pop_first_dll:
  assumes inv: "dll s l (n # ns)"
  shows "\<exists>s' l'. ham_list_pop_first (s, l) = Some (Inr (Some (snd n), s', l')) \<and> dll s' l' ns
     \<and> avail s' = fst n # avail s \<and> free_func l' = free_func l"
proof -
  obtain a d where n: "n = (a, d)" by (cases n)
  from unlink_item_dll [of s l "[]" a d ns] inv n obtain s' l'
    where "unlink_item a (s, l) = Inr (s', l')" "dll s' l' ns"
      "avail s' = a # avail s" "free_func l' = free_func l" by auto
  moreover obtain it where "first_item l = Some a" "cells s a = Some it" "item_data it = d"
    using inv n by (auto simp: dll_def split: option.splits)
  moreover from this have "find_item s d (Some a) = Some (Inr (Some a))"
    by (simp add: find_item.simps)
  ultimately show ?thesis
    using n by (simp add: ham_list_pop_first_def ham_list_remove_def deref_def)
qed

lemma destroy_items_dseg:
  "dseg (cells s) q p ns z None \<Longrightarrow> distinct (map fst ns) \<Longrightarrow>
   destroy_items f p calls s =
     Some (Inr (calls @ (case f of None \<Rightarrow> [] | Some g \<Rightarrow> map (\<lambda>n. (g, snd n)) ns),
       s\<lparr>cells := (\<lambda>a. if a \<in> fst ` set ns then None else cells s a),
         avail := rev (map fst ns) @ avail s\<rparr>))"
proof (induction ns arbitrary: q p calls s)
  case Nil
  then show ?case by (subst destroy_items.simps) (auto split: option.splits)
next
  case (Cons n ns)
  obtain a d where n: "n = (a, d)" by (cases n)
  with Cons.prems obtain it where p: "p = Some a" and it: "cells s a = Some it" "item_data it = d"
    and seg: "dseg (cells s) (Some a) (rptr it) ns z None"
    by (auto split: option.splits)
  let ?calls = "case f of None \<Rightarrow> calls | Some g \<Rightarrow> calls @ [(g, d)]"
  have "dseg (cells (item_free a s)) (Some a) (rptr it) ns z None"
    using seg Cons.prems n by (auto simp: item_free_def heap_simps)
  then have "destroy_items f (rptr it) ?calls (item_free a s) =
     Some (Inr (?calls @ (case f of None \<Rightarrow> [] | Some g \<Rightarrow> map (\<lambda>n. (g, snd n)) ns),
       (item_free a s)\<lparr>cells := (\<lambda>b. if b \<in> fst ` set ns then None else cells (item_free a s) b),
         avail := rev (map fst ns) @ avail (item_free a s)\<rparr>))"
    using Cons.prems by (intro Cons.IH) auto
  then show ?case
    using p it n
    by (subst destroy_items.simps) (auto simp: item_free_def fun_eq_iff split: option.splits)
qed

subsection \<open>What a list promises its clients\<close>

text \<open>\<open>list_repr (s, l) ds\<close>: the list \<open>l\<close> in the store \<open>s\<close> is well formed and holds the data \<open>ds\<close>.\<close>

definition list_repr :: "'a store \<times> 'f ham_list \<Rightarrow> 'a list \<Rightarrow> bool" where
  "list_repr sl ds \<longleftrightarrow> (\<exists>ns. dll (fst sl) (snd sl) ns \<and> map snd ns = ds)"

definition list_room :: "'a store \<times> 'f ham_list \<Rightarrow> nat" where
  "list_room sl = length (avail (fst sl))"

lemma list_repr_new: "distinct (avail s) \<Longrightarrow> set (avail s) \<inter> dom (cells s) = {} \<Longrightarrow>
   list_repr (s, the (ham_list_new True)) []"
  by (auto simp: list_repr_def dll_def ham_list_new_def)

lemma insert_last_repr:
  assumes "list_repr q ds" and "0 < list_room q"
  shows "\<exists>q'. ham_list_insert_last d q = Inr q' \<and> list_repr q' (ds @ [d])
           \<and> list_room q = Suc (list_room q')"
proof -
  obtain s l where q: "q = (s, l)" by (cases q)
  obtain ns where ns: "dll s l ns" "map snd ns = ds" using assms(1) q by (auto simp: list_repr_def)
  obtain p ps where "avail s = p # ps" using assms(2) q by (cases "avail s") (auto simp: list_room_def)
  with insert_last_dll [OF ns(1) this, of d] ns(2) q show ?thesis
    by (fastforce simp: list_repr_def list_room_def)
qed

lemma insert_first_repr:
  assumes "list_repr q ds" and "0 < list_room q"
  shows "\<exists>q'. ham_list_insert_first d q = Inr q' \<and> list_repr q' (d # ds)
           \<and> list_room q = Suc (list_room q')"
proof -
  obtain s l where q: "q = (s, l)" by (cases q)
  obtain ns where ns: "dll s l ns" "map snd ns = ds" using assms(1) q by (auto simp: list_repr_def)
  obtain p ps where "avail s = p # ps" using assms(2) q by (cases "avail s") (auto simp: list_room_def)
  with insert_first_dll [OF ns(1) this, of d] ns(2) q show ?thesis
    by (fastforce simp: list_repr_def list_room_def)
qed

lemma pop_first_repr:
  assumes "list_repr q (d # ds)"
  shows "\<exists>q'. ham_list_pop_first q = Some (Inr (Some d, q')) \<and> list_repr q' ds
           \<and> list_room q' = Suc (list_room q)"
proof -
  obtain s l where q: "q = (s, l)" by (cases q)
  obtain n ns where ns: "dll s l (n # ns)" "snd n = d" "map snd ns = ds"
    using assms q by (auto simp: list_repr_def)
  with pop_first_dll [OF ns(1)] q show ?thesis
    by (fastforce simp: list_repr_def list_room_def)
qed

lemma pop_first_empty: "list_repr q [] \<Longrightarrow> ham_list_pop_first q = Some (Inr (None, q))"
  by (cases q) (auto simp: list_repr_def dll_def ham_list_pop_first_def)

subsection \<open>Lists as first-in first-out queues\<close>

text \<open>
  The connection keeps its pending reply handlers in a list: it appends with
  \<open>insert_last\<close> and takes them from the front. What such a client relies on is stated as an
  interface, with the client's lemma proved in it once.
\<close>

fun feed :: "('a \<Rightarrow> 'q \<Rightarrow> 'q result) \<Rightarrow> 'a list \<Rightarrow> 'q \<Rightarrow> 'q result" where
  "feed put [] q = Inr q"
| "feed put (x # xs) q = rbind (put x q) (feed put xs)"

fun drain :: "('q \<Rightarrow> ('a option \<times> 'q) result option) \<Rightarrow> nat \<Rightarrow> 'q
    \<Rightarrow> ('a list \<times> 'q) result option" where
  "drain pop 0 q = Some (Inr ([], q))"
| "drain pop (Suc n) q = (case pop q of
     Some (Inr (Some x, q')) \<Rightarrow> map_option (rmap (\<lambda>(xs, q''). (x # xs, q''))) (drain pop n q')
   | Some (Inr (None, q')) \<Rightarrow> Some (Inr ([], q'))
   | Some (Inl e) \<Rightarrow> Some (Inl e)
   | None \<Rightarrow> None)"

locale fifo =
  fixes repr :: "'q \<Rightarrow> 'a list \<Rightarrow> bool"
    and room :: "'q \<Rightarrow> nat"
    and put :: "'a \<Rightarrow> 'q \<Rightarrow> 'q result"
    and pop :: "'q \<Rightarrow> ('a option \<times> 'q) result option"
  assumes put_law: "repr q xs \<Longrightarrow> 0 < room q \<Longrightarrow>
      \<exists>q'. put x q = Inr q' \<and> repr q' (xs @ [x]) \<and> room q = Suc (room q')"
    and pop_law: "repr q (x # xs) \<Longrightarrow>
      \<exists>q'. pop q = Some (Inr (Some x, q')) \<and> repr q' xs \<and> room q' = Suc (room q)"
    and pop_empty_law: "repr q [] \<Longrightarrow> pop q = Some (Inr (None, q))"
begin

lemma feed_repr:
  assumes "repr q ys" and "length xs \<le> room q"
  shows "\<exists>q'. feed put xs q = Inr q' \<and> repr q' (ys @ xs) \<and> room q = room q' + length xs"
  using assms
proof (induction xs arbitrary: q ys)
  case Nil
  then show ?case by simp
next
  case (Cons x xs)
  then obtain q1 where q1: "put x q = Inr q1" "repr q1 (ys @ [x])" "room q = Suc (room q1)"
    using put_law [of q ys x] by auto
  with Cons obtain q2 where "feed put xs q1 = Inr q2" "repr q2 ((ys @ [x]) @ xs)"
    "room q1 = room q2 + length xs"
    using Cons.IH [of q1 "ys @ [x]"] by auto
  with q1 show ?case by auto
qed

lemma drain_repr:
  assumes "repr q (xs @ ys)"
  shows "\<exists>q'. drain pop (length xs) q = Some (Inr (xs, q')) \<and> repr q' ys
           \<and> room q' = room q + length xs"
  using assms
proof (induction xs arbitrary: q)
  case Nil
  then show ?case by simp
next
  case (Cons x xs)
  then obtain q1 where q1: "pop q = Some (Inr (Some x, q1))" "repr q1 (xs @ ys)"
    "room q1 = Suc (room q)"
    using pop_law [of q x "xs @ ys"] by auto
  with Cons.IH [OF q1(2)] show ?case by auto
qed

lemma served_in_order:
  assumes "repr q []" and "length xs \<le> room q"
  shows "\<exists>q1 q2. feed put xs q = Inr q1 \<and> drain pop (length xs) q1 = Some (Inr (xs, q2))
           \<and> repr q2 [] \<and> room q2 = room q"
proof -
  obtain q1 where q1: "feed put xs q = Inr q1" "repr q1 ([] @ xs)" "room q = room q1 + length xs"
    using feed_repr [OF assms] by blast
  with drain_repr [of q1 xs "[]"] show ?thesis by auto
qed

end

interpretation ham_list: fifo list_repr list_room ham_list_insert_last ham_list_pop_first
  by unfold_locales (rule insert_last_repr pop_first_repr pop_first_empty; assumption)+

subsection \<open>The properties\<close>



text \<open>
  \<open>ham_list_destroy\<close> returns on every well-formed list: it calls the free function on each
  datum once, from first to last, and gives back exactly the items of the list, each once.
\<close>

theorem list_destroy_frees_all:
  assumes "dll s l ns"
  shows "\<exists>s'. ham_list_destroy (s, Some l) = Some (Inr (
             (case free_func l of None \<Rightarrow> [] | Some g \<Rightarrow> map (\<lambda>n. (g, snd n)) ns), s'))
           \<and> dom (cells s') = dom (cells s) - fst ` set ns
           \<and> avail s' = rev (map fst ns) @ avail s \<and> distinct (avail s')"
proof -
  have seg: "dseg (cells s) None (first_item l) ns (last_item l) None"
    and dist: "distinct (map fst ns)" "distinct (avail s)" "set (avail s) \<inter> dom (cells s) = {}"
    using assms by (auto simp: dll_def)
  have "distinct (rev (map fst ns) @ avail s)"
  proof -
    have "fst ` set ns \<inter> set (avail s) = {}"
      using dist(3) dseg_dom [OF seg] by blast
    with dist(1,2) show ?thesis by simp
  qed
  then show ?thesis
    using destroy_items_dseg [OF seg dist(1), of "free_func l" "[]"]
    by (intro exI [of _ "s\<lparr>cells := (\<lambda>a. if a \<in> fst ` set ns then None else cells s a),
        avail := rev (map fst ns) @ avail s\<rparr>"])
      (auto simp: ham_list_destroy_def dom_def)
qed

lemma list_destroy_frees_all_witness:
  "let s = \<lparr>cells = [7 \<mapsto> \<lparr>item_data = 1::nat, lptr = None, rptr = None\<rparr>], avail = [3]\<rparr>;
       l = \<lparr>first_item = Some 7, last_item = Some 7, free_func = Some ''free''\<rparr>
   in \<exists>s'. ham_list_destroy (s, Some l) = Some (Inr ([(''free'', 1)], s')) \<and> avail s' = [7, 3]"
proof -
  have "dll \<lparr>cells = [7 \<mapsto> \<lparr>item_data = 1::nat, lptr = None, rptr = None\<rparr>], avail = [3]\<rparr>
     \<lparr>first_item = Some 7, last_item = Some 7, free_func = Some ''free''\<rparr> [(7, 1)]"
    by (simp add: dll_def)
  from list_destroy_frees_all [OF this] show ?thesis by auto
qed

text \<open>
  Data appended to an empty list with \<open>ham_list_insert_last\<close> come back from
  \<open>ham_list_pop_first\<close> in the same order, and all the memory the list used is available again.
\<close>

theorem list_served_in_order:
  assumes "list_repr q []" and "length xs \<le> list_room q"
  shows "\<exists>q1 q2. feed ham_list_insert_last xs q = Inr q1
           \<and> drain ham_list_pop_first (length xs) q1 = Some (Inr (xs, q2))
           \<and> list_repr q2 [] \<and> list_room q2 = list_room q"
  using assms by (rule ham_list.served_in_order)

lemma list_served_in_order_witness:
  "let q = (\<lparr>cells = Map.empty, avail = [1, 2]\<rparr>, the (ham_list_new True :: unit ham_list option))
   in \<exists>q1 q2. feed ham_list_insert_last [5, 6 :: nat] q = Inr q1
        \<and> drain ham_list_pop_first 2 q1 = Some (Inr ([5, 6], q2))"
proof -
  have "list_repr (\<lparr>cells = Map.empty, avail = [1, 2]\<rparr>,
      the (ham_list_new True :: unit ham_list option)) ([] :: nat list)"
    by (rule list_repr_new) simp_all
  from list_served_in_order [OF this, of "[5, 6]"] show ?thesis
    by (auto simp: list_room_def numeral_2_eq_2)
qed

end
