(* ===== verification/HashTable.thy ===== *)
theory HashTable
  imports HamList
begin

text \<open>
  The hash table of \<open>library/hashtable.c\<close>: 256 chains of items, an item count and an optional
  function that frees the data.

  \<^item> A key argument is the memory the pointer points to (the bytes from there to the end of the
    object) and the length argument, \<open>-1\<close> for a C string. \<open>str k\<close> is the memory of the string
    \<open>k\<close>. The hash reads up to the first NUL whatever the length says; the stored key is a copy
    of \<open>key_len\<close> bytes.
  \<^item> A chain is the list of its items, so that pointer equality of items is equality of
    positions. \<open>ham_hash_table_remove\<close> keeps the position of \<open>prev\<close> as the code does.
  \<^item> \<open>unsigned long\<close> is 64 bits wide, \<open>char\<close> is signed.
\<close>

record 'v hash_item =
  hkey :: string
  hkey_len :: nat
  hdata :: 'v

record ('v, 'f) hash_table =
  hitems :: "nat \<Rightarrow> 'v hash_item list"
  hcount :: nat
  hfree_func :: "'f option"

definition HAM_HASH_LEN :: nat where
  "HAM_HASH_LEN = 256"

subsection \<open>Hashing\<close>

definition sdbm_step :: "64 word \<Rightarrow> char \<Rightarrow> 64 word" where
  "sdbm_step hash c = word_of_int (schar c) + push_bit 6 hash + push_bit 16 hash - hash"

definition ham_hash_table_do_hash :: "string \<Rightarrow> nat result" where
  "ham_hash_table_do_hash mem =
     (if NUL \<notin> set mem then Inl Unterminated
      else Inr (unat (foldl sdbm_step 0 (cstr mem)) mod HAM_HASH_LEN))"

definition resolve_len :: "string \<Rightarrow> int \<Rightarrow> nat result" where
  "resolve_len mem key_len =
     (if key_len = -1 then (if NUL \<notin> set mem then Inl Unterminated else Inr (length (cstr mem)))
      else if nat key_len \<le> length mem then Inr (nat key_len) else Inl Unterminated)"

subsection \<open>The operations\<close>

definition ham_hash_table_new :: "bool \<Rightarrow> ('v, 'f) hash_table option" where
  "ham_hash_table_new ok = (if \<not> ok then None
     else Some \<lparr>hitems = (\<lambda>_. []), hcount = 0, hfree_func = None\<rparr>)"

definition ham_hash_table_set_free_func :: "('v, 'f) hash_table \<Rightarrow> 'f option \<Rightarrow> ('v, 'f) hash_table" where
  "ham_hash_table_set_free_func t f = t\<lparr>hfree_func := f\<rparr>"

text \<open>The call of the free function that destroying an item makes, if there is one.\<close>

definition ham_hash_table_item_destroy :: "('v, 'f) hash_table \<Rightarrow> 'v hash_item \<Rightarrow> ('f \<times> 'v) list" where
  "ham_hash_table_item_destroy t it = (case hfree_func t of None \<Rightarrow> [] | Some f \<Rightarrow> [(f, hdata it)])"

definition same_key :: "string \<Rightarrow> nat \<Rightarrow> 'v hash_item \<Rightarrow> bool" where
  "same_key key len it \<longleftrightarrow> hkey_len it = len \<and> hkey it = key"

text \<open>
  The loop of \<open>ham_hash_table_add\<close> over the items after the head of the chain: skip items of
  another length or another key, replace the first item with the key, append if there is none.
\<close>

fun chain_add :: "'v hash_item \<Rightarrow> 'v hash_item list \<Rightarrow> 'v hash_item list \<times> 'v hash_item option" where
  "chain_add item [] = ([item], None)"
| "chain_add item (x # xs) =
     (if hkey_len x \<noteq> hkey_len item then apfst (Cons x) (chain_add item xs)
      else if hkey x = hkey item then (item # xs, Some x)
      else apfst (Cons x) (chain_add item xs))"

text \<open>
  The result is the return value, the calls of the free function and the table. \<open>ok_item\<close> and
  \<open>ok_key\<close> say whether the two allocations succeed.
\<close>

definition ham_hash_table_add ::
  "bool \<Rightarrow> bool \<Rightarrow> ('v, 'f) hash_table \<Rightarrow> string \<Rightarrow> int \<Rightarrow> 'v
   \<Rightarrow> (int \<times> ('f \<times> 'v) list \<times> ('v, 'f) hash_table) result" where
  "ham_hash_table_add ok_item ok_key t mem key_len v =
     rbind (resolve_len mem key_len) (\<lambda>len.
     rbind (ham_hash_table_do_hash mem) (\<lambda>hash.
       if \<not> ok_item then Inr (-1, [], t)
       else if \<not> ok_key then Inr (-1, [], t)
       else
         let item = \<lparr>hkey = take len mem, hkey_len = len, hdata = v\<rparr>
         in case hitems t hash of
              [] \<Rightarrow> Inr (0, [], t\<lparr>hitems := (hitems t)(hash := [item]), hcount := hcount t + 1\<rparr>)
            | x # xs \<Rightarrow>
               (case chain_add item xs of
                  (ys, Some old) \<Rightarrow> Inr (0, ham_hash_table_item_destroy t old,
                      t\<lparr>hitems := (hitems t)(hash := x # ys)\<rparr>)
                | (ys, None) \<Rightarrow> Inr (0, [],
                      t\<lparr>hitems := (hitems t)(hash := x # ys), hcount := hcount t + 1\<rparr>))))"

text \<open>
  The loop of \<open>ham_hash_table_remove\<close>, with the positions of \<open>prev\<close> and \<open>tmp\<close>. The variable
  \<open>prev\<close> follows \<open>tmp\<close> only over items of another length, not over items of the same length
  with another key.
\<close>

function remove_walk :: "'v hash_item list \<Rightarrow> string \<Rightarrow> nat \<Rightarrow> nat \<Rightarrow> nat \<Rightarrow> (nat \<times> nat) option" where
  "remove_walk chain key len prev tmp =
     (if length chain \<le> tmp then None
      else if hkey_len (chain ! tmp) \<noteq> len then remove_walk chain key len tmp (Suc tmp)
      else if hkey (chain ! tmp) = key then Some (prev, tmp)
      else remove_walk chain key len prev (Suc tmp))"
  by pat_completeness auto
termination
  by (relation "measure (\<lambda>(chain, key, len, prev, tmp). length chain - tmp)") auto

declare remove_walk.simps [simp del]

definition ham_hash_table_remove ::
  "('v, 'f) hash_table \<Rightarrow> string \<Rightarrow> int \<Rightarrow> (int \<times> ('f \<times> 'v) list \<times> ('v, 'f) hash_table) result" where
  "ham_hash_table_remove t mem key_len =
     rbind (resolve_len mem key_len) (\<lambda>len.
     rbind (ham_hash_table_do_hash mem) (\<lambda>hash.
       let chain = hitems t hash
       in if chain = [] then Inr (-1, [], t)
          else case remove_walk chain (take len mem) len 0 0 of
              None \<Rightarrow> Inr (-1, [], t)
            | Some (prev, tmp) \<Rightarrow>
                Inr (0, ham_hash_table_item_destroy t (chain ! tmp),
                  t\<lparr>hitems := (hitems t)(hash :=
                        (if prev = 0 then drop (Suc tmp) chain
                         else take (Suc prev) chain @ drop (Suc tmp) chain)),
                    hcount := hcount t - 1\<rparr>)))"

fun chain_lookup :: "'v hash_item list \<Rightarrow> string \<Rightarrow> nat \<Rightarrow> 'v option" where
  "chain_lookup [] key len = None"
| "chain_lookup (x # xs) key len =
     (if hkey_len x \<noteq> len then chain_lookup xs key len
      else if hkey x = key then Some (hdata x)
      else chain_lookup xs key len)"

definition ham_hash_table_lookup :: "('v, 'f) hash_table \<Rightarrow> string \<Rightarrow> int \<Rightarrow> 'v option result" where
  "ham_hash_table_lookup t mem key_len =
     rbind (resolve_len mem key_len) (\<lambda>len.
     rbind (ham_hash_table_do_hash mem) (\<lambda>hash.
       Inr (chain_lookup (hitems t hash) (take len mem) len)))"

definition ham_hash_table_get_size :: "('v, 'f) hash_table \<Rightarrow> nat" where
  "ham_hash_table_get_size t = hcount t"

definition all_items :: "('v, 'f) hash_table \<Rightarrow> 'v hash_item list" where
  "all_items t = concat (map (hitems t) [0..<HAM_HASH_LEN])"

text \<open>
  \<open>*keys[count++]\<close> indexes the caller's variable, not the array it points to: the first write
  goes to the array, the second one through the word after the variable.
\<close>

definition ham_hash_table_get_keys :: "('v, 'f) hash_table \<Rightarrow> (nat \<times> string list) result" where
  "ham_hash_table_get_keys t =
     (case all_items t of
        [] \<Rightarrow> Inr (0, [])
      | [x] \<Rightarrow> (if hcount t = 0 then Inl Overflow else Inr (1, [hkey x]))
      | _ \<Rightarrow> Inl Overflow)"

definition ham_hash_table_to_list ::
  "('v, 'f) hash_table \<Rightarrow> 'v store \<Rightarrow> bool \<Rightarrow> ('v store \<times> 'g ham_list option) result" where
  "ham_hash_table_to_list t s ok = (case ham_list_new ok of
     None \<Rightarrow> (if all_items t = [] then Inr (s, None) else Inl Null_deref)
   | Some l \<Rightarrow> rmap (apsnd Some) (feed ham_list_insert_last (map hdata (all_items t)) (s, l)))"

definition ham_hash_table_destroy :: "('v, 'f) hash_table \<Rightarrow> ('f \<times> 'v) list" where
  "ham_hash_table_destroy t = concat (map (ham_hash_table_item_destroy t) (all_items t))"

subsection \<open>String keys\<close>

text \<open>Every caller in the program passes a C string and \<open>-1\<close>.\<close>

definition str :: "string \<Rightarrow> string" where
  "str k = k @ [NUL]"

definition hash_of :: "string \<Rightarrow> nat" where
  "hash_of k = unat (foldl sdbm_step 0 k) mod HAM_HASH_LEN"

definition table_get :: "('v, 'f) hash_table \<Rightarrow> string \<Rightarrow> 'v option" where
  "table_get t k = chain_lookup (hitems t (hash_of k)) k (length k)"

lemma cstr_str [simp]: "no_nul k \<Longrightarrow> cstr (str k) = k"
  by (simp add: str_def cstr_append_nul)

lemma NUL_in_str [simp]: "NUL \<in> set (str k)"
  by (simp add: str_def)

lemma take_str [simp]: "take (length k) (str k) = k"
  by (simp add: str_def)

lemma do_hash_str [c_eval]: "no_nul k \<Longrightarrow> ham_hash_table_do_hash (str k) = Inr (hash_of k)"
  by (simp add: ham_hash_table_do_hash_def hash_of_def)

lemma resolve_len_str [c_eval]: "no_nul k \<Longrightarrow> resolve_len (str k) (-1) = Inr (length k)"
  by (simp add: resolve_len_def)

lemma hash_of_less: "hash_of k < HAM_HASH_LEN"
  by (simp add: hash_of_def HAM_HASH_LEN_def)

lemma lookup_str [c_eval]:
  "no_nul k \<Longrightarrow> ham_hash_table_lookup t (str k) (-1) = Inr (table_get t k)"
  by (simp add: ham_hash_table_lookup_def table_get_def c_eval)

subsection \<open>Invariant\<close>

definition item_ok :: "nat \<Rightarrow> 'v hash_item \<Rightarrow> bool" where
  "item_ok i x \<longleftrightarrow> hkey_len x = length (hkey x) \<and> no_nul (hkey x) \<and> hash_of (hkey x) = i"

text \<open>
  Every item is stored under its own key's hash, the keys of a chain are different and the
  count is the number of items.
\<close>

definition table_inv :: "('v, 'f) hash_table \<Rightarrow> bool" where
  "table_inv t \<longleftrightarrow> (\<forall>i < HAM_HASH_LEN. list_all (item_ok i) (hitems t i) \<and> distinct (map hkey (hitems t i)))
     \<and> hcount t = length (all_items t)"

lemma table_inv_new: "table_inv (the (ham_hash_table_new True))"
  by (simp add: table_inv_def ham_hash_table_new_def all_items_def)

lemma table_get_new: "table_get (the (ham_hash_table_new True)) k = None"
  by (simp add: table_get_def ham_hash_table_new_def)

lemma length_concat_upd:
  assumes "i < n"
  shows "length (concat (map (f(i := ys)) [0..<n])) + length (f i)
       = length (concat (map f [0..<n])) + length ys"
  using assms
proof (induction n)
  case 0
  then show ?case by simp
next
  case (Suc n)
  show ?case
  proof (cases "i = n")
    case True
    have "map (f(i := ys)) [0..<n] = map f [0..<n]" using True by simp
    then show ?thesis using True by (simp del: fun_upd_apply add: fun_upd_same)
  next
    case False
    with Suc show ?thesis by simp
  qed
qed

lemma length_all_items_upd:
  assumes "i < HAM_HASH_LEN"
  shows "length (all_items (t\<lparr>hitems := (hitems t)(i := ys)\<rparr>)) + length (hitems t i)
       = length (all_items t) + length ys"
  using length_concat_upd [OF assms, of "hitems t" ys] by (simp add: all_items_def)

lemma all_items_count [simp]: "all_items (t\<lparr>hcount := n\<rparr>) = all_items t"
  by (simp add: all_items_def)

lemma chain_lookup_None_iff:
  "list_all (item_ok i) xs \<Longrightarrow> chain_lookup xs k (length k) = None \<longleftrightarrow> k \<notin> hkey ` set xs"
  by (induction xs) (auto simp: item_ok_def)

lemma chain_lookup_append:
  "chain_lookup (xs @ ys) k n = (case chain_lookup xs k n of None \<Rightarrow> chain_lookup ys k n | Some v \<Rightarrow> Some v)"
  by (induction xs) auto

lemma chain_add_fresh:
  "hkey item \<notin> hkey ` set xs \<Longrightarrow> chain_add item xs = (xs @ [item], None)"
  by (induction xs) auto

subsection \<open>Adding\<close>

abbreviation str_item :: "string \<Rightarrow> 'v \<Rightarrow> 'v hash_item" where
  "str_item k v \<equiv> \<lparr>hkey = k, hkey_len = length k, hdata = v\<rparr>"

abbreviation set_chain :: "nat \<Rightarrow> 'v hash_item list \<Rightarrow> nat \<Rightarrow> ('v, 'f) hash_table \<Rightarrow> ('v, 'f) hash_table" where
  "set_chain i xs n t \<equiv> t\<lparr>hitems := (hitems t)(i := xs), hcount := n\<rparr>"

lemma table_get_set_chain:
  "table_get (set_chain i xs n t) k =
     (if hash_of k = i then chain_lookup xs k (length k) else table_get t k)"
  by (simp add: table_get_def)

lemma set_chain_inv:
  assumes "table_inv t" and "i < HAM_HASH_LEN"
    and "list_all (item_ok i) xs" and "distinct (map hkey xs)"
    and "n + length (hitems t i) = hcount t + length xs"
  shows "table_inv (set_chain i xs n t)"
  using assms length_all_items_upd [OF assms(2), of t xs]
  by (auto simp: table_inv_def)

lemma table_inv_chain:
  assumes "table_inv t"
  shows "list_all (item_ok (hash_of k)) (hitems t (hash_of k))"
    and "distinct (map hkey (hitems t (hash_of k)))"
  using assms hash_of_less [of k] by (auto simp: table_inv_def)

lemma table_get_None_iff:
  "table_inv t \<Longrightarrow> table_get t k = None \<longleftrightarrow> k \<notin> hkey ` set (hitems t (hash_of k))"
  unfolding table_get_def by (rule chain_lookup_None_iff) (rule table_inv_chain)

lemma add_fresh_eq:
  assumes "table_inv t" and "no_nul k" and "table_get t k = None"
  shows "ham_hash_table_add True True t (str k) (-1) v =
    Inr (0, [], set_chain (hash_of k) (hitems t (hash_of k) @ [str_item k v]) (hcount t + 1) t)"
proof (cases "hitems t (hash_of k)")
  case Nil
  with assms show ?thesis by (simp add: ham_hash_table_add_def c_eval)
next
  case (Cons x xs)
  then have "k \<notin> hkey ` set xs" using table_get_None_iff [OF assms(1), of k] assms(3) by simp
  then have "chain_add (str_item k v) xs = (xs @ [str_item k v], None)"
    by (intro chain_add_fresh) simp
  with Cons assms show ?thesis by (simp add: ham_hash_table_add_def c_eval)
qed

lemma add_fresh:
  assumes inv: "table_inv t" and k: "no_nul k" and fresh: "table_get t k = None"
  shows "\<exists>t'. ham_hash_table_add True True t (str k) (-1) v = Inr (0, [], t') \<and> table_inv t'
     \<and> hcount t' = hcount t + 1 \<and> hfree_func t' = hfree_func t
     \<and> (\<forall>k'. table_get t' k' = (if k' = k then Some v else table_get t k'))"
proof -
  let ?t = "set_chain (hash_of k) (hitems t (hash_of k) @ [str_item k v]) (hcount t + 1) t"
  have "k \<notin> hkey ` set (hitems t (hash_of k))"
    using fresh table_get_None_iff [OF inv] by blast
  then have "table_inv ?t"
    using table_inv_chain [OF inv, of k] k
    by (intro set_chain_inv inv hash_of_less) (auto simp: item_ok_def)
  moreover have "table_get ?t k' = (if k' = k then Some v else table_get t k')" for k'
    using fresh by (auto simp: table_get_set_chain chain_lookup_append table_get_def split: option.splits)
  ultimately show ?thesis
    using add_fresh_eq [OF inv k fresh] by auto
qed

text \<open>Adding a key that is in the chain, behind its head: the item is replaced in place.\<close>

lemma chain_add_replace:
  assumes "list_all (item_ok i) xs" and "k \<in> hkey ` set xs" and "distinct (map hkey xs)"
  shows "\<exists>us x vs. xs = us @ x # vs \<and> hkey x = k \<and> k \<notin> hkey ` set us \<and> k \<notin> hkey ` set vs
     \<and> chain_add (str_item k v) xs = (us @ str_item k v # vs, Some x)"
  using assms
proof (induction xs)
  case Nil
  then show ?case by simp
next
  case (Cons y ys)
  show ?case
  proof (cases "hkey y = k")
    case True
    with Cons.prems show ?thesis
      by (intro exI [of _ "[]"] exI [of _ y] exI [of _ ys]) (auto simp: item_ok_def)
  next
    case False
    with Cons obtain us x vs where "ys = us @ x # vs" "hkey x = k" "k \<notin> hkey ` set us"
      "k \<notin> hkey ` set vs" "chain_add (str_item k v) ys = (us @ str_item k v # vs, Some x)"
      by auto
    with False show ?thesis
      by (intro exI [of _ "y # us"] exI [of _ x] exI [of _ vs]) auto
  qed
qed

lemma add_replace:
  assumes inv: "table_inv t" and k: "no_nul k"
    and chain: "hitems t (hash_of k) = h # xs" and old: "k \<in> hkey ` set xs"
  shows "\<exists>t' x. ham_hash_table_add True True t (str k) (-1) v
        = Inr (0, ham_hash_table_item_destroy t x, t')
     \<and> hkey x = k \<and> table_get t k = Some (hdata x)
     \<and> table_inv t' \<and> hcount t' = hcount t \<and> hfree_func t' = hfree_func t
     \<and> (\<forall>k'. table_get t' k' = (if k' = k then Some v else table_get t k'))"
proof -
  have ok: "list_all (item_ok (hash_of k)) (h # xs)" "distinct (map hkey (h # xs))"
    using table_inv_chain [OF inv, of k] chain by simp_all
  obtain us x vs where xs: "xs = us @ x # vs" and x: "hkey x = k"
    and notin: "k \<notin> hkey ` set us" "k \<notin> hkey ` set vs"
    and add: "chain_add (str_item k v) xs = (us @ str_item k v # vs, Some x)"
    using chain_add_replace [of "hash_of k" xs k v] ok old by auto
  let ?t = "set_chain (hash_of k) (h # us @ str_item k v # vs) (hcount t) t"
  have h: "hkey h \<noteq> k" using ok old by auto
  have x_len: "hkey_len x = length k" using ok x xs by (auto simp: item_ok_def)
  have "table_inv ?t"
    using ok x xs notin h chain k
    by (intro set_chain_inv inv hash_of_less) (auto simp: item_ok_def)
  moreover have look: "chain_lookup us k (length k) = None"
    using chain_lookup_None_iff [of "hash_of k" us k] ok xs notin by auto
  then have "table_get ?t k' = (if k' = k then Some v else table_get t k')" for k'
    using chain xs h x x_len
    by (auto simp: table_get_set_chain table_get_def chain_lookup_append split: option.splits)
  moreover have "table_get t k = Some (hdata x)"
    using look chain xs h x x_len by (auto simp: table_get_def chain_lookup_append split: option.splits)
  moreover have "ham_hash_table_add True True t (str k) (-1) v
      = Inr (0, ham_hash_table_item_destroy t x, ?t)"
    using chain add k by (simp add: ham_hash_table_add_def c_eval)
  ultimately show ?thesis using x by auto
qed

text \<open>Adding a key that is at the head of its chain: a second item is appended behind it.\<close>

lemma add_head_duplicates:
  assumes inv: "table_inv t" and k: "no_nul k"
    and chain: "hitems t (hash_of k) = h # xs" and head: "hkey h = k"
  shows "\<exists>t'. ham_hash_table_add True True t (str k) (-1) v = Inr (0, [], t')
     \<and> hcount t' = hcount t + 1 \<and> table_get t k = Some (hdata h)
     \<and> (\<forall>k'. table_get t' k' = table_get t k')"
proof -
  have ok: "list_all (item_ok (hash_of k)) (h # xs)" "distinct (map hkey (h # xs))"
    using table_inv_chain [OF inv, of k] chain by simp_all
  have "chain_add (str_item k v) xs = (xs @ [str_item k v], None)"
    using ok(2) head by (intro chain_add_fresh) auto
  moreover have "hkey_len h = length k" using ok(1) head by (simp add: item_ok_def)
  ultimately show ?thesis
    using chain head k
    by (auto simp: ham_hash_table_add_def c_eval table_get_def chain_lookup_append split: option.splits)
qed

lemma add_no_memory:
  "no_nul k \<Longrightarrow> \<not> (ok_item \<and> ok_key) \<Longrightarrow>
   ham_hash_table_add ok_item ok_key t (str k) (-1) v = Inr (-1, [], t)"
  by (auto simp: ham_hash_table_add_def c_eval)

subsection \<open>Removing\<close>

lemma remove_walk_None_iff:
  "remove_walk chain key n prev tmp = None
   \<longleftrightarrow> (\<forall>j. tmp \<le> j \<longrightarrow> j < length chain \<longrightarrow> \<not> same_key key n (chain ! j))"
proof (induction chain key n prev tmp rule: remove_walk.induct)
  case (1 chain key n prev tmp)
  have split: "(\<forall>j. tmp \<le> j \<longrightarrow> j < length chain \<longrightarrow> P j)
    \<longleftrightarrow> (tmp < length chain \<longrightarrow> P tmp) \<and> (\<forall>j. Suc tmp \<le> j \<longrightarrow> j < length chain \<longrightarrow> P j)" for P
    by (metis Suc_leD Suc_leI le_neq_implies_less le_refl)
  show ?case
    using 1 by (subst remove_walk.simps, subst split) (auto simp: same_key_def)
qed

text \<open>
  Where the search stops: at the first item with the key, and with \<open>prev\<close> on the item before it
  if that one has another length.
\<close>

lemma remove_walk_found:
  assumes "chain = us @ x # vs" and "same_key key n x" and "\<forall>u \<in> set us. \<not> same_key key n u"
    and "tmp \<le> length us"
  shows "\<exists>p. remove_walk chain key n prev tmp = Some (p, length us)
     \<and> (tmp = length us \<longrightarrow> p = prev)
     \<and> (tmp < length us \<longrightarrow> hkey_len (last us) \<noteq> n \<longrightarrow> p = length us - 1)"
  using assms
proof (induction "length us - tmp" arbitrary: prev tmp)
  case 0
  then have tmp: "tmp = length us" by simp
  show ?case
    unfolding tmp using "0.prems"(1,2) by (subst remove_walk.simps) (simp add: same_key_def)
next
  case (Suc m)
  then have lt: "tmp < length us" by simp
  have nth: "chain ! tmp = us ! tmp" using Suc.prems(1) lt by (simp add: nth_append)
  have other: "\<not> same_key key n (us ! tmp)" using Suc.prems(3) lt by simp
  define q where "q = (if hkey_len (us ! tmp) \<noteq> n then tmp else prev)"
  obtain p where p: "remove_walk chain key n q (Suc tmp) = Some (p, length us)"
    "Suc tmp = length us \<longrightarrow> p = q"
    "Suc tmp < length us \<longrightarrow> hkey_len (last us) \<noteq> n \<longrightarrow> p = length us - 1"
  proof -
    have "m = length us - Suc tmp" and "Suc tmp \<le> length us"
      using Suc.hyps(2) lt by simp_all
    from Suc.hyps(1) [OF this(1) Suc.prems(1-3) this(2), of q] that show thesis by blast
  qed
  have step: "remove_walk chain key n prev tmp = remove_walk chain key n q (Suc tmp)"
    using Suc.prems(1) lt nth other
    by (subst remove_walk.simps) (auto simp: q_def same_key_def)
  have "p = length us - 1" if "Suc tmp = length us" "hkey_len (last us) \<noteq> n"
  proof -
    have "last us = us ! tmp" using that(1) by (metis diff_Suc_1 last_conv_nth list.size(3) nat.simps(3))
    then show ?thesis using that p(2) by (simp add: q_def)
  qed
  then have "hkey_len (last us) \<noteq> n \<longrightarrow> p = length us - 1"
    using p(3) lt by (cases "Suc tmp = length us") auto
  with p(1) step lt show ?case by auto
qed

lemma remove_absent:
  assumes "table_inv t" and "no_nul k" and "table_get t k = None"
  shows "ham_hash_table_remove t (str k) (-1) = Inr (-1, [], t)"
proof -
  have "k \<notin> hkey ` set (hitems t (hash_of k))"
    using table_get_None_iff [OF assms(1), of k] assms(3) by simp
  then have "remove_walk (hitems t (hash_of k)) k (length k) 0 0 = None"
    by (auto simp: remove_walk_None_iff same_key_def image_iff) (metis nth_mem)
  with assms(2) show ?thesis by (simp add: ham_hash_table_remove_def c_eval Let_def)
qed

text \<open>
  A removal that unlinks exactly one item: the item is the head, or it is at least the third of
  its chain and the item before it has a key of another length.
\<close>

definition clean_position :: "'v hash_item list \<Rightarrow> string \<Rightarrow> bool" where
  "clean_position us k \<longleftrightarrow> us = [] \<or> (2 \<le> length us \<and> length (hkey (last us)) \<noteq> length k)"

lemma remove_clean:
  assumes inv: "table_inv t" and k: "no_nul k"
    and chain: "hitems t (hash_of k) = us @ x # vs" and x: "hkey x = k"
    and clean: "clean_position us k"
  shows "\<exists>t'. ham_hash_table_remove t (str k) (-1) = Inr (0, ham_hash_table_item_destroy t x, t')
     \<and> table_inv t' \<and> hcount t = Suc (hcount t') \<and> hfree_func t' = hfree_func t
     \<and> (\<forall>k'. table_get t' k' = (if k' = k then None else table_get t k'))"
proof -
  let ?c = "hitems t (hash_of k)"
  have ok: "list_all (item_ok (hash_of k)) (us @ x # vs)" "distinct (map hkey (us @ x # vs))"
    using table_inv_chain [OF inv, of k] chain by simp_all
  have x_same: "same_key k (length k) x"
    using ok(1) x by (simp add: same_key_def item_ok_def)
  have "k \<notin> hkey ` set us" using ok(2) x by auto
  then have us: "\<forall>u \<in> set us. \<not> same_key k (length k) u"
    by (auto simp: same_key_def)
  obtain p where p: "remove_walk ?c k (length k) 0 0 = Some (p, length us)"
    "us = [] \<longrightarrow> p = 0" "0 < length us \<longrightarrow> hkey_len (last us) \<noteq> length k \<longrightarrow> p = length us - 1"
    using remove_walk_found [OF chain x_same us, of 0 0] by auto
  have "us \<noteq> [] \<Longrightarrow> hkey_len (last us) = length (hkey (last us))"
    using ok(1) by (auto simp: item_ok_def list_all_iff)
  then have new: "(if p = 0 then drop (Suc (length us)) ?c
      else take (Suc p) ?c @ drop (Suc (length us)) ?c) = us @ vs"
    using p(2,3) clean chain by (auto simp: clean_position_def)
  let ?t = "set_chain (hash_of k) (us @ vs) (hcount t - 1) t"
  have rem: "ham_hash_table_remove t (str k) (-1) = Inr (0, ham_hash_table_item_destroy t x, ?t)"
    using k p(1) new chain by (simp add: ham_hash_table_remove_def c_eval Let_def)
  have "length ?c \<le> length (all_items t)"
    using length_all_items_upd [OF hash_of_less [of k], of t "[]"] by simp
  moreover have "0 < length ?c" using chain by simp
  ultimately have count: "0 < hcount t" using inv unfolding table_inv_def by linarith
  have inv': "table_inv ?t"
    using ok chain count by (intro set_chain_inv inv hash_of_less) auto
  have "chain_lookup us k (length k) = None" "chain_lookup vs k (length k) = None"
    using ok x chain_lookup_None_iff [of "hash_of k" us k] chain_lookup_None_iff [of "hash_of k" vs k]
    by auto
  then have "table_get ?t k' = (if k' = k then None else table_get t k')" for k'
    using chain x by (auto simp: table_get_set_chain table_get_def chain_lookup_append split: option.splits)
  with rem inv' count show ?thesis by auto
qed

text \<open>The second item of a chain: unlinking it also drops the head.\<close>

lemma remove_second:
  assumes inv: "table_inv t" and k: "no_nul k"
    and chain: "hitems t (hash_of k) = u # x # vs" and x: "hkey x = k"
  shows "\<exists>t'. ham_hash_table_remove t (str k) (-1) = Inr (0, ham_hash_table_item_destroy t x, t')
     \<and> table_get t (hkey u) = Some (hdata u) \<and> table_get t' (hkey u) = None \<and> table_get t' k = None
     \<and> hcount t = Suc (hcount t') \<and> length (all_items t) = length (all_items t') + 2"
proof -
  let ?c = "hitems t (hash_of k)"
  have ok: "list_all (item_ok (hash_of k)) (u # x # vs)" "distinct (map hkey (u # x # vs))"
    using table_inv_chain [OF inv, of k] chain by simp_all
  have x_same: "hkey_len x = length k" and u_ok: "item_ok (hash_of k) u" and u: "hkey u \<noteq> k"
    using ok x by (auto simp: item_ok_def)
  have walk: "remove_walk ?c k (length k) 0 0 = Some (0, 1)"
    using chain x x_same u
    by (subst remove_walk.simps, subst (1 2) remove_walk.simps) simp
  let ?t = "set_chain (hash_of k) vs (hcount t - 1) t"
  have rem: "ham_hash_table_remove t (str k) (-1) = Inr (0, ham_hash_table_item_destroy t x, ?t)"
    using k walk chain by (simp add: ham_hash_table_remove_def c_eval Let_def)
  have len: "length (all_items ?t) + 2 = length (all_items t)"
    using length_all_items_upd [OF hash_of_less [of k], of t vs] chain by simp
  then have count: "0 < hcount t" using inv unfolding table_inv_def by linarith
  have "hkey u \<notin> hkey ` set vs" "k \<notin> hkey ` set vs" using ok(2) x by auto
  then have "chain_lookup vs (hkey u) (length (hkey u)) = None" "chain_lookup vs k (length k) = None"
    using ok(1) chain_lookup_None_iff [of "hash_of k" vs] by auto
  moreover have "hash_of (hkey u) = hash_of k" "hkey_len u = length (hkey u)"
    using u_ok by (auto simp: item_ok_def)
  ultimately show ?thesis
    using rem len count chain by (auto simp: table_get_set_chain table_get_def)
qed

subsection \<open>Listing the values\<close>

lemma to_list_repr:
  assumes "distinct (avail s)" and "set (avail s) \<inter> dom (cells s) = {}"
    and "length (all_items t) \<le> length (avail s)"
  shows "\<exists>s' (l :: 'g ham_list). ham_hash_table_to_list t s True = Inr (s', Some l)
           \<and> list_repr (s', l) (map hdata (all_items t))"
proof -
  let ?q = "(s, the (ham_list_new True) :: 'g ham_list)"
  have "list_repr ?q []" using assms(1,2) by (rule list_repr_new)
  then obtain q' where "feed ham_list_insert_last (map hdata (all_items t)) ?q = Inr q'"
    "list_repr q' ([] @ map hdata (all_items t))"
    using ham_list.feed_repr [of ?q "[]" "map hdata (all_items t)"] assms(3)
    by (auto simp: list_room_def)
  then show ?thesis
    by (cases q') (auto simp: ham_hash_table_to_list_def ham_list_new_def)
qed

lemma all_items_get:
  assumes "table_inv t" and "x \<in> set (all_items t)"
  shows "table_get t (hkey x) = Some (hdata x)"
proof -
  obtain i where i: "i < HAM_HASH_LEN" "x \<in> set (hitems t i)"
    using assms(2) by (auto simp: all_items_def)
  with assms(1) have ok: "list_all (item_ok i) (hitems t i)" "distinct (map hkey (hitems t i))"
    by (auto simp: table_inv_def)
  then have "hash_of (hkey x) = i" using i(2) by (auto simp: list_all_iff item_ok_def)
  moreover have "chain_lookup ys (hkey x) (length (hkey x)) = Some (hdata x)"
    if "list_all (item_ok i) ys" "distinct (map hkey ys)" "x \<in> set ys" for ys
    using that by (induction ys) (auto simp: item_ok_def)
  ultimately show ?thesis using ok i(2) by (simp add: table_get_def)
qed

text \<open>A table with one chain.\<close>

lemma all_items_single:
  assumes "i < HAM_HASH_LEN"
  shows "all_items ((the (ham_hash_table_new True))\<lparr>hitems :=
     (hitems (the (ham_hash_table_new True)))(i := xs)\<rparr>) = xs"
proof -
  have "concat (map ((\<lambda>_. [])(i := xs)) [0..<m]) = (if i < m then xs else [])" for m
    by (induction m) auto
  with assms show ?thesis by (simp add: all_items_def ham_hash_table_new_def)
qed

subsection \<open>What a table promises its clients\<close>

text \<open>
  The clients add a key only after a failed lookup (\<open>ham_signals_register_signal\<close>), or use keys
  that are different. For them the table is a map; nothing is promised about adding a key twice.
\<close>

definition table_put :: "string \<Rightarrow> 'v \<Rightarrow> ('v, 'f) hash_table \<Rightarrow> ('v, 'f) hash_table" where
  "table_put k v t = (case ham_hash_table_add True True t (str k) (-1) v of
     Inl _ \<Rightarrow> t | Inr (_, _, t') \<Rightarrow> t')"

lemma add_absent:
  "table_inv t \<Longrightarrow> no_nul k \<Longrightarrow> table_get t k = None \<Longrightarrow>
   ham_hash_table_add True True t (str k) (-1) v = Inr (0, [], table_put k v t)"
  using add_fresh [of t k v] by (auto simp: table_put_def)

definition put_absent :: "('t \<Rightarrow> string \<Rightarrow> 'v option) \<Rightarrow> (string \<Rightarrow> 'v \<Rightarrow> 't \<Rightarrow> 't)
    \<Rightarrow> string \<Rightarrow> 'v \<Rightarrow> 't \<Rightarrow> 't" where
  "put_absent get put k v t = (if get t k = None then put k v t else t)"

locale fresh_map =
  fixes inv :: "'t \<Rightarrow> bool"
    and get :: "'t \<Rightarrow> string \<Rightarrow> 'v option"
    and put :: "string \<Rightarrow> 'v \<Rightarrow> 't \<Rightarrow> 't"
  assumes put_inv: "inv t \<Longrightarrow> no_nul k \<Longrightarrow> get t k = None \<Longrightarrow> inv (put k v t)"
    and get_put: "inv t \<Longrightarrow> no_nul k \<Longrightarrow> get t k = None
        \<Longrightarrow> get (put k v t) k' = (if k' = k then Some v else get t k')"
begin

lemma put_absent_inv: "inv t \<Longrightarrow> no_nul k \<Longrightarrow> inv (put_absent get put k v t)"
  by (simp add: put_absent_def put_inv)

lemma get_put_absent:
  "inv t \<Longrightarrow> no_nul k \<Longrightarrow> get (put_absent get put k v t) k' =
     (if k' = k \<and> get t k = None then Some v else get t k')"
  by (simp add: put_absent_def get_put)

lemma put_absent_idem:
  "inv t \<Longrightarrow> no_nul k \<Longrightarrow>
   put_absent get put k w (put_absent get put k v t) = put_absent get put k v t"
  by (cases "get t k") (simp_all add: put_absent_def get_put)

lemma put_all_absent:
  assumes "inv t" and "\<forall>k \<in> set ks. no_nul k"
  shows "inv (fold (\<lambda>k. put_absent get put k v) ks t)
    \<and> get (fold (\<lambda>k. put_absent get put k v) ks t) k =
        (case get t k of None \<Rightarrow> if k \<in> set ks then Some v else None | Some w \<Rightarrow> Some w)"
  using assms
proof (induction ks arbitrary: t)
  case Nil
  then show ?case by (simp split: option.splits)
next
  case (Cons j ks)
  then have "inv (put_absent get put j v t)" by (simp add: put_absent_inv)
  with Cons show ?case by (auto simp: get_put_absent split: option.splits)
qed

end

interpretation str_table: fresh_map table_inv table_get table_put
proof unfold_locales
  fix t :: "('v, 'f) hash_table" and k k' :: string and v :: 'v
  assume "table_inv t" and "no_nul k" and "table_get t k = None"
  from add_fresh [OF this, of v] show "table_inv (table_put k v t)"
    and "table_get (table_put k v t) k' = (if k' = k then Some v else table_get t k')"
    by (auto simp: table_put_def)
qed

subsection \<open>The properties\<close>

text \<open>A table with the colliding keys \<open>A\<close> and \<open>ab\<close>, for the witnesses.\<close>

lemma hash_of_A: "hash_of ''A'' = 65"
  by (simp add: hash_of_def sdbm_step_def schar_def HAM_HASH_LEN_def)

lemma hash_of_ab: "hash_of ''ab'' = 65"
  by (simp add: hash_of_def sdbm_step_def schar_def HAM_HASH_LEN_def)

definition table_A_ab :: "(nat, unit) hash_table" where
  "table_A_ab = set_chain 65 [str_item ''A'' 1, str_item ''ab'' 2] 2 (the (ham_hash_table_new True))"

lemma table_A_ab_inv: "table_inv table_A_ab"
  unfolding table_A_ab_def
  by (rule set_chain_inv [OF table_inv_new])
    (simp_all add: item_ok_def hash_of_A hash_of_ab HAM_HASH_LEN_def ham_hash_table_new_def)

lemma table_A_ab_chain: "hitems table_A_ab 65 = [str_item ''A'' 1, str_item ''ab'' 2]"
  by (simp add: table_A_ab_def)

lemma table_A_ab_count: "hcount table_A_ab = 2"
  by (simp add: table_A_ab_def)

text \<open>
  C16. Adding a string key that the table does not hold returns 0, frees nothing, keeps the
  invariant, raises the count by one, and makes exactly that key map to the value.
\<close>

theorem table_add_new_key:
  assumes "table_inv t" and "no_nul k" and "ham_hash_table_lookup t (str k) (-1) = Inr None"
  shows "\<exists>t'. ham_hash_table_add True True t (str k) (-1) v = Inr (0, [], t') \<and> table_inv t'
     \<and> ham_hash_table_get_size t' = ham_hash_table_get_size t + 1
     \<and> (\<forall>k'. no_nul k' \<longrightarrow> ham_hash_table_lookup t' (str k') (-1)
           = (if k' = k then Inr (Some v) else ham_hash_table_lookup t (str k') (-1)))"
  using assms add_fresh [of t k v] by (auto simp: lookup_str ham_hash_table_get_size_def)

lemma table_add_new_key_witness:
  "\<exists>t'. ham_hash_table_add True True table_A_ab (str ''B'') (-1) 3 = Inr (0, [], t') \<and> table_inv t'
     \<and> ham_hash_table_lookup t' (str ''B'') (-1) = Inr (Some 3)"
proof -
  have "ham_hash_table_lookup table_A_ab (str ''B'') (-1) = Inr None"
    by (simp add: lookup_str table_get_def table_A_ab_def ham_hash_table_new_def)
  from table_add_new_key [OF table_A_ab_inv _ this, of 3] show ?thesis by auto
qed

text \<open>
  Adding a key the table holds returns 0. Behind the head of its chain the item is
  replaced, and its old value handed to the free function. At the head nothing is replaced: every
  lookup still gives the old value, and the count goes up although no key was added.
\<close>

theorem table_add_existing_key:
  assumes "table_inv t" and "no_nul k" and "hitems t (hash_of k) = h # xs"
    and "k \<in> hkey ` set (h # xs)"
  shows "\<exists>t' freed. ham_hash_table_add True True t (str k) (-1) v = Inr (0, freed, t')
     \<and> (if hkey h = k
         then freed = [] \<and> hcount t' = hcount t + 1
           \<and> (\<forall>k'. no_nul k' \<longrightarrow>
                ham_hash_table_lookup t' (str k') (-1) = ham_hash_table_lookup t (str k') (-1))
         else table_inv t' \<and> hcount t' = hcount t
           \<and> (\<exists>x. hkey x = k \<and> ham_hash_table_lookup t (str k) (-1) = Inr (Some (hdata x))
                \<and> freed = ham_hash_table_item_destroy t x)
           \<and> (\<forall>k'. no_nul k' \<longrightarrow> ham_hash_table_lookup t' (str k') (-1)
                = (if k' = k then Inr (Some v) else ham_hash_table_lookup t (str k') (-1))))"
proof (cases "hkey h = k")
  case True
  from add_head_duplicates [OF assms(1-3) this, of v] True assms(2) show ?thesis
    by (auto simp: lookup_str)
next
  case False
  with assms(4) have "k \<in> hkey ` set xs" by auto
  from add_replace [OF assms(1-3) this, of v] False assms(2) show ?thesis
    by (fastforce simp: lookup_str)
qed

lemma table_add_existing_key_witness:
  "\<exists>t'. ham_hash_table_add True True table_A_ab (str ''A'') (-1) 9 = Inr (0, [], t')
     \<and> ham_hash_table_lookup t' (str ''A'') (-1) = Inr (Some 1) \<and> hcount t' = 3"
proof -
  have "hitems table_A_ab (hash_of ''A'') = [str_item ''A'' 1, str_item ''ab'' 2]"
    by (simp add: hash_of_A table_A_ab_chain)
  from table_add_existing_key [OF table_A_ab_inv _ this, of 9] obtain t'
    where "ham_hash_table_add True True table_A_ab (str ''A'') (-1) 9 = Inr (0, [], t')"
      and "hcount t' = 3"
      and "\<And>k'. no_nul k' \<Longrightarrow>
        ham_hash_table_lookup t' (str k') (-1) = ham_hash_table_lookup table_A_ab (str k') (-1)"
    by (auto simp: table_A_ab_count)
  moreover have "ham_hash_table_lookup table_A_ab (str ''A'') (-1) = Inr (Some 1)"
    by (simp add: lookup_str table_get_def hash_of_A table_A_ab_chain)
  ultimately show ?thesis by auto
qed

text \<open>
  Removing a key that heads its chain, or that follows at least two items of which the last
  has another length, removes exactly this key and passes its value to the free function;
  removing a key the table does not hold returns -1 and changes nothing.
\<close>

theorem table_remove_exact:
  assumes "table_inv t" and "no_nul k"
  shows "(ham_hash_table_lookup t (str k) (-1) = Inr None
          \<longrightarrow> ham_hash_table_remove t (str k) (-1) = Inr (-1, [], t))
    \<and> (\<forall>us x vs. hitems t (hash_of k) = us @ x # vs \<longrightarrow> hkey x = k \<longrightarrow> clean_position us k
        \<longrightarrow> (\<exists>t'. ham_hash_table_remove t (str k) (-1) = Inr (0, ham_hash_table_item_destroy t x, t')
              \<and> table_inv t' \<and> ham_hash_table_get_size t = ham_hash_table_get_size t' + 1
              \<and> (\<forall>k'. no_nul k' \<longrightarrow> ham_hash_table_lookup t' (str k') (-1)
                   = (if k' = k then Inr None else ham_hash_table_lookup t (str k') (-1)))))"
proof (intro conjI impI allI)
  assume "ham_hash_table_lookup t (str k) (-1) = Inr None"
  with assms show "ham_hash_table_remove t (str k) (-1) = Inr (-1, [], t)"
    by (simp add: lookup_str remove_absent)
next
  fix us x vs
  assume "hitems t (hash_of k) = us @ x # vs" "hkey x = k" "clean_position us k"
  from remove_clean [OF assms this] assms(2)
  show "\<exists>t'. ham_hash_table_remove t (str k) (-1) = Inr (0, ham_hash_table_item_destroy t x, t')
        \<and> table_inv t' \<and> ham_hash_table_get_size t = ham_hash_table_get_size t' + 1
        \<and> (\<forall>k'. no_nul k' \<longrightarrow> ham_hash_table_lookup t' (str k') (-1)
             = (if k' = k then Inr None else ham_hash_table_lookup t (str k') (-1)))"
    by (auto simp: lookup_str ham_hash_table_get_size_def)
qed

lemma table_remove_exact_witness:
  "\<exists>t'. ham_hash_table_remove table_A_ab (str ''A'') (-1) = Inr (0, [], t')
     \<and> ham_hash_table_lookup t' (str ''ab'') (-1) = Inr (Some 2)"
proof -
  have "hitems table_A_ab (hash_of ''A'') = [] @ str_item ''A'' 1 # [str_item ''ab'' 2]"
    by (simp add: hash_of_A table_A_ab_chain)
  moreover have "ham_hash_table_lookup table_A_ab (str ''ab'') (-1) = Inr (Some 2)"
    by (simp add: lookup_str table_get_def hash_of_ab table_A_ab_chain)
  moreover have "ham_hash_table_item_destroy table_A_ab (str_item ''A'' 1) = []"
    by (simp add: ham_hash_table_item_destroy_def table_A_ab_def ham_hash_table_new_def)
  ultimately show ?thesis
    using table_remove_exact [OF table_A_ab_inv, of "''A''"] by (fastforce simp: clean_position_def)
qed

text \<open>
  Removing the key of the second item of a chain also drops the first item: its key is no
  longer found and its value is never freed, while the count goes down by one only.
\<close>

theorem table_remove_second_drops_head:
  assumes "table_inv t" and "no_nul k" and "hitems t (hash_of k) = u # x # vs" and "hkey x = k"
  shows "\<exists>t'. ham_hash_table_remove t (str k) (-1) = Inr (0, ham_hash_table_item_destroy t x, t')
     \<and> ham_hash_table_lookup t (str (hkey u)) (-1) = Inr (Some (hdata u))
     \<and> ham_hash_table_lookup t' (str (hkey u)) (-1) = Inr None
     \<and> ham_hash_table_get_size t' = length (all_items t') + 1"
proof -
  have "no_nul (hkey u)"
    using table_inv_chain(1) [OF assms(1), of k] assms(3) by (simp add: item_ok_def)
  moreover have "hcount t = length (all_items t)"
    using assms(1) by (simp add: table_inv_def)
  ultimately show ?thesis
    using remove_second [OF assms] by (auto simp: lookup_str ham_hash_table_get_size_def)
qed

lemma table_remove_second_drops_head_witness:
  "\<exists>t'. ham_hash_table_remove table_A_ab (str ''ab'') (-1) = Inr (0, [], t')
     \<and> ham_hash_table_lookup table_A_ab (str ''A'') (-1) = Inr (Some 1)
     \<and> ham_hash_table_lookup t' (str ''A'') (-1) = Inr None"
proof -
  have "hitems table_A_ab (hash_of ''ab'') = str_item ''A'' 1 # str_item ''ab'' 2 # []"
    by (simp add: hash_of_ab table_A_ab_chain)
  moreover have "ham_hash_table_item_destroy table_A_ab (str_item ''ab'' 2) = []"
    by (simp add: ham_hash_table_item_destroy_def table_A_ab_def ham_hash_table_new_def)
  ultimately show ?thesis
    using table_remove_second_drops_head [OF table_A_ab_inv, of "''ab''"] by fastforce
qed

text \<open>
  The list \<open>ham_hash_table_to_list\<close> builds holds one value per key of the table, and
  each of them is what a lookup of its key gives.
\<close>

theorem table_to_list_complete:
  assumes "table_inv t" and "distinct (avail s)" and "set (avail s) \<inter> dom (cells s) = {}"
    and "ham_hash_table_get_size t \<le> length (avail s)"
  shows "\<exists>s' (l :: 'g ham_list) ks vs. ham_hash_table_to_list t s True = Inr (s', Some l)
     \<and> list_repr (s', l) vs \<and> length vs = ham_hash_table_get_size t \<and> length ks = length vs
     \<and> (\<forall>i < length vs. ham_hash_table_lookup t (str (ks ! i)) (-1) = Inr (Some (vs ! i)))"
proof -
  have size: "ham_hash_table_get_size t = length (all_items t)"
    using assms(1) by (simp add: table_inv_def ham_hash_table_get_size_def)
  obtain s' and l :: "'g ham_list" where "ham_hash_table_to_list t s True = Inr (s', Some l)"
    "list_repr (s', l) (map hdata (all_items t))"
    using to_list_repr [OF assms(2,3), of t, where ?'g = 'g] assms(4) size by auto
  moreover have "ham_hash_table_lookup t (str (map hkey (all_items t) ! i)) (-1)
      = Inr (Some (map hdata (all_items t) ! i))" if "i < length (all_items t)" for i
  proof -
    have x: "all_items t ! i \<in> set (all_items t)" using that by simp
    then have "no_nul (hkey (all_items t ! i))"
      using assms(1) by (fastforce simp: table_inv_def all_items_def list_all_iff item_ok_def)
    with all_items_get [OF assms(1) x] that show ?thesis by (simp add: lookup_str)
  qed
  ultimately show ?thesis
    using size by (intro exI [of _ s'] exI [of _ l] exI [of _ "map hkey (all_items t)"]
        exI [of _ "map hdata (all_items t)"]) auto
qed

lemma table_to_list_complete_witness:
  "\<exists>s' (l :: unit ham_list) vs.
     ham_hash_table_to_list table_A_ab \<lparr>cells = Map.empty, avail = [1, 2]\<rparr> True = Inr (s', Some l)
     \<and> list_repr (s', l) vs \<and> length vs = 2"
proof -
  have size: "ham_hash_table_get_size table_A_ab = 2"
    by (simp add: ham_hash_table_get_size_def table_A_ab_def)
  from table_to_list_complete [OF table_A_ab_inv, of "\<lparr>cells = Map.empty, avail = [1, 2]\<rparr>",
      where ?'g = unit] show ?thesis
    by (auto simp: size)
qed

text \<open>
  \<open>ham_hash_table_get_keys\<close> returns the keys of a table with at most one item; with two
  items or more it writes through memory that is not its array.
\<close>

theorem table_get_keys_overruns:
  assumes "table_inv t"
  shows "ham_hash_table_get_keys t =
     (if ham_hash_table_get_size t \<le> 1
      then Inr (ham_hash_table_get_size t, map hkey (all_items t)) else Inl Overflow)"
  using assms
  by (cases "all_items t" rule: remdups_adj.cases)
    (auto simp: table_inv_def ham_hash_table_get_size_def ham_hash_table_get_keys_def)

lemma table_get_keys_overruns_witness:
  "ham_hash_table_get_keys table_A_ab = Inl Overflow"
  using table_get_keys_overruns [OF table_A_ab_inv]
  by (simp add: ham_hash_table_get_size_def table_A_ab_def)

end
