(* ===== verification/Signals.thy ===== *)
theory Signals
  imports HashTable
begin

text \<open>
  The signals of the client library: \<open>library/signals.c\<close>.

  The static table maps a signal's name to its list of handlers. The table holds pointers to the
  lists, which are changed in place: a list object is a number, and \<open>sig_lists\<close> gives the handlers
  of each list object, in order (the linked list implements the sequence, as proved in its theory).
  A handler is a function pointer \<open>'h\<close> and the user's pointer \<open>'u\<close>; emitting a signal gives the
  calls that are made. Handlers that change the list they are called from are outside the model.

  \<open>sig_abs\<close> is what the component promises: a map from names to sequences of handlers.
\<close>

record ('h, 'u) handler_pair =
  pair_handler :: 'h
  pair_ui_data :: 'u

record ('h, 'u) signals =
  sig_table :: "(nat, unit) hash_table option"
  sig_lists :: "nat \<Rightarrow> ('h, 'u) handler_pair list"
  sig_next :: nat

text \<open>The lookup of a name in the static table, which is null before the first registration.\<close>

definition signal_list :: "string \<Rightarrow> ('h, 'u) signals \<Rightarrow> nat option result" where
  "signal_list name S = (case sig_table S of
     None \<Rightarrow> Inl Null_deref
   | Some t \<Rightarrow> ham_hash_table_lookup t (str name) (-1))"

definition signals_create :: "('h, 'u) signals \<Rightarrow> ('h, 'u) signals" where
  "signals_create S = (case sig_table S of
     None \<Rightarrow> S\<lparr>sig_table := Some (ham_hash_table_set_free_func (the (ham_hash_table_new True)) (Some ()))\<rparr>
   | Some _ \<Rightarrow> S)"

definition ham_signals_register_signal :: "string \<Rightarrow> ('h, 'u) signals \<Rightarrow> ('h, 'u) signals result" where
  "ham_signals_register_signal name S =
     (let S1 = signals_create S
      in rbind (signal_list name S1) (\<lambda>found. case found of
           Some _ \<Rightarrow> Inr S1
         | None \<Rightarrow>
             rbind (ham_hash_table_add True True (the (sig_table S1)) (str name) (-1) (sig_next S1))
               (\<lambda>(_, _, t). Inr (S1\<lparr>sig_table := Some t,
                  sig_lists := (sig_lists S1)(sig_next S1 := []), sig_next := Suc (sig_next S1)\<rparr>))))"

definition ham_signals_emit_signal ::
  "string \<Rightarrow> 'c \<Rightarrow> string \<Rightarrow> int \<Rightarrow> ('h, 'u) signals \<Rightarrow> ('h \<times> 'c \<times> string \<times> int \<times> 'u) list result" where
  "ham_signals_emit_signal name connection data err S =
     rmap (\<lambda>found. case found of
         None \<Rightarrow> []
       | Some i \<Rightarrow> map (\<lambda>p. (pair_handler p, connection, data, err, pair_ui_data p)) (sig_lists S i))
       (signal_list name S)"

definition ham_signals_register_handler ::
  "string \<Rightarrow> 'h \<Rightarrow> 'u \<Rightarrow> ('h, 'u) signals \<Rightarrow> ('h, 'u) signals result" where
  "ham_signals_register_handler name handler ui_data S =
     rmap (\<lambda>found. case found of
         None \<Rightarrow> S
       | Some i \<Rightarrow> S\<lparr>sig_lists := (sig_lists S)(i :=
             sig_lists S i @ [\<lparr>pair_handler = handler, pair_ui_data = ui_data\<rparr>])\<rparr>)
       (signal_list name S)"

text \<open>
  The loop of \<open>ham_signals_unregister_handler\<close>: \<open>item\<close> is the position of the item, and it is
  not advanced when the handler is another one. None is a loop that does not end.
\<close>

partial_function (option) unregister_walk ::
  "('h, 'u) handler_pair list \<Rightarrow> 'h \<Rightarrow> 'u \<Rightarrow> nat \<Rightarrow> ('h, 'u) handler_pair list option" where
  "unregister_walk ps handler ui_data item =
     (if length ps \<le> item then Some ps
      else if pair_handler (ps ! item) = handler \<and> pair_ui_data (ps ! item) = ui_data
        then Some (take item ps @ drop (Suc item) ps)
      else unregister_walk ps handler ui_data item)"

definition ham_signals_unregister_handler ::
  "string \<Rightarrow> 'h \<Rightarrow> 'u \<Rightarrow> ('h, 'u) signals \<Rightarrow> ('h, 'u) signals result option" where
  "ham_signals_unregister_handler name handler ui_data S =
     (case signal_list name S of
        Inl e \<Rightarrow> Some (Inl e)
      | Inr None \<Rightarrow> Some (Inr S)
      | Inr (Some i) \<Rightarrow>
          map_option (\<lambda>ps. Inr (S\<lparr>sig_lists := (sig_lists S)(i := ps)\<rparr>))
            (unregister_walk (sig_lists S i) handler ui_data 0))"

subsection \<open>Invariant and abstraction\<close>

definition sig_get :: "('h, 'u) signals \<Rightarrow> string \<Rightarrow> nat option" where
  "sig_get S name = (case sig_table S of None \<Rightarrow> None | Some t \<Rightarrow> table_get t name)"

definition sig_abs :: "('h, 'u) signals \<Rightarrow> string \<Rightarrow> ('h, 'u) handler_pair list option" where
  "sig_abs S name = map_option (sig_lists S) (sig_get S name)"

text \<open>Different names have different lists, and every list in the table has been created.\<close>

definition sig_inv :: "('h, 'u) signals \<Rightarrow> bool" where
  "sig_inv S \<longleftrightarrow> (case sig_table S of None \<Rightarrow> True | Some t \<Rightarrow> table_inv t)
     \<and> (\<forall>k i. sig_get S k = Some i \<longrightarrow> i < sig_next S)
     \<and> (\<forall>k k' i. sig_get S k = Some i \<longrightarrow> sig_get S k' = Some i \<longrightarrow> k = k')"

definition signals0 :: "('h, 'u) signals" where
  "signals0 = \<lparr>sig_table = None, sig_lists = (\<lambda>_. []), sig_next = 0\<rparr>"

lemma sig_inv0: "sig_inv signals0"
  by (simp add: sig_inv_def signals0_def sig_get_def)

lemma signal_list_get:
  "no_nul name \<Longrightarrow> sig_table S \<noteq> None \<Longrightarrow> signal_list name S = Inr (sig_get S name)"
  by (auto simp: signal_list_def sig_get_def lookup_str)

lemma signals_create_props:
  "sig_table (signals_create S) \<noteq> None" "sig_get (signals_create S) = sig_get S"
  "sig_lists (signals_create S) = sig_lists S" "sig_next (signals_create S) = sig_next S"
  by (auto simp: signals_create_def sig_get_def table_get_new [unfolded table_get_def] table_get_def
      ham_hash_table_set_free_func_def fun_eq_iff ham_hash_table_new_def split: option.splits)

lemma sig_inv_create: "sig_inv S \<Longrightarrow> sig_inv (signals_create S)"
  using signals_create_props [of S] table_inv_new
  by (auto simp: sig_inv_def signals_create_def table_inv_def ham_hash_table_set_free_func_def
      ham_hash_table_new_def all_items_def split: option.splits)

lemma register_signal_cases:
  assumes "sig_inv S" and "no_nul name"
  shows "\<exists>S'. ham_signals_register_signal name S = Inr S' \<and> sig_inv S' \<and> sig_table S' \<noteq> None
     \<and> sig_abs S' = (case sig_abs S name of None \<Rightarrow> (sig_abs S)(name \<mapsto> []) | Some _ \<Rightarrow> sig_abs S)"
proof -
  let ?S = "signals_create S"
  note create = signals_create_props [of S]
  have inv: "sig_inv ?S" using assms(1) by (rule sig_inv_create)
  obtain t where t: "sig_table ?S = Some t" using create(1) by blast
  have abs: "sig_abs ?S = sig_abs S" by (auto simp: sig_abs_def create fun_eq_iff)
  have found: "signal_list name ?S = Inr (sig_get S name)"
    using signal_list_get [OF assms(2) create(1)] by (simp add: create)
  show ?thesis
  proof (cases "sig_get S name")
    case (Some i)
    with inv abs found create(1) show ?thesis
      by (simp add: ham_signals_register_signal_def sig_abs_def)
  next
    case None
    have "table_inv t" "table_get t name = None"
      using inv t None create(2) by (auto simp: sig_inv_def sig_get_def fun_eq_iff)
    note table = add_absent [OF this(1) assms(2) this(2)] str_table.put_inv [OF this(1) assms(2) this(2)]
      str_table.get_put [OF this(1) assms(2) this(2)]
    define S' where "S' = ?S\<lparr>sig_table := Some (table_put name (sig_next S) t),
        sig_lists := (sig_lists S)(sig_next S := []), sig_next := Suc (sig_next S)\<rparr>"
    have run: "ham_signals_register_signal name S = Inr S'"
      using found None t table(1) by (simp add: ham_signals_register_signal_def create S'_def)
    have get: "sig_get S' k = (if k = name then Some (sig_next S) else sig_get S k)" for k
      using table(3) t create(2) by (auto simp: S'_def sig_get_def fun_eq_iff split: option.splits)
    have parts: "sig_table S' = Some (table_put name (sig_next S) t)"
      "sig_lists S' = (sig_lists S)(sig_next S := [])" "sig_next S' = Suc (sig_next S)"
      by (simp_all add: S'_def)
    have old: "sig_get S k \<noteq> Some (sig_next S)" for k
      using assms(1) by (auto simp: sig_inv_def)
    have "sig_inv S'"
      using assms(1) table(2) get old parts unfolding sig_inv_def
      by (auto intro: less_SucI split: if_splits)
    moreover have "sig_abs S' = (sig_abs S)(name \<mapsto> [])"
    proof
      fix k show "sig_abs S' k = ((sig_abs S)(name \<mapsto> [])) k"
        using old [of k] by (cases "sig_get S k") (auto simp: sig_abs_def get parts)
    qed
    ultimately show ?thesis
      using run None parts by (simp add: sig_abs_def)
  qed
qed

lemma sig_get_lists [simp]: "sig_get (S\<lparr>sig_lists := f\<rparr>) = sig_get S"
  by (simp add: sig_get_def fun_eq_iff)

lemma sig_inv_lists [simp]: "sig_inv (S\<lparr>sig_lists := f\<rparr>) \<longleftrightarrow> sig_inv S"
  by (simp add: sig_inv_def)

lemma sig_abs_lists:
  "sig_inv S \<Longrightarrow> sig_get S name = Some i \<Longrightarrow>
   sig_abs (S\<lparr>sig_lists := (sig_lists S)(i := ps)\<rparr>) = (sig_abs S)(name \<mapsto> ps)"
  by (auto simp: sig_abs_def fun_eq_iff sig_inv_def map_option_case split: option.splits)

lemma unregister_walk_first:
  "unregister_walk ps h u 0 =
     (case ps of [] \<Rightarrow> Some []
      | p # qs \<Rightarrow> if pair_handler p = h \<and> pair_ui_data p = u then Some qs
                 else unregister_walk ps h u 0)"
  by (subst unregister_walk.simps) (simp split: list.splits)

text \<open>The loop returns only when the item it starts from is the one it looks for.\<close>

lemma unregister_walk_returns:
  "unregister_walk ps h u i = Some y \<Longrightarrow> i < length ps \<longrightarrow>
     pair_handler (ps ! i) = h \<and> pair_ui_data (ps ! i) = u"
  by (erule unregister_walk.raw_induct [rotated]) (auto split: if_splits)

lemma unregister_walk_value:
  "unregister_walk ps h u 0 =
     (case ps of [] \<Rightarrow> Some []
      | p # qs \<Rightarrow> if p = \<lparr>pair_handler = h, pair_ui_data = u\<rparr> then Some qs else None)"
proof (cases ps)
  case Nil
  then show ?thesis by (subst unregister_walk_first) simp
next
  case (Cons p qs)
  show ?thesis
  proof (cases "pair_handler p = h \<and> pair_ui_data p = u")
    case True
    with Cons show ?thesis by (subst unregister_walk_first) (cases p; auto)
  next
    case False
    with Cons have "unregister_walk ps h u 0 = None"
      using unregister_walk_returns [of ps h u 0] by (cases "unregister_walk ps h u 0") auto
    with Cons False show ?thesis by auto
  qed
qed

lemma register_handler_value:
  assumes "sig_inv S" and "no_nul name" and "sig_table S \<noteq> None"
  shows "\<exists>S'. ham_signals_register_handler name h u S = Inr S' \<and> sig_inv S' \<and> sig_table S' \<noteq> None
     \<and> sig_abs S' = (case sig_abs S name of None \<Rightarrow> sig_abs S
         | Some ps \<Rightarrow> (sig_abs S)(name \<mapsto> ps @ [\<lparr>pair_handler = h, pair_ui_data = u\<rparr>]))"
proof (cases "sig_get S name")
  case None
  with assms show ?thesis
    by (simp add: ham_signals_register_handler_def signal_list_get sig_abs_def)
next
  case (Some i)
  with assms show ?thesis
    using sig_abs_lists [OF assms(1) Some]
    by (simp add: ham_signals_register_handler_def signal_list_get)
      (simp add: sig_abs_def)
qed

lemma emit_value:
  assumes "no_nul name" and "sig_table S \<noteq> None"
  shows "ham_signals_emit_signal name c d e S =
     Inr (map (\<lambda>p. (pair_handler p, c, d, e, pair_ui_data p))
       (case sig_abs S name of None \<Rightarrow> [] | Some ps \<Rightarrow> ps))"
  using assms
  by (cases "sig_get S name") (simp_all add: ham_signals_emit_signal_def signal_list_get sig_abs_def)

lemma unregister_first:
  assumes "sig_inv S" and "no_nul name" and "sig_abs S name = Some (\<lparr>pair_handler = h, pair_ui_data = u\<rparr> # qs)"
  shows "\<exists>S'. ham_signals_unregister_handler name h u S = Some (Inr S') \<and> sig_inv S' \<and> sig_table S' \<noteq> None
     \<and> sig_abs S' = (sig_abs S)(name \<mapsto> qs)"
proof -
  obtain i where i: "sig_get S name = Some i" "sig_lists S i = \<lparr>pair_handler = h, pair_ui_data = u\<rparr> # qs"
    using assms(3) by (auto simp: sig_abs_def)
  then have "sig_table S \<noteq> None" by (auto simp: sig_get_def split: option.splits)
  with i assms(1,2) sig_abs_lists [OF assms(1) i(1), of qs] show ?thesis
    by (simp add: ham_signals_unregister_handler_def signal_list_get unregister_walk_value)
qed

text \<open>A client registers a signal and then its handlers.\<close>

definition subscribe ::
  "string \<Rightarrow> ('h \<times> 'u) list \<Rightarrow> ('h, 'u) signals \<Rightarrow> ('h, 'u) signals result" where
  "subscribe name hs S = fold (\<lambda>(h, u) r. rbind r (ham_signals_register_handler name h u)) hs
     (ham_signals_register_signal name S)"

lemma subscribe_handlers:
  assumes "sig_inv S" and "no_nul name" and "sig_table S \<noteq> None" and "sig_abs S name = Some ps"
  shows "\<exists>S'. fold (\<lambda>(h, u) r. rbind r (ham_signals_register_handler name h u)) hs (Inr S) = Inr S'
     \<and> sig_inv S' \<and> sig_table S' \<noteq> None
     \<and> sig_abs S' name = Some (ps @ map (\<lambda>(h, u). \<lparr>pair_handler = h, pair_ui_data = u\<rparr>) hs)"
  using assms
proof (induction hs arbitrary: S ps)
  case Nil
  then show ?case by (auto simp: fun_upd_idem)
next
  case (Cons x hs)
  obtain h u where x: "x = (h, u)" by (cases x)
  obtain S1 where S1: "ham_signals_register_handler name h u S = Inr S1" "sig_inv S1"
    "sig_table S1 \<noteq> None"
    "sig_abs S1 = (sig_abs S)(name \<mapsto> ps @ [\<lparr>pair_handler = h, pair_ui_data = u\<rparr>])"
    using register_handler_value [OF Cons.prems(1-3), of h u] Cons.prems(4) by auto
  have "sig_abs S1 name = Some (ps @ [\<lparr>pair_handler = h, pair_ui_data = u\<rparr>])"
    using S1(4) by simp
  from Cons.IH [OF S1(2) Cons.prems(2) S1(3) this] show ?case
    using S1(1) x by simp
qed

subsection \<open>The properties\<close>

text \<open>
  C24. The component implements a map from names to sequences of handlers: registering a signal
  adds its name with no handlers unless it is there, registering a handler appends it to the
  handlers of a registered name and does nothing for other names, and emitting calls the handlers
  of the name in the order in which they were registered.
\<close>

theorem signals_refine:
  assumes "sig_inv S" and "no_nul name" and "sig_table S \<noteq> None"
  shows "(\<exists>S'. ham_signals_register_signal name S = Inr S' \<and> sig_inv S' \<and> sig_abs S' =
        (if sig_abs S name = None then (sig_abs S)(name \<mapsto> []) else sig_abs S))
    \<and> (\<exists>S'. ham_signals_register_handler name h u S = Inr S' \<and> sig_inv S' \<and> sig_abs S' =
        (case sig_abs S name of None \<Rightarrow> sig_abs S
         | Some ps \<Rightarrow> (sig_abs S)(name \<mapsto> ps @ [\<lparr>pair_handler = h, pair_ui_data = u\<rparr>])))
    \<and> ham_signals_emit_signal name c d e S =
        Inr (map (\<lambda>p. (pair_handler p, c, d, e, pair_ui_data p))
          (case sig_abs S name of None \<Rightarrow> [] | Some ps \<Rightarrow> ps))"
proof (intro conjI)
  show "\<exists>S'. ham_signals_register_signal name S = Inr S' \<and> sig_inv S' \<and> sig_abs S' =
      (if sig_abs S name = None then (sig_abs S)(name \<mapsto> []) else sig_abs S)"
    using register_signal_cases [OF assms(1,2)] by (cases "sig_abs S name") auto
  show "\<exists>S'. ham_signals_register_handler name h u S = Inr S' \<and> sig_inv S' \<and> sig_abs S' =
      (case sig_abs S name of None \<Rightarrow> sig_abs S
       | Some ps \<Rightarrow> (sig_abs S)(name \<mapsto> ps @ [\<lparr>pair_handler = h, pair_ui_data = u\<rparr>]))"
    using register_handler_value [OF assms, of h u] by blast
qed (rule emit_value [OF assms(2,3)])

lemma signals_created:
  "sig_inv (signals_create (signals0 :: (nat, nat) signals))"
  "sig_table (signals_create (signals0 :: (nat, nat) signals)) \<noteq> None"
  "sig_abs (signals_create (signals0 :: (nat, nat) signals)) k = None"
  using sig_inv_create [OF sig_inv0] signals_create_props [of "signals0 :: (nat, nat) signals"]
  by (simp_all add: sig_abs_def) (simp add: sig_get_def signals0_def)

theorem signals_refine_witness:
  "\<exists>S'. ham_signals_register_signal ''s'' (signals_create (signals0 :: (nat, nat) signals)) = Inr S'
     \<and> sig_inv S' \<and> sig_abs S' ''s'' = Some []"
  using signals_refine [of "signals_create (signals0 :: (nat, nat) signals)" "''s''" 0 0 "()" "[]" 0]
    signals_created by auto

text \<open>
  From any state, also before the first signal is registered: registering a signal that is
  new and then any handlers for it makes emitting it call exactly these handlers, in that order.
\<close>

theorem subscribed_handlers_are_called:
  assumes "sig_inv S" and "no_nul name" and "sig_abs S name = None"
  shows "\<exists>S'. subscribe name hs S = Inr S'
    \<and> ham_signals_emit_signal name c d e S' = Inr (map (\<lambda>(h, u). (h, c, d, e, u)) hs)"
proof -
  obtain S1 where S1: "ham_signals_register_signal name S = Inr S1" "sig_inv S1" "sig_table S1 \<noteq> None"
    "sig_abs S1 name = Some []"
    using register_signal_cases [OF assms(1,2)] assms(3) by auto
  obtain S2 where "subscribe name hs S = Inr S2" "sig_table S2 \<noteq> None"
    "sig_abs S2 name = Some (map (\<lambda>(h, u). \<lparr>pair_handler = h, pair_ui_data = u\<rparr>) hs)"
    using subscribe_handlers [OF S1(2) assms(2) S1(3,4), of hs] S1(1) by (auto simp: subscribe_def)
  then show ?thesis
    by (intro exI [of _ S2]) (simp add: emit_value [OF assms(2)] comp_def case_prod_beta)
qed

theorem subscribed_handlers_are_called_witness:
  "\<exists>S'. subscribe ''s'' [(1, 10), (2, 20)] (signals0 :: (nat, nat) signals) = Inr S'
    \<and> ham_signals_emit_signal ''s'' () ''data'' 0 S' =
        Inr [(1, (), ''data'', 0, 10), (2, (), ''data'', 0, 20)]"
  using subscribed_handlers_are_called [of "signals0 :: (nat, nat) signals" "''s''" "[(1, 10), (2, 20)]"
      "()" "''data''" 0] sig_inv0
  by (simp add: sig_abs_def sig_get_def signals0_def)

text \<open>
  Unregistering returns only when the name is unknown, has no handlers, or the handler is
  the first of its list, which is then removed; for every other handler of the list, and for a
  handler that is not registered, the loop never ends.
\<close>

theorem unregister_returns_iff_first:
  assumes "sig_inv S" and "no_nul name" and "sig_abs S name = Some ps" and "ps \<noteq> []"
  shows "(if hd ps = \<lparr>pair_handler = h, pair_ui_data = u\<rparr>
     then \<exists>S'. ham_signals_unregister_handler name h u S = Some (Inr S') \<and> sig_inv S'
            \<and> sig_abs S' = (sig_abs S)(name \<mapsto> tl ps)
     else ham_signals_unregister_handler name h u S = None)"
proof -
  obtain i where i: "sig_get S name = Some i" "sig_lists S i = ps"
    using assms(3) by (auto simp: sig_abs_def)
  then have "sig_table S \<noteq> None" by (auto simp: sig_get_def split: option.splits)
  with i assms sig_abs_lists [OF assms(1) i(1), of "tl ps"] show ?thesis
    by (cases ps) (auto simp: ham_signals_unregister_handler_def signal_list_get unregister_walk_value)
qed

theorem unregister_returns_iff_first_witness:
  "\<exists>S. subscribe ''s'' [(1, 10), (2, 20)] (signals0 :: (nat, nat) signals) = Inr S
     \<and> ham_signals_unregister_handler ''s'' 2 20 S = None"
proof -
  let ?S = "signals0 :: (nat, nat) signals"
  have none: "sig_abs ?S ''s'' = None" by (simp add: sig_abs_def sig_get_def signals0_def)
  obtain S1 where S1: "ham_signals_register_signal ''s'' ?S = Inr S1" "sig_inv S1" "sig_table S1 \<noteq> None"
    "sig_abs S1 ''s'' = Some []"
    using register_signal_cases [of ?S "''s''", OF sig_inv0] none by auto
  obtain S2 where "subscribe ''s'' [(1, 10), (2, 20)] ?S = Inr S2" "sig_inv S2"
    "sig_abs S2 ''s'' = Some [\<lparr>pair_handler = 1, pair_ui_data = 10\<rparr>, \<lparr>pair_handler = 2, pair_ui_data = 20\<rparr>]"
    using subscribe_handlers [OF S1(2) _ S1(3,4), of "[(1, 10), (2, 20)]"] S1(1)
    by (auto simp: subscribe_def)
  then show ?thesis
    using unregister_returns_iff_first [of S2 "''s''" _ 2 20] by (intro exI [of _ S2]) force
qed

end
