(* ===== verification/Messages.thy ===== *)
theory Messages
  imports Prelude
begin

text \<open>
  The client's message objects: \<open>library/reply.c\<close> and \<open>library/request.c\<close>.

  A header is a pair of strings without NUL. The reply's content is a buffer of
  \<open>MAX_REPLY_SIZE\<close> bytes whose initial bytes are whatever \<open>malloc\<close> returns (the argument
  \<open>junk\<close>). \<open>headers_count\<close> is the length of the header list. The allocations of the copies of
  names, values and contents are taken to succeed; those of the objects are arguments.

  \<open>ham_request_get_data\<close> and \<open>ham_reply_get_dump\<close> first compute the size of a buffer and then
  print into it: each is modelled as the size and the text, and the lemmas compare the two.
\<close>

record header =
  hname :: string
  hvalue :: string

definition MAX_REPLY_SIZE :: nat where
  "MAX_REPLY_SIZE = 65535"

subsection \<open>Replies\<close>

record reply =
  r_status :: nat
  r_content :: cbuf
  r_headers :: "header list"
  r_finished :: bool

definition ham_reply_header_new :: "bool \<Rightarrow> string \<Rightarrow> string \<Rightarrow> header option" where
  "ham_reply_header_new ok name v = (if \<not> ok then None else Some \<lparr>hname = name, hvalue = v\<rparr>)"

definition ham_reply_header_get_name :: "header \<Rightarrow> string" where
  "ham_reply_header_get_name h = hname h"

definition ham_reply_header_get_value :: "header \<Rightarrow> string" where
  "ham_reply_header_get_value h = hvalue h"

definition ham_reply_new :: "bool \<Rightarrow> bool \<Rightarrow> cbuf \<Rightarrow> reply option" where
  "ham_reply_new ok_reply ok_content junk =
     (if \<not> ok_reply then None
      else if \<not> ok_content then None
      else Some \<lparr>r_status = 0, r_content = junk, r_headers = [], r_finished = False\<rparr>)"

text \<open>\<open>ok\<close>: whether \<open>realloc\<close> succeeds. When it fails all headers are lost.\<close>

definition ham_reply_add_header :: "bool \<Rightarrow> header \<Rightarrow> reply \<Rightarrow> reply" where
  "ham_reply_add_header ok h r =
     (if \<not> ok then r\<lparr>r_headers := []\<rparr> else r\<lparr>r_headers := r_headers r @ [h]\<rparr>)"

definition find_header :: "header list \<Rightarrow> string \<Rightarrow> string option" where
  "find_header hs name = map_option hvalue (List.find (\<lambda>h. hname h = name) hs)"

definition ham_reply_get_header :: "reply \<Rightarrow> string \<Rightarrow> string option" where
  "ham_reply_get_header r name = find_header (r_headers r) name"

definition ham_reply_is_finished :: "reply \<Rightarrow> bool" where
  "ham_reply_is_finished r = r_finished r"

definition ham_reply_get_status :: "reply \<Rightarrow> nat" where
  "ham_reply_get_status r = r_status r"

text \<open>The content as the C string that a user of the pointer sees.\<close>

definition ham_reply_get_content :: "reply \<Rightarrow> string result" where
  "ham_reply_get_content r = buf_str MAX_REPLY_SIZE (r_content r) 0"

definition dump_header :: "header \<Rightarrow> string" where
  "dump_header h = ''       '' @ hname h @ '': '' @ hvalue h @ [LF]"

text \<open>The size of the allocated buffer and the text printed into it (without the final NUL).\<close>

definition ham_reply_get_dump :: "reply \<Rightarrow> (nat \<times> string) result" where
  "ham_reply_get_dump r = rmap (\<lambda>content.
     (length (''   status='' @ [LF] @ ''   content='' @ [LF] @ ''   Headers:'' @ [LF])
        + (3 + length content)
        + sum_list (map (\<lambda>h. length (''       : '' @ [LF]) + length (hname h) + length (hvalue h))
            (r_headers r))
        + 1,
      ''   status='' @ dec (r_status r) @ [LF] @
      ''   content='' @ content @ [LF] @
      ''   Headers:'' @ [LF] @
      concat (map dump_header (r_headers r))))
     (ham_reply_get_content r)"

subsection \<open>Requests\<close>

record request =
  q_method :: string
  q_uri :: string
  q_content :: "string option"
  q_content_type :: "string option"
  q_headers :: "header list"

text \<open>
  \<open>strdup(content_type)\<close> is called whenever there is a content, with a null pointer too. \<open>ok\<close>
  is whether the request object can be allocated, \<open>ok_copies\<close> whether the copies of the method
  and the URI can.
\<close>

definition ham_request_new ::
  "bool \<Rightarrow> bool \<Rightarrow> string \<Rightarrow> string \<Rightarrow> string option \<Rightarrow> string option \<Rightarrow> request option result" where
  "ham_request_new ok ok_copies uri meth content content_type =
     (if \<not> ok then Inr None
      else case content of
        None \<Rightarrow> (if \<not> ok_copies then Inr None
          else Inr (Some \<lparr>q_method = meth, q_uri = uri, q_content = None,
                 q_content_type = None, q_headers = []\<rparr>))
      | Some c \<Rightarrow> (case content_type of
          None \<Rightarrow> Inl Null_deref
        | Some ct \<Rightarrow> (if \<not> ok_copies then Inr None
            else Inr (Some \<lparr>q_method = meth, q_uri = uri, q_content = Some c,
                 q_content_type = Some ct, q_headers = []\<rparr>))))"

definition ham_request_set_content :: "string \<Rightarrow> request \<Rightarrow> request" where
  "ham_request_set_content c q = q\<lparr>q_content := Some c\<rparr>"

definition ham_request_add_header :: "bool \<Rightarrow> string \<Rightarrow> string \<Rightarrow> request \<Rightarrow> request" where
  "ham_request_add_header ok name v q =
     (if \<not> ok then q\<lparr>q_headers := []\<rparr>
      else q\<lparr>q_headers := q_headers q @ [\<lparr>hname = name, hvalue = v\<rparr>]\<rparr>)"

definition print_header :: "header \<Rightarrow> string" where
  "print_header h = hname h @ '': '' @ hvalue h @ [CR, LF]"

definition request_size :: "request \<Rightarrow> nat" where
  "request_size q =
     length (q_method q) + length (q_uri q) + 14 + 1
     + sum_list (map (\<lambda>h. length (hname h) + length (hvalue h) + 2 + 2) (q_headers q))
     + (case q_content q of None \<Rightarrow> 0
        | Some c \<Rightarrow> length c + (length ''Content-Length: '' + 5) + 6)
     + 2"

definition request_text :: "request \<Rightarrow> string" where
  "request_text q =
     q_method q @ '' '' @ q_uri q @ '' HTTP/1.1'' @ [CR, LF] @
     concat (map print_header (q_headers q)) @
     (case q_content q of None \<Rightarrow> []
      | Some c \<Rightarrow> ''Content-Length: '' @ dec (length c) @ [CR, LF, CR, LF] @ c) @
     [CR, LF]"

definition ham_request_get_data :: "request \<Rightarrow> string result" where
  "ham_request_get_data q =
     (if length (request_text q) + 1 \<le> request_size q then Inr (request_text q) else Inl Overflow)"

subsection \<open>Headers\<close>

lemma find_header_simps [simp]:
  "find_header [] name = None"
  "find_header (h # hs) name = (if hname h = name then Some (hvalue h) else find_header hs name)"
  by (simp_all add: find_header_def)

lemma find_header_append:
  "find_header (hs @ gs) name =
     (case find_header hs name of None \<Rightarrow> find_header gs name | Some v \<Rightarrow> Some v)"
  by (induction hs) auto

lemma find_header_None_iff: "find_header hs name = None \<longleftrightarrow> name \<notin> hname ` set hs"
  by (induction hs) auto

subsection \<open>Sizes\<close>

lemma length_dump_headers:
  "length (concat (map dump_header hs)) =
   sum_list (map (\<lambda>h. length (''       : '' @ [LF]) + length (hname h) + length (hvalue h)) hs)"
  by (induction hs) (simp_all add: dump_header_def)

lemma length_print_headers:
  "length (concat (map print_header hs)) =
   sum_list (map (\<lambda>h. length (hname h) + length (hvalue h) + 2 + 2) hs)"
  by (induction hs) (simp_all add: print_header_def)

lemma dump_slack:
  assumes "ham_reply_get_dump r = Inr (n, text)"
  shows "length text + 1 + 3 = n + length (dec (r_status r))"
  using assms
  by (auto simp: ham_reply_get_dump_def rmap_def rbind_Inr_iff length_dump_headers)

lemma request_slack:
  "length (request_text q) + 1 + (case q_content q of None \<Rightarrow> 2 | Some _ \<Rightarrow> 9)
   = request_size q + (case q_content q of None \<Rightarrow> 0 | Some c \<Rightarrow> length (dec (length c)))"
  by (auto simp: request_text_def request_size_def length_print_headers split: option.splits)

lemma length_dec_9: "length (dec n) \<le> 9 \<longleftrightarrow> n < 10 ^ 9"
  using length_dec_le [of n 9] length_dec_ge [of 9 n] by linarith

lemma get_data_value:
  "ham_request_get_data q =
     (if (case q_content q of None \<Rightarrow> True | Some c \<Rightarrow> length c < 10 ^ 9)
      then Inr (request_text q) else Inl Overflow)"
proof (cases "q_content q")
  case None
  then show ?thesis
    using request_slack [of q] by (simp add: ham_request_get_data_def)
next
  case (Some c)
  then show ?thesis
    using request_slack [of q] length_dec_9 [of "length c"] by (auto simp: ham_request_get_data_def)
qed

subsection \<open>The properties\<close>


end
