(* ===== verification/HttpParser.thy ===== *)
theory HttpParser
  imports Messages
begin

text \<open>
  The client's HTTP reply parser, the first half of \<open>library/parser.c\<close>.

  The parser collects header names and values in two buffers of 512 bytes and the content in the
  reply's buffer, through one pointer \<open>ptr\<close> that is never checked against the end of the buffer.
  \<open>ptr\<close> is modelled as the buffer it points into and the offset; a write beyond the end, or
  through the null pointer \<open>ham_parser_reset\<close> leaves, is a fault.

  \<open>ham_parser_consume\<close> is the code's \<open>switch\<close>, with one definition per state from the header lines on; the first component of
  its result is the C function's return value. \<open>ham_parser_parse\<close> returns the C function's value
  with the parser and the reply.
\<close>

datatype parser_state =
    http_version_h | http_version_t_1 | http_version_t_2 | http_version_p | http_version_slash
  | http_version_major_start | http_version_major | http_version_minor_start | http_version_minor
  | status_start | status_1 | status_2 | status_text
  | content_start | in_content
  | expecting_newline_1 | header_line_start | header_lws | header_name
  | space_before_header_value | header_value
  | expecting_newline_2 | expecting_newline_3 | expecting_newline_4

datatype cursor = In_name nat | In_value nat | In_reply nat

record parser =
  p_state :: parser_state
  p_name :: cbuf
  p_value :: cbuf
  p_ptr :: "cursor option"

definition HEADER_SIZE :: nat where
  "HEADER_SIZE = 512"

subsection \<open>Character classes\<close>

definition isChar :: "char \<Rightarrow> bool" where
  "isChar c \<longleftrightarrow> 0 \<le> schar c \<and> schar c \<le> 127"

definition isControl :: "char \<Rightarrow> bool" where
  "isControl c \<longleftrightarrow> 0 \<le> schar c \<and> schar c \<le> 31 \<or> schar c = 127"

definition isSpecial :: "char \<Rightarrow> bool" where
  "isSpecial c \<longleftrightarrow> c \<in> set (''()<>@,;:'' @ [CHR 0x5C, DQUOTE] @ ''/[]?={} '' @ [TAB])"

definition isDigit :: "char \<Rightarrow> bool" where
  "isDigit c \<longleftrightarrow> 48 \<le> schar c \<and> schar c \<le> 57"

definition digit_value :: "char \<Rightarrow> nat" where
  "digit_value c = nat (schar c - 48)"

subsection \<open>Writing through the pointer\<close>

text \<open>\<open>*parser->ptr = c\<close>, and \<open>*parser->ptr++ = c\<close>.\<close>

definition store_ptr :: "char \<Rightarrow> parser \<times> reply \<Rightarrow> (parser \<times> reply) result" where
  "store_ptr c = (\<lambda>(p, r). case p_ptr p of
     None \<Rightarrow> Inl Null_deref
   | Some (In_name i) \<Rightarrow> rmap (\<lambda>b. (p\<lparr>p_name := b\<rparr>, r)) (buf_put HEADER_SIZE i c (p_name p))
   | Some (In_value i) \<Rightarrow> rmap (\<lambda>b. (p\<lparr>p_value := b\<rparr>, r)) (buf_put HEADER_SIZE i c (p_value p))
   | Some (In_reply i) \<Rightarrow> rmap (\<lambda>b. (p, r\<lparr>r_content := b\<rparr>)) (buf_put MAX_REPLY_SIZE i c (r_content r)))"

fun advance :: "cursor \<Rightarrow> cursor" where
  "advance (In_name i) = In_name (Suc i)"
| "advance (In_value i) = In_value (Suc i)"
| "advance (In_reply i) = In_reply (Suc i)"

definition push_ptr :: "char \<Rightarrow> parser \<times> reply \<Rightarrow> (parser \<times> reply) result" where
  "push_ptr c pr = rmap (\<lambda>(p, r). (p\<lparr>p_ptr := map_option advance (p_ptr p)\<rparr>, r)) (store_ptr c pr)"

subsection \<open>The state machine\<close>

definition ham_parser_reset :: "parser \<Rightarrow> parser" where
  "ham_parser_reset p = p\<lparr>p_state := http_version_h, p_ptr := None\<rparr>"

definition ham_parser_new :: "bool \<Rightarrow> parser \<Rightarrow> parser option" where
  "ham_parser_new ok junk = (if \<not> ok then None else Some (ham_parser_reset junk))"

abbreviation accept :: "parser_state \<Rightarrow> parser \<Rightarrow> reply \<Rightarrow> (bool \<times> parser \<times> reply) result" where
  "accept st p r \<equiv> Inr (True, p\<lparr>p_state := st\<rparr>, r)"

abbreviation reject :: "parser \<Rightarrow> reply \<Rightarrow> (bool \<times> parser \<times> reply) result" where
  "reject p r \<equiv> Inr (False, p, r)"

definition at_header_line_start ::
  "parser \<Rightarrow> reply \<Rightarrow> char \<Rightarrow> (bool \<times> parser \<times> reply) result" where
  "at_header_line_start p r input = (
     if input = CR then accept expecting_newline_3 p r
     else if r_headers r = [] \<and> (input = SP \<or> input = TAB) then accept header_lws p r
     else if \<not> isChar input \<or> isControl input \<or> isSpecial input then reject p r
     else rmap (Pair True)
            (push_ptr input (p\<lparr>p_state := header_name, p_ptr := Some (In_name 0)\<rparr>, r)))"

definition at_header_lws ::
  "parser \<Rightarrow> reply \<Rightarrow> char \<Rightarrow> (bool \<times> parser \<times> reply) result" where
  "at_header_lws p r input = (
     if input = CR then accept expecting_newline_2 p r
     else if input = SP \<or> input = TAB then Inr (True, p, r)
     else if isControl input then reject p r
     else rmap (Pair True) (push_ptr input (p\<lparr>p_state := header_value\<rparr>, r)))"

definition at_header_name ::
  "parser \<Rightarrow> reply \<Rightarrow> char \<Rightarrow> (bool \<times> parser \<times> reply) result" where
  "at_header_name p r input = (
     if input = CHR '':'' then accept space_before_header_value p r
     else if \<not> isChar input \<or> isControl input \<or> isSpecial input then reject p r
     else rmap (Pair True) (push_ptr input (p, r)))"

definition at_space ::
  "parser \<Rightarrow> reply \<Rightarrow> char \<Rightarrow> (bool \<times> parser \<times> reply) result" where
  "at_space p r input = (
     if input = SP then
       rmap (\<lambda>(p1, r1). (True, p1\<lparr>p_ptr := Some (In_value 0)\<rparr>, r1))
         (store_ptr NUL (p\<lparr>p_state := header_value\<rparr>, r))
     else reject p r)"

definition at_header_value ::
  "parser \<Rightarrow> reply \<Rightarrow> char \<Rightarrow> (bool \<times> parser \<times> reply) result" where
  "at_header_value p r input = (
     if input = CR then
       rbind (store_ptr NUL (p\<lparr>p_state := expecting_newline_2\<rparr>, r)) (\<lambda>(p1, r1).
       rbind (buf_str HEADER_SIZE (p_name p1) 0) (\<lambda>name.
       rbind (buf_str HEADER_SIZE (p_value p1) 0) (\<lambda>v.
         Inr (True, p1,
           ham_reply_add_header True (the (ham_reply_header_new True name v)) r1))))
     else if isControl input then reject p r
     else rmap (Pair True) (push_ptr input (p, r)))"

definition at_content_start ::
  "parser \<Rightarrow> reply \<Rightarrow> char \<Rightarrow> (bool \<times> parser \<times> reply) result" where
  "at_content_start p r input = (
     if input = CR then accept expecting_newline_3 p r
     else rmap (Pair True)
            (push_ptr input (p\<lparr>p_state := in_content, p_ptr := Some (In_reply 0)\<rparr>, r)))"

definition at_content ::
  "parser \<Rightarrow> reply \<Rightarrow> char \<Rightarrow> (bool \<times> parser \<times> reply) result" where
  "at_content p r input = (
     if input = CR then
       rmap (\<lambda>(p1, r1). (True, p1\<lparr>p_state := expecting_newline_4\<rparr>, r1)) (store_ptr NUL (p, r))
     else rmap (Pair True) (push_ptr input (p, r)))"

definition at_newline_3 ::
  "parser \<Rightarrow> reply \<Rightarrow> char \<Rightarrow> (bool \<times> parser \<times> reply) result" where
  "at_newline_3 p r input = (
     if input = LF then
       (case ham_reply_get_header r ''Content-Length'' of
          Some v \<Rightarrow>
            if v \<noteq> ''0'' then accept content_start p r
            else Inr (True, ham_parser_reset p,
              r\<lparr>r_content := (r_content r)(0 := NUL), r_finished := True\<rparr>)
        | None \<Rightarrow> Inr (True, ham_parser_reset p,
              r\<lparr>r_content := (r_content r)(0 := NUL), r_finished := True\<rparr>))
     else reject p r)"

definition ham_parser_consume ::
  "parser \<Rightarrow> reply \<Rightarrow> char \<Rightarrow> (bool \<times> parser \<times> reply) result" where
  "ham_parser_consume p r input = (case p_state p of
     http_version_h \<Rightarrow>
       if input = CHR ''H'' then accept http_version_t_1 p r
       else if input = LF \<or> input = CR then Inr (True, p, r)
       else reject p r
   | http_version_t_1 \<Rightarrow>
       if input = CHR ''T'' then accept http_version_t_2 p r else reject p r
   | http_version_t_2 \<Rightarrow>
       if input = CHR ''T'' then accept http_version_p p r else reject p r
   | http_version_p \<Rightarrow>
       if input = CHR ''P'' then accept http_version_slash p r else reject p r
   | http_version_slash \<Rightarrow>
       if input = CHR ''/'' then accept http_version_major_start p r else reject p r
   | http_version_major_start \<Rightarrow>
       if isDigit input then accept http_version_major p r else reject p r
   | http_version_major \<Rightarrow>
       if input = CHR ''.'' then accept http_version_minor_start p r
       else if isDigit input then Inr (True, p, r)
       else reject p r
   | http_version_minor_start \<Rightarrow>
       if isDigit input then accept http_version_minor p r else reject p r
   | http_version_minor \<Rightarrow>
       if input = SP then accept status_start p r
       else if isDigit input then Inr (True, p, r)
       else reject p r
   | status_start \<Rightarrow>
       if isDigit input then accept status_1 p (r\<lparr>r_status := 100 * digit_value input\<rparr>) else reject p r
   | status_1 \<Rightarrow>
       if isDigit input then accept status_2 p (r\<lparr>r_status := r_status r + 10 * digit_value input\<rparr>)
       else reject p r
   | status_2 \<Rightarrow>
       if isDigit input then accept status_text p (r\<lparr>r_status := r_status r + digit_value input\<rparr>)
       else reject p r
   | status_text \<Rightarrow>
       if isDigit input then reject p r
       else if input = CR then accept expecting_newline_1 p r
       else Inr (True, p, r)
   | expecting_newline_1 \<Rightarrow>
       if input = LF then accept header_line_start p r else reject p r
   | header_line_start \<Rightarrow> at_header_line_start p r input
   | header_lws \<Rightarrow> at_header_lws p r input
   | header_name \<Rightarrow> at_header_name p r input
   | space_before_header_value \<Rightarrow> at_space p r input
   | header_value \<Rightarrow> at_header_value p r input
   | content_start \<Rightarrow> at_content_start p r input
   | in_content \<Rightarrow> at_content p r input
   | expecting_newline_2 \<Rightarrow>
       if input = LF then accept header_line_start p r else reject p r
   | expecting_newline_3 \<Rightarrow> at_newline_3 p r input
   | expecting_newline_4 \<Rightarrow>
       if input = LF then Inr (True, ham_parser_reset p, r\<lparr>r_finished := True\<rparr>)
       else reject p r)"

text \<open>
  The loop of \<open>ham_parser_parse\<close>; \<open>n\<close> is \<open>old_size - size\<close>. The byte that finishes the reply
  is not counted.
\<close>

fun parse_loop :: "nat \<Rightarrow> parser \<Rightarrow> reply \<Rightarrow> string \<Rightarrow> (nat \<times> parser \<times> reply) result" where
  "parse_loop n p r [] = Inr (n, p, r)"
| "parse_loop n p r (c # cs) =
     rbind (ham_parser_consume p r c) (\<lambda>(ok, p1, r1).
       if \<not> ok then Inr (n, ham_parser_reset p1, r1)
       else if r_finished r1 then Inr (n, p1, r1)
       else parse_loop (Suc n) p1 r1 cs)"

definition ham_parser_parse :: "parser \<Rightarrow> reply \<Rightarrow> string \<Rightarrow> (nat \<times> parser \<times> reply) result" where
  "ham_parser_parse p r bytes = parse_loop 0 p r bytes"

subsection \<open>The parser's invariant\<close>

definition terminated :: "nat \<Rightarrow> cbuf \<Rightarrow> bool" where
  "terminated cap b \<longleftrightarrow> (\<exists>j < cap. b j = NUL \<and> no_nul (written b j))"

text \<open>
  Where the pointer points in each state, and what the buffers hold: while a header name is read
  it is in the name buffer; while a value is read the name is there as a C string; before the
  first header the pointer is null.
\<close>

definition ptr_inv :: "parser \<Rightarrow> reply \<Rightarrow> bool" where
  "ptr_inv p r = (case p_state p of
     header_name \<Rightarrow> (\<exists>i. p_ptr p = Some (In_name i) \<and> i \<le> HEADER_SIZE \<and> no_nul (written (p_name p) i))
   | space_before_header_value \<Rightarrow>
       (\<exists>i. p_ptr p = Some (In_name i) \<and> i \<le> HEADER_SIZE \<and> no_nul (written (p_name p) i))
   | header_value \<Rightarrow> terminated HEADER_SIZE (p_name p) \<and>
       (\<exists>i. p_ptr p = Some (In_value i) \<and> i \<le> HEADER_SIZE \<and> no_nul (written (p_value p) i))
   | in_content \<Rightarrow> (\<exists>i. p_ptr p = Some (In_reply i) \<and> i \<le> MAX_REPLY_SIZE)
   | expecting_newline_4 \<Rightarrow> (\<exists>j < MAX_REPLY_SIZE. r_content r j = NUL)
   | header_line_start \<Rightarrow> r_headers r = [] \<longrightarrow> p_ptr p = None
   | expecting_newline_2 \<Rightarrow> r_headers r = [] \<longrightarrow> p_ptr p = None
   | expecting_newline_3 \<Rightarrow> True
   | content_start \<Rightarrow> True
   | _ \<Rightarrow> p_ptr p = None)"

definition status_inv :: "parser \<Rightarrow> reply \<Rightarrow> bool" where
  "status_inv p r \<longleftrightarrow> r_status r \<le> (case p_state p of status_1 \<Rightarrow> 900 | status_2 \<Rightarrow> 990 | _ \<Rightarrow> 999)"

definition header_ok :: "header \<Rightarrow> bool" where
  "header_ok h \<longleftrightarrow> no_nul (hname h) \<and> no_nul (hvalue h)
     \<and> length (hname h) < HEADER_SIZE \<and> length (hvalue h) < HEADER_SIZE"

definition parser_inv :: "parser \<Rightarrow> reply \<Rightarrow> bool" where
  "parser_inv p r \<longleftrightarrow> ptr_inv p r \<and> status_inv p r \<and> list_all header_ok (r_headers r)
     \<and> (r_finished r \<longrightarrow> (\<exists>j < MAX_REPLY_SIZE. r_content r j = NUL))"

lemma terminated_str:
  "terminated cap b \<Longrightarrow> \<exists>s. buf_str cap b 0 = Inr s \<and> no_nul s \<and> length s < cap"
  by (auto simp: terminated_def buf_str_written)

lemma terminated_put:
  "i < cap \<Longrightarrow> no_nul (written b i) \<Longrightarrow> terminated cap (b(i := NUL))"
  by (auto simp: terminated_def)

lemma some_nul_str:
  assumes "\<exists>j < cap. b j = NUL"
  shows "\<exists>s. buf_str cap b 0 = Inr s"
proof -
  define j where "j = (LEAST j. b j = NUL)"
  have "b j = NUL" and "j < cap" and "\<And>i. i < j \<Longrightarrow> b i \<noteq> NUL"
    using assms unfolding j_def
    by (auto intro: LeastI dest: not_less_Least intro: le_less_trans [OF Least_le])
  then show ?thesis using buf_str_prefix [of 0 j cap b] by auto
qed

lemma digit_value_le: "isDigit c \<Longrightarrow> digit_value c \<le> 9"
  by (auto simp: isDigit_def digit_value_def)

lemma schar_NUL: "schar NUL = 0"
  by (simp add: schar_def)

lemma control_not_nul: "\<not> isControl c \<Longrightarrow> c \<noteq> NUL"
  by (auto simp: isControl_def schar_NUL)

lemma parser_inv_reset [intro]: "parser_inv p r \<Longrightarrow> parser_inv (ham_parser_reset p) r"
  by (auto simp: parser_inv_def ham_parser_reset_def ptr_inv_def status_inv_def
      split: parser_state.splits)

lemma parser_inv_new:
  "parser_inv (the (ham_parser_new True junk)) (the (ham_reply_new True True bytes))"
  by (simp add: parser_inv_def ham_parser_new_def ham_parser_reset_def ham_reply_new_def
      ptr_inv_def status_inv_def)

lemmas consume_defs = ham_parser_consume_def at_header_line_start_def at_header_lws_def
  at_header_name_def at_space_def at_header_value_def at_content_start_def at_content_def
  at_newline_3_def push_ptr_def store_ptr_def buf_put_def rmap_def
lemmas parser_invs = parser_inv_def ptr_inv_def status_inv_def

text \<open>The end of a header line: the two buffers become a header of the reply.\<close>

lemma consume_header_end:
  assumes "p_state p = header_value" and "p_ptr p = Some (In_value i)" and "i < HEADER_SIZE"
    and "no_nul (written (p_value p) i)" and "terminated HEADER_SIZE (p_name p)"
  shows "\<exists>h. header_ok h \<and> hvalue h = written (p_value p) i
     \<and> buf_str HEADER_SIZE (p_name p) 0 = Inr (hname h)
     \<and> ham_parser_consume p r CR = Inr (True,
          p\<lparr>p_state := expecting_newline_2, p_value := (p_value p)(i := NUL)\<rparr>,
          r\<lparr>r_headers := r_headers r @ [h]\<rparr>)"
proof -
  obtain name where "buf_str HEADER_SIZE (p_name p) 0 = Inr name" "no_nul name"
    "length name < HEADER_SIZE"
    using terminated_str [OF assms(5)] by blast
  moreover have "buf_str HEADER_SIZE ((p_value p)(i := NUL)) 0 = Inr (written (p_value p) i)"
    using buf_str_written [of i HEADER_SIZE "(p_value p)(i := NUL)"] assms(3,4) by simp
  ultimately show ?thesis
    using assms
    by (intro exI [of _ "\<lparr>hname = name, hvalue = written (p_value p) i\<rparr>"])
      (simp add: consume_defs header_ok_def ham_reply_header_new_def ham_reply_add_header_def)
qed

lemma consume_inv:
  assumes inv: "parser_inv p r" and nf: "\<not> r_finished r"
    and step: "ham_parser_consume p r c = Inr (ok, p', r')"
  shows "parser_inv p' r'"
proof (cases "p_state p = header_value \<and> c = CR")
  case True
  obtain i where "p_ptr p = Some (In_value i)" "i \<le> HEADER_SIZE" "no_nul (written (p_value p) i)"
    "terminated HEADER_SIZE (p_name p)"
    using inv True by (auto simp: parser_invs)
  moreover from this True step have "i < HEADER_SIZE"
    by (auto simp: consume_defs split: if_splits)
  ultimately show ?thesis
    using consume_header_end [of p i r] True step inv nf by (auto simp: parser_invs)
next
  case False
  then show ?thesis
    using assms digit_value_le [of c]
    by (cases "p_state p")
      (auto simp: consume_defs parser_invs written_Suc control_not_nul ham_parser_reset_def
        terminated_put MAX_REPLY_SIZE_def split: if_splits option.splits)
qed

text \<open>
  What can go wrong in one step: a write at the end of the buffer the pointer is in, and the
  write through the null pointer in the state \<open>header_lws\<close>. No other fault is possible.
\<close>

definition at_capacity :: "parser \<Rightarrow> bool" where
  "at_capacity p \<longleftrightarrow> p_ptr p \<in> {Some (In_name HEADER_SIZE), Some (In_value HEADER_SIZE),
     Some (In_reply MAX_REPLY_SIZE)}"

lemma consume_faults:
  assumes inv: "parser_inv p r" and step: "ham_parser_consume p r c = Inl e"
  shows "e = Null_deref \<and> p_state p = header_lws \<or> e = Overflow \<and> at_capacity p"
proof (cases "p_state p = header_value \<and> c = CR")
  case True
  obtain i where i: "p_ptr p = Some (In_value i)" "i \<le> HEADER_SIZE" "no_nul (written (p_value p) i)"
    "terminated HEADER_SIZE (p_name p)"
    using inv True by (auto simp: parser_invs)
  show ?thesis
  proof (cases "i < HEADER_SIZE")
    case True
    with consume_header_end [of p i r] i \<open>p_state p = header_value \<and> c = CR\<close> step
    show ?thesis by auto
  next
    case False
    with i True step show ?thesis by (auto simp: consume_defs at_capacity_def)
  qed
next
  case False
  then show ?thesis
    using assms
    by (cases "p_state p")
      (auto simp: consume_defs parser_invs at_capacity_def HEADER_SIZE_def MAX_REPLY_SIZE_def
        split: if_splits option.splits)
qed

lemma parse_loop_inv:
  "parser_inv p r \<Longrightarrow> \<not> r_finished r \<Longrightarrow> parse_loop n p r cs = Inr (k, p', r') \<Longrightarrow> parser_inv p' r'"
proof (induction n p r cs rule: parse_loop.induct)
  case (1 n p r)
  then show ?case by simp
next
  case (2 n p r c cs)
  then obtain ok p1 r1 where step: "ham_parser_consume p r c = Inr (ok, p1, r1)"
    by (cases "ham_parser_consume p r c") auto
  from consume_inv [OF "2.prems"(1,2) step] have "parser_inv p1 r1" .
  with 2 step show ?case by (auto split: if_splits)
qed

subsection \<open>Runs of the machine\<close>

text \<open>\<open>consumes p r s p' r'\<close>: the bytes \<open>s\<close> are all accepted, and the loop goes on from \<open>p'\<close>, \<open>r'\<close>.\<close>

definition consumes :: "parser \<Rightarrow> reply \<Rightarrow> string \<Rightarrow> parser \<Rightarrow> reply \<Rightarrow> bool" where
  "consumes p r s p' r' \<longleftrightarrow>
     (\<forall>n t. parse_loop n p r (s @ t) = parse_loop (n + length s) p' r' t)"

lemma consumes_Nil [simp]: "consumes p r [] p r"
  by (simp add: consumes_def)

lemma consumes_append:
  "consumes p r s p1 r1 \<Longrightarrow> consumes p1 r1 t p2 r2 \<Longrightarrow> consumes p r (s @ t) p2 r2"
  by (simp add: consumes_def add.assoc)

lemma consumes_Cons:
  "ham_parser_consume p r c = Inr (True, p1, r1) \<Longrightarrow> \<not> r_finished r1 \<Longrightarrow> consumes p1 r1 s p2 r2
   \<Longrightarrow> consumes p r (c # s) p2 r2"
  by (simp add: consumes_def)

lemma consumes_parse: "consumes p r s p' r' \<Longrightarrow> parse_loop n p r s = Inr (n + length s, p', r')"
  unfolding consumes_def by (metis append_Nil2 parse_loop.simps(1))

lemma parse_loop_count:
  "parse_loop n p r cs = Inr (k, p', r') \<Longrightarrow> n \<le> k \<and> k \<le> n + length cs"
proof (induction n p r cs rule: parse_loop.induct)
  case (2 n p r c cs)
  then show ?case
    by (cases "ham_parser_consume p r c") (fastforce split: if_splits prod.splits)+
qed simp

text \<open>A parse that counts all its bytes has accepted them all, so it can be continued.\<close>

lemma parse_loop_all:
  assumes "parse_loop n p r cs = Inr (n + length cs, p', r')"
  shows "parse_loop n p r (cs @ t) = parse_loop (n + length cs) p' r' t"
  using assms
proof (induction n p r cs rule: parse_loop.induct)
  case (1 n p r)
  then show ?case by simp
next
  case (2 n p r c cs)
  then obtain ok p1 r1 where step: "ham_parser_consume p r c = Inr (ok, p1, r1)"
    by (cases "ham_parser_consume p r c") auto
  with 2 show ?case by (auto split: if_splits)
qed

lemma parse_loop_all_open:
  assumes "parse_loop n p r cs = Inr (n + length cs, p', r')" and "\<not> r_finished r"
  shows "\<not> r_finished r'"
  using assms
proof (induction n p r cs rule: parse_loop.induct)
  case (1 n p r)
  then show ?case by simp
next
  case (2 n p r c cs)
  then obtain ok p1 r1 where step: "ham_parser_consume p r c = Inr (ok, p1, r1)"
    by (cases "ham_parser_consume p r c") auto
  with 2 show ?case by (auto split: if_splits)
qed

lemma parse_loop_shift:
  "parse_loop (m + n) p r cs = rmap (\<lambda>(k, q). (m + k, q)) (parse_loop n p r cs)"
proof (induction n p r cs rule: parse_loop.induct)
  case (1 n p r)
  then show ?case by simp
next
  case (2 n p r c cs)
  show ?case
    using 2 by (cases "ham_parser_consume p r c") (auto simp: rmap_def)
qed

subsection \<open>Blocks of a reply\<close>

definition is_token_char :: "char \<Rightarrow> bool" where
  "is_token_char c \<longleftrightarrow> isChar c \<and> \<not> isControl c \<and> \<not> isSpecial c"

definition header_name_ok :: "string \<Rightarrow> bool" where
  "header_name_ok s \<longleftrightarrow> s \<noteq> [] \<and> list_all is_token_char s \<and> length s < HEADER_SIZE"

definition header_value_ok :: "string \<Rightarrow> bool" where
  "header_value_ok s \<longleftrightarrow> list_all (\<lambda>c. \<not> isControl c) s \<and> length s < HEADER_SIZE"

lemma separators_special:
  "isSpecial CHR '':''" "isSpecial SP" "isSpecial TAB"
  by (simp_all add: isSpecial_def)

lemma ends_control: "isControl CR" "isControl LF" "isControl NUL"
  by (simp_all add: isControl_def schar_def)

lemma token_not_special:
  "is_token_char c \<Longrightarrow> c \<noteq> CHR '':'' \<and> c \<noteq> CR \<and> c \<noteq> LF \<and> c \<noteq> SP \<and> c \<noteq> TAB \<and> c \<noteq> NUL"
  using separators_special ends_control by (auto simp: is_token_char_def)

lemma value_not_end: "\<not> isControl c \<Longrightarrow> c \<noteq> CR \<and> c \<noteq> LF \<and> c \<noteq> NUL"
  using ends_control by auto

lemma consumes_name:
  assumes "p_state p = header_name" and "p_ptr p = Some (In_name i)"
    and "list_all is_token_char s" and "i + length s \<le> HEADER_SIZE" and "\<not> r_finished r"
  shows "\<exists>b. consumes p r s (p\<lparr>p_name := b, p_ptr := Some (In_name (i + length s))\<rparr>) r
      \<and> written b (i + length s) = written (p_name p) i @ s"
  using assms
proof (induction s arbitrary: p i)
  case Nil
  then have "p\<lparr>p_name := p_name p, p_ptr := Some (In_name (i + length []))\<rparr> = p"
    by (cases p) simp
  then show ?case by (intro exI [of _ "p_name p"]) simp
next
  case (Cons c s)
  let ?p = "p\<lparr>p_name := (p_name p)(i := c), p_ptr := Some (In_name (Suc i))\<rparr>"
  have step: "ham_parser_consume p r c = Inr (True, ?p, r)"
    using Cons.prems token_not_special [of c]
    by (simp add: consume_defs is_token_char_def)
  have "p_state ?p = header_name" "p_ptr ?p = Some (In_name (Suc i))" "list_all is_token_char s"
    "Suc i + length s \<le> HEADER_SIZE"
    using Cons.prems by simp_all
  from Cons.IH [OF this Cons.prems(5)] obtain b where
    "consumes ?p r s (?p\<lparr>p_name := b, p_ptr := Some (In_name (Suc i + length s))\<rparr>) r"
    "written b (Suc i + length s) = written (p_name ?p) (Suc i) @ s" by blast
  with step Cons.prems(5) show ?case
    by (intro exI [of _ b]) (auto intro: consumes_Cons simp: written_Suc)
qed

lemma consumes_value:
  assumes "p_state p = header_value" and "p_ptr p = Some (In_value i)"
    and "list_all (\<lambda>c. \<not> isControl c) s" and "i + length s \<le> HEADER_SIZE" and "\<not> r_finished r"
  shows "\<exists>b. consumes p r s (p\<lparr>p_value := b, p_ptr := Some (In_value (i + length s))\<rparr>) r
      \<and> written b (i + length s) = written (p_value p) i @ s"
  using assms
proof (induction s arbitrary: p i)
  case Nil
  then have "p\<lparr>p_value := p_value p, p_ptr := Some (In_value (i + length []))\<rparr> = p"
    by (cases p) simp
  then show ?case by (intro exI [of _ "p_value p"]) simp
next
  case (Cons c s)
  let ?p = "p\<lparr>p_value := (p_value p)(i := c), p_ptr := Some (In_value (Suc i))\<rparr>"
  have step: "ham_parser_consume p r c = Inr (True, ?p, r)"
    using Cons.prems value_not_end [of c] by (simp add: consume_defs)
  have "p_state ?p = header_value" "p_ptr ?p = Some (In_value (Suc i))"
    "list_all (\<lambda>c. \<not> isControl c) s" "Suc i + length s \<le> HEADER_SIZE"
    using Cons.prems by simp_all
  from Cons.IH [OF this Cons.prems(5)] obtain b where
    "consumes ?p r s (?p\<lparr>p_value := b, p_ptr := Some (In_value (Suc i + length s))\<rparr>) r"
    "written b (Suc i + length s) = written (p_value ?p) (Suc i) @ s" by blast
  with step Cons.prems(5) show ?case
    by (intro exI [of _ b]) (auto intro: consumes_Cons simp: written_Suc)
qed

lemma consumes_status_text:
  assumes "p_state p = status_text" and "list_all (\<lambda>c. \<not> isDigit c \<and> c \<noteq> CR) s" and "\<not> r_finished r"
  shows "consumes p r s p r"
  using assms
proof (induction s)
  case (Cons c s)
  moreover have "ham_parser_consume p r c = Inr (True, p, r)"
    using Cons.prems by (simp add: consume_defs)
  ultimately show ?case by (auto intro: consumes_Cons)
qed simp

lemma consumes_http:
  assumes "p_state p = http_version_h" and "\<not> r_finished r"
  shows "consumes p r ''HTTP/'' (p\<lparr>p_state := http_version_major_start\<rparr>) r"
  using assms by (simp add: consumes_def consume_defs)

lemma isDigit_digits: "isDigit CHR ''0''" "isDigit CHR ''1''"
  by (simp_all add: isDigit_def schar_def)

lemma consumes_version:
  assumes "p_state p = http_version_major_start" and "\<not> r_finished r" and "isDigit a" and "isDigit b"
  shows "consumes p r [a, CHR ''.'', b, SP] (p\<lparr>p_state := status_start\<rparr>) r"
proof -
  have "b \<noteq> SP" using assms(4) by (auto simp: isDigit_def schar_def)
  with assms show ?thesis by (simp add: consumes_def consume_defs)
qed

lemma consumes_code:
  assumes "p_state p = status_start" and "\<not> r_finished r" and "isDigit a" and "isDigit b" and "isDigit c"
  shows "consumes p r [a, b, c] (p\<lparr>p_state := status_text\<rparr>)
     (r\<lparr>r_status := 100 * digit_value a + 10 * digit_value b + digit_value c\<rparr>)"
  using assms by (simp add: consumes_def consume_defs)

definition reason_ok :: "string \<Rightarrow> bool" where
  "reason_ok s \<longleftrightarrow> list_all (\<lambda>c. \<not> isDigit c \<and> c \<noteq> CR) s"

text \<open>A status line with the code given by its three digits.\<close>

definition status_line :: "char \<times> char \<Rightarrow> char \<times> char \<times> char \<Rightarrow> string \<Rightarrow> string" where
  "status_line = (\<lambda>(a, b) (x, y, z) reason.
     ''HTTP/'' @ [a, CHR ''.'', b, SP] @ [x, y, z] @ reason @ [CR, LF])"

definition code_ok :: "char \<times> char \<times> char \<Rightarrow> bool" where
  "code_ok = (\<lambda>(x, y, z). isDigit x \<and> isDigit y \<and> isDigit z)"

definition code_value :: "char \<times> char \<times> char \<Rightarrow> nat" where
  "code_value = (\<lambda>(x, y, z). 100 * digit_value x + 10 * digit_value y + digit_value z)"

lemma consumes_status_line:
  assumes "p_state p = http_version_h" and nf: "\<not> r_finished r"
    and "isDigit (fst v)" and "isDigit (snd v)" and "code_ok code" and "reason_ok reason"
  shows "consumes p r (status_line v code reason) (p\<lparr>p_state := header_line_start\<rparr>)
     (r\<lparr>r_status := code_value code\<rparr>)"
proof -
  obtain a b x y z where [simp]: "v = (a, b)" "code = (x, y, z)" by (cases v; cases code) auto
  let ?r = "r\<lparr>r_status := code_value code\<rparr>"
  have "consumes p r ''HTTP/'' (p\<lparr>p_state := http_version_major_start\<rparr>) r"
    using assms by (intro consumes_http)
  moreover have "consumes (p\<lparr>p_state := http_version_major_start\<rparr>) r [a, CHR ''.'', b, SP]
      (p\<lparr>p_state := status_start\<rparr>) r"
    using consumes_version [of "p\<lparr>p_state := http_version_major_start\<rparr>" r a b] assms by simp
  moreover have "consumes (p\<lparr>p_state := status_start\<rparr>) r [x, y, z] (p\<lparr>p_state := status_text\<rparr>) ?r"
    using consumes_code [of "p\<lparr>p_state := status_start\<rparr>" r x y z] assms
    by (simp add: code_ok_def code_value_def)
  moreover have "consumes (p\<lparr>p_state := status_text\<rparr>) ?r reason (p\<lparr>p_state := status_text\<rparr>) ?r"
    using assms by (intro consumes_status_text) (simp_all add: reason_ok_def)
  moreover have "\<not> isDigit CR" by (simp add: isDigit_def schar_def)
  then have "consumes (p\<lparr>p_state := status_text\<rparr>) ?r [CR, LF] (p\<lparr>p_state := header_line_start\<rparr>) ?r"
    using nf by (simp add: consumes_def consume_defs)
  ultimately have "consumes p r (''HTTP/'' @ ([a, CHR ''.'', b, SP] @ ([x, y, z] @ (reason @ [CR, LF]))))
      (p\<lparr>p_state := header_line_start\<rparr>) ?r"
    by (blast intro: consumes_append)
  then show ?thesis by (simp add: status_line_def)
qed

text \<open>One header line.\<close>

lemma consumes_header_line:
  assumes st: "p_state p = header_line_start" and nf: "\<not> r_finished r"
    and name: "header_name_ok name" and val: "header_value_ok v"
  shows "\<exists>p'. p_state p' = header_line_start
      \<and> consumes p r (name @ '': '' @ v @ [CR, LF]) p'
          (r\<lparr>r_headers := r_headers r @ [\<lparr>hname = name, hvalue = v\<rparr>]\<rparr>)"
proof -
  from name obtain c s where name_eq [simp]: "name = c # s" and c: "is_token_char c"
    and s: "list_all is_token_char s" and len: "length s + 1 < HEADER_SIZE"
    by (cases name) (auto simp: header_name_ok_def)
  have no_nul_name: "no_nul name"
    using name token_not_special by (auto simp: header_name_ok_def no_nul_def list_all_iff)
  let ?p1 = "p\<lparr>p_state := header_name, p_name := (p_name p)(0 := c), p_ptr := Some (In_name 1)\<rparr>"
  have step1: "ham_parser_consume p r c = Inr (True, ?p1, r)"
    using st c token_not_special [OF c] by (simp add: consume_defs is_token_char_def HEADER_SIZE_def)
  obtain b where run1: "consumes ?p1 r s (?p1\<lparr>p_name := b, p_ptr := Some (In_name (1 + length s))\<rparr>) r"
    and b: "written b (1 + length s) = [c] @ s"
    using consumes_name [of ?p1 1 s r] s len nf written_Suc [of "p_name p" 0 c] by auto
  let ?b = "b(1 + length s := NUL)"
  let ?p2 = "?p1\<lparr>p_state := header_value, p_name := ?b, p_ptr := Some (In_value 0)\<rparr>"
  have run2: "consumes (?p1\<lparr>p_name := b, p_ptr := Some (In_name (1 + length s))\<rparr>) r '': '' ?p2 r"
    using len nf by (simp add: consumes_def consume_defs)
  have name_str: "buf_str HEADER_SIZE ?b 0 = Inr name"
    using buf_str_written [of "1 + length s" HEADER_SIZE ?b] b len no_nul_name by simp
  have v: "list_all (\<lambda>c. \<not> isControl c) v" "length v < HEADER_SIZE"
    using val by (auto simp: header_value_ok_def)
  obtain d where run3: "consumes ?p2 r v (?p2\<lparr>p_value := d, p_ptr := Some (In_value (length v))\<rparr>) r"
    and d: "written d (length v) = v"
    using consumes_value [of ?p2 0 v r] v nf by auto
  have "no_nul v"
    using v control_not_nul by (auto simp: no_nul_def list_all_iff)
  then have val_str: "buf_str HEADER_SIZE (d(length v := NUL)) 0 = Inr v"
    using buf_str_written [of "length v" HEADER_SIZE "d(length v := NUL)"] d v by simp
  let ?p3 = "p\<lparr>p_name := ?b, p_ptr := Some (In_value (length v)), p_value := d(length v := NUL),
      p_state := header_line_start\<rparr>"
  have run4: "consumes (?p2\<lparr>p_value := d, p_ptr := Some (In_value (length v))\<rparr>) r [CR, LF] ?p3
      (r\<lparr>r_headers := r_headers r @ [\<lparr>hname = name, hvalue = v\<rparr>]\<rparr>)"
    using nf v name_str val_str
    by (simp add: consumes_def consume_defs ham_reply_header_new_def ham_reply_add_header_def)
  have "consumes p r ((c # s) @ ('': '' @ (v @ [CR, LF]))) ?p3
      (r\<lparr>r_headers := r_headers r @ [\<lparr>hname = name, hvalue = v\<rparr>]\<rparr>)"
    using consumes_append [OF consumes_Cons [OF step1 nf run1]
        consumes_append [OF run2 consumes_append [OF run3 run4]]] by simp
  then show ?thesis by (intro exI [of _ ?p3]) simp
qed

definition header_lines :: "header list \<Rightarrow> string" where
  "header_lines hs = concat (map print_header hs)"

definition headers_ok :: "header list \<Rightarrow> bool" where
  "headers_ok hs \<longleftrightarrow> list_all (\<lambda>h. header_name_ok (hname h) \<and> header_value_ok (hvalue h)) hs"

lemma consumes_header_lines:
  assumes "p_state p = header_line_start" and "\<not> r_finished r" and "headers_ok hs"
  shows "\<exists>p'. p_state p' = header_line_start
     \<and> consumes p r (header_lines hs) p' (r\<lparr>r_headers := r_headers r @ hs\<rparr>)"
  using assms
proof (induction hs arbitrary: p r)
  case Nil
  then show ?case by (intro exI [of _ p]) (simp add: header_lines_def)
next
  case (Cons h hs)
  let ?r = "r\<lparr>r_headers := r_headers r @ [h]\<rparr>"
  have "\<exists>p1. p_state p1 = header_line_start \<and> consumes p r (print_header h) p1 ?r"
    using consumes_header_line [of p r "hname h" "hvalue h"] Cons.prems
    by (cases h) (simp add: headers_ok_def print_header_def)
  then obtain p1 where p1: "p_state p1 = header_line_start" "consumes p r (print_header h) p1 ?r"
    by blast
  obtain p' where p': "p_state p' = header_line_start"
    "consumes p1 ?r (header_lines hs) p' (?r\<lparr>r_headers := r_headers ?r @ hs\<rparr>)"
    using Cons.IH [OF p1(1), of ?r] Cons.prems by (auto simp: headers_ok_def)
  show ?case
    using p' consumes_append [OF p1(2) p'(2)]
    by (intro exI [of _ p']) (simp add: header_lines_def)
qed

text \<open>The content: any bytes but CR, at most as many as leave room for the terminator.\<close>

lemma consumes_content:
  assumes "p_state p = in_content" and "p_ptr p = Some (In_reply i)"
    and "list_all (\<lambda>c. c \<noteq> CR) s" and "i + length s \<le> MAX_REPLY_SIZE" and "\<not> r_finished r"
  shows "\<exists>b. consumes p r s (p\<lparr>p_ptr := Some (In_reply (i + length s))\<rparr>) (r\<lparr>r_content := b\<rparr>)
      \<and> written b (i + length s) = written (r_content r) i @ s"
  using assms
proof (induction s arbitrary: p r i)
  case Nil
  then have "p\<lparr>p_ptr := Some (In_reply (i + length []))\<rparr> = p" by (cases p) simp
  then show ?case by (intro exI [of _ "r_content r"]) simp
next
  case (Cons c s)
  let ?p = "p\<lparr>p_ptr := Some (In_reply (Suc i))\<rparr>" and ?r = "r\<lparr>r_content := (r_content r)(i := c)\<rparr>"
  have step: "ham_parser_consume p r c = Inr (True, ?p, ?r)"
    using Cons.prems by (simp add: consume_defs)
  have "p_state ?p = in_content" "p_ptr ?p = Some (In_reply (Suc i))" "list_all (\<lambda>c. c \<noteq> CR) s"
    "Suc i + length s \<le> MAX_REPLY_SIZE" "\<not> r_finished ?r"
    using Cons.prems by simp_all
  from Cons.IH [OF this] obtain b where
    "consumes ?p ?r s (?p\<lparr>p_ptr := Some (In_reply (Suc i + length s))\<rparr>) (?r\<lparr>r_content := b\<rparr>)"
    "written b (Suc i + length s) = written (r_content ?r) (Suc i) @ s" by blast
  with step Cons.prems(5) show ?case
    by (intro exI [of _ b]) (auto intro: consumes_Cons simp: written_Suc)
qed

definition content_ok :: "string \<Rightarrow> bool" where
  "content_ok body \<longleftrightarrow> list_all (\<lambda>c. c \<noteq> CR \<and> c \<noteq> NUL) body \<and> length body < MAX_REPLY_SIZE"

text \<open>The headers announce a content: there is a \<open>Content-Length\<close> and it is not the string 0.\<close>

definition has_content :: "header list \<Rightarrow> bool" where
  "has_content hs \<longleftrightarrow> find_header hs ''Content-Length'' \<notin> {None, Some ''0''}"

text \<open>The end of the headers, without and with a content.\<close>

lemma parse_end_plain:
  assumes "p_state p = header_line_start" and "\<not> r_finished r" and "\<not> has_content (r_headers r)"
  shows "parse_loop n p r (CR # LF # rest) =
     Inr (n + 1, ham_parser_reset p, r\<lparr>r_content := (r_content r)(0 := NUL), r_finished := True\<rparr>)"
  using assms
  by (auto simp: consume_defs ham_parser_reset_def has_content_def ham_reply_get_header_def
      split: option.splits)

lemma parse_end_content:
  assumes st: "p_state p = header_line_start" and nf: "\<not> r_finished r"
    and hc: "has_content (r_headers r)" and ok: "content_ok body" and "body \<noteq> []"
  shows "\<exists>b p'. parse_loop n p r (CR # LF # body @ CR # LF # rest) =
      Inr (n + 2 + length body + 1, ham_parser_reset p', r\<lparr>r_content := b, r_finished := True\<rparr>)
    \<and> buf_str MAX_REPLY_SIZE b 0 = Inr body"
proof -
  from \<open>body \<noteq> []\<close> ok obtain c s where [simp]: "body = c # s" and "c \<noteq> CR"
    and s: "list_all (\<lambda>c. c \<noteq> CR) s" "Suc (length s) < MAX_REPLY_SIZE"
    by (cases body) (auto simp: content_ok_def list_all_iff)
  let ?p0 = "p\<lparr>p_state := content_start\<rparr>"
  let ?p1 = "p\<lparr>p_state := in_content, p_ptr := Some (In_reply 1)\<rparr>"
  let ?r1 = "r\<lparr>r_content := (r_content r)(0 := c)\<rparr>"
  have run1: "consumes p r [CR, LF] ?p0 r"
    using st nf hc
    by (auto simp: consumes_def consume_defs has_content_def ham_reply_get_header_def)
  have run2: "consumes ?p0 r [c] ?p1 ?r1"
    using nf \<open>c \<noteq> CR\<close> by (simp add: consumes_def consume_defs MAX_REPLY_SIZE_def)
  obtain b where run3: "consumes ?p1 ?r1 s (?p1\<lparr>p_ptr := Some (In_reply (1 + length s))\<rparr>)
      (?r1\<lparr>r_content := b\<rparr>)" and b: "written b (1 + length s) = [c] @ s"
    using consumes_content [of ?p1 1 s ?r1] s nf written_Suc [of "r_content r" 0 c] by auto
  let ?b = "b(1 + length s := NUL)"
  let ?p4 = "?p1\<lparr>p_ptr := Some (In_reply (1 + length s)), p_state := expecting_newline_4\<rparr>"
  have "consumes p r ([CR, LF] @ ([c] @ s)) (?p1\<lparr>p_ptr := Some (In_reply (1 + length s))\<rparr>)
      (?r1\<lparr>r_content := b\<rparr>)"
    by (rule consumes_append [OF run1 consumes_append [OF run2 run3]])
  then have "parse_loop n p r (([CR, LF] @ ([c] @ s)) @ (CR # LF # rest)) =
      parse_loop (n + length ([CR, LF] @ ([c] @ s)))
        (?p1\<lparr>p_ptr := Some (In_reply (1 + length s))\<rparr>)
        (?r1\<lparr>r_content := b\<rparr>) (CR # LF # rest)"
    unfolding consumes_def by blast
  also have "\<dots> = Inr (n + 4 + length s, ham_parser_reset ?p4,
      r\<lparr>r_content := ?b, r_finished := True\<rparr>)"
    using nf s by (simp add: consume_defs)
  finally have run: "parse_loop n p r (CR # LF # body @ CR # LF # rest) =
      Inr (n + 2 + length body + 1, ham_parser_reset ?p4, r\<lparr>r_content := ?b, r_finished := True\<rparr>)"
    by simp
  have "no_nul body"
    using ok by (auto simp: content_ok_def no_nul_def list_all_iff)
  then have "buf_str MAX_REPLY_SIZE ?b 0 = Inr body"
    using buf_str_written [of "1 + length s" MAX_REPLY_SIZE ?b] b s by simp
  with run show ?thesis by blast
qed

lemma consumes_gap:
  assumes "p_state p = http_version_h" and "list_all (\<lambda>c. c = CR \<or> c = LF) s" and "\<not> r_finished r"
  shows "consumes p r s p r"
  using assms
proof (induction s)
  case (Cons c s)
  moreover have "ham_parser_consume p r c = Inr (True, p, r)"
    using Cons.prems by (auto simp: consume_defs)
  ultimately show ?case by (auto intro: consumes_Cons)
qed simp

text \<open>The text of a reply: status line, header lines, an empty line and the content, if any.\<close>

definition reply_head ::
  "char \<times> char \<Rightarrow> char \<times> char \<times> char \<Rightarrow> string \<Rightarrow> header list \<Rightarrow> string" where
  "reply_head v code reason hs = status_line v code reason @ header_lines hs"

definition reply_text ::
  "char \<times> char \<Rightarrow> char \<times> char \<times> char \<Rightarrow> string \<Rightarrow> header list \<Rightarrow> string \<Rightarrow> string" where
  "reply_text v code reason hs body =
     reply_head v code reason hs @ [CR, LF] @ (if body = [] then [] else body @ [CR, LF])"

definition head_ok :: "char \<times> char \<Rightarrow> char \<times> char \<times> char \<Rightarrow> string \<Rightarrow> header list \<Rightarrow> bool" where
  "head_ok v code reason hs \<longleftrightarrow> isDigit (fst v) \<and> isDigit (snd v) \<and> code_ok code \<and> reason_ok reason
     \<and> headers_ok hs"

text \<open>The state in which a client waits for a reply: a new reply and the parser at its start.\<close>

definition fresh_reply :: "reply \<Rightarrow> bool" where
  "fresh_reply r \<longleftrightarrow> r_headers r = [] \<and> \<not> r_finished r"

lemma consumes_reply_head:
  assumes "p_state p = http_version_h" and "fresh_reply r" and "head_ok v code reason hs"
  shows "\<exists>p'. p_state p' = header_line_start
     \<and> consumes p r (reply_head v code reason hs) p' (r\<lparr>r_status := code_value code, r_headers := hs\<rparr>)"
proof -
  let ?p = "p\<lparr>p_state := header_line_start\<rparr>" and ?r = "r\<lparr>r_status := code_value code\<rparr>"
  have r: "\<not> r_finished r" "r_headers r = []" using assms by (simp_all add: fresh_reply_def)
  have run1: "consumes p r (status_line v code reason) ?p ?r"
    using assms r by (intro consumes_status_line) (simp_all add: head_ok_def)
  obtain p' where "p_state p' = header_line_start"
    "consumes ?p ?r (header_lines hs) p' (?r\<lparr>r_headers := r_headers ?r @ hs\<rparr>)"
    using consumes_header_lines [of ?p ?r hs] assms r by (auto simp: head_ok_def)
  then show ?thesis
    using consumes_append [OF run1] r by (intro exI [of _ p']) (simp add: reply_head_def)
qed

text \<open>A byte that faults after a run of accepted bytes.\<close>

lemma parse_fault:
  "consumes p r s p' r' \<Longrightarrow> ham_parser_consume p' r' c = Inl e \<Longrightarrow>
   ham_parser_parse p r (s @ c # t) = Inl e"
  by (simp add: ham_parser_parse_def consumes_def)

lemma parse_loop_fault:
  "parse_loop n p r cs = Inl e \<Longrightarrow> parser_inv p r \<Longrightarrow> \<not> r_finished r \<Longrightarrow>
   \<exists>pre c post p' r'. cs = pre @ c # post \<and> consumes p r pre p' r' \<and> parser_inv p' r'
     \<and> ham_parser_consume p' r' c = Inl e"
proof (induction n p r cs rule: parse_loop.induct)
  case (1 n p r)
  then show ?case by simp
next
  case (2 n p r c cs)
  show ?case
  proof (cases "ham_parser_consume p r c")
    case (Inl f)
    with 2 have "f = e" by simp
    with Inl "2.prems" show ?thesis
      by (intro exI [of _ "[]"] exI [of _ c] exI [of _ cs] exI [of _ p] exI [of _ r]) simp
  next
    case (Inr q)
    obtain ok p1 r1 where q: "q = (ok, p1, r1)" by (cases q)
    have ok: "ok" "\<not> r_finished r1"
      using 2 Inr q by (auto split: if_splits)
    have "parse_loop (Suc n) p1 r1 cs = Inl e" "parser_inv p1 r1"
      using 2 Inr q ok consume_inv [OF "2.prems"(2,3)] by simp_all
    then obtain pre d post p' r' where found: "cs = pre @ d # post" "consumes p1 r1 pre p' r'"
      "parser_inv p' r'" "ham_parser_consume p' r' d = Inl e"
      using "2.IH" [of ok r1 p1] ok by auto
    have "consumes p r (c # pre) p' r'"
      using Inr q ok found(2) by (intro consumes_Cons) simp_all
    with found show ?thesis by (metis append_Cons)
  qed
qed

definition parser0 :: parser where
  "parser0 = \<lparr>p_state = http_version_h, p_name = (\<lambda>_. NUL), p_value = (\<lambda>_. NUL), p_ptr = None\<rparr>"

definition reply0 :: reply where
  "reply0 = \<lparr>r_status = 0, r_content = (\<lambda>_. NUL), r_headers = [], r_finished = False\<rparr>"

lemma start0:
  "p_state parser0 = http_version_h" "fresh_reply reply0" "\<not> r_finished reply0"
  "parser_inv parser0 reply0"
  by (simp_all add: parser0_def reply0_def fresh_reply_def parser_invs)

lemmas sample_defs = parser0_def reply0_def fresh_reply_def head_ok_def code_ok_def code_value_def
  reason_ok_def headers_ok_def header_name_ok_def header_value_ok_def is_token_char_def isChar_def
  isControl_def isSpecial_def isDigit_def digit_value_def schar_def HEADER_SIZE_def content_ok_def
  has_content_def MAX_REPLY_SIZE_def

lemma parse_reply:
  assumes "p_state p = http_version_h" and "fresh_reply r" and "list_all (\<lambda>c. c = CR \<or> c = LF) gap"
    and "head_ok v code reason hs" and "content_ok body" and "has_content hs \<longleftrightarrow> body \<noteq> []"
  shows "\<exists>p' r'. ham_parser_parse p r (gap @ reply_text v code reason hs body @ rest) =
      Inr (length gap + length (reply_text v code reason hs body) - 1, ham_parser_reset p', r')
    \<and> ham_reply_is_finished r' \<and> ham_reply_get_status r' = code_value code \<and> r_headers r' = hs
    \<and> ham_reply_get_content r' = Inr body"
proof -
  let ?r = "r\<lparr>r_status := code_value code, r_headers := hs\<rparr>"
  have nf: "\<not> r_finished r" using assms by (simp add: fresh_reply_def)
  obtain q where q: "p_state q = header_line_start" "consumes p r (reply_head v code reason hs) q ?r"
    using consumes_reply_head [OF assms(1,2,4)] by blast
  note run = consumes_append [OF consumes_gap [OF assms(1,3) nf] q(2)]
  let ?n = "length gap + length (reply_head v code reason hs)"
  have start: "ham_parser_parse p r (gap @ reply_text v code reason hs body @ rest) =
      parse_loop ?n q ?r ([CR, LF] @ (if body = [] then [] else body @ [CR, LF]) @ rest)"
    using run by (simp add: ham_parser_parse_def consumes_def reply_text_def)
  show ?thesis
  proof (cases "body = []")
    case True
    have "buf_str MAX_REPLY_SIZE ((r_content r)(0 := NUL)) 0 = Inr []"
      by (subst buf_str.simps) (simp add: MAX_REPLY_SIZE_def)
    with True show ?thesis
      using start parse_end_plain [of q ?r ?n rest] q nf assms(6)
      by (intro exI) (auto simp: reply_text_def ham_reply_is_finished_def
          ham_reply_get_status_def ham_reply_get_content_def)
  next
    case False
    obtain b p' where "parse_loop ?n q ?r (CR # LF # body @ CR # LF # rest) =
        Inr (?n + 2 + length body + 1, ham_parser_reset p', ?r\<lparr>r_content := b, r_finished := True\<rparr>)"
      "buf_str MAX_REPLY_SIZE b 0 = Inr body"
      using parse_end_content [of q ?r body ?n rest] q nf assms(5,6) False by auto
    with False show ?thesis
      using start
      by (intro exI) (auto simp: reply_text_def ham_reply_is_finished_def
          ham_reply_get_status_def ham_reply_get_content_def)
  qed
qed

subsection \<open>The properties\<close>

text \<open>
  C12. A well-formed reply, given to a parser that waits for one (line ends left over from the
  reply before are skipped), is parsed to its end: the reply is finished, its status, headers
  and content are those written in the text, the parser is reset, and the value returned is one
  less than the number of bytes consumed, so that the last line feed is parsed again.
\<close>

theorem well_formed_reply_is_parsed:
  assumes "p_state p = http_version_h" and "fresh_reply r" and "list_all (\<lambda>c. c = CR \<or> c = LF) gap"
    and "head_ok v code reason hs" and "content_ok body" and "has_content hs \<longleftrightarrow> body \<noteq> []"
  shows "\<exists>p' r'. ham_parser_parse p r (gap @ reply_text v code reason hs body @ rest) =
      Inr (length gap + length (reply_text v code reason hs body) - 1, ham_parser_reset p', r')
    \<and> ham_reply_is_finished r' \<and> ham_reply_get_status r' = code_value code \<and> r_headers r' = hs
    \<and> ham_reply_get_content r' = Inr body"
  by (rule parse_reply [OF assms])

definition code200 :: "char \<times> char \<times> char" where
  "code200 = (CHR ''2'', CHR ''0'', CHR ''0'')"

definition http11 :: "char \<times> char" where
  "http11 = (CHR ''1'', CHR ''1'')"

definition length_header :: "string \<Rightarrow> header" where
  "length_header v = \<lparr>hname = ''Content-Length'', hvalue = v\<rparr>"

lemma sample_head:
  "head_ok http11 code200 '' OK'' [length_header ''2'']"
  "has_content [length_header ''2'']"
  by (simp_all add: sample_defs code200_def http11_def length_header_def)

theorem well_formed_reply_is_parsed_witness:
  "\<exists>p' r'. ham_parser_parse parser0 reply0
      ([LF] @ reply_text http11 code200 '' OK'' [length_header ''2''] ''ab'' @ [CHR ''H'']) =
      Inr (1 + length (reply_text http11 code200 '' OK'' [length_header ''2''] ''ab'') - 1,
        ham_parser_reset p', r')
    \<and> ham_reply_is_finished r' \<and> ham_reply_get_status r' = code_value code200
    \<and> r_headers r' = [length_header ''2''] \<and> ham_reply_get_content r' = Inr ''ab''"
  using well_formed_reply_is_parsed [of parser0 reply0 "[LF]" http11 code200 "'' OK''"
      "[length_header ''2'']" "''ab''" "[CHR ''H'']"] sample_head start0
  by (simp add: content_ok_def MAX_REPLY_SIZE_def)

text \<open>
  C25. The only faults of a parse are a write beyond the end of one of the three buffers and a
  write through the null pointer in the state \<open>header_lws\<close>. When a parse faults, the bytes before
  the faulting one have been accepted, and the parser is in that state or at that end.
\<close>

theorem parser_faults:
  assumes "parser_inv p r" and "\<not> r_finished r" and "ham_parser_parse p r bytes = Inl e"
  shows "\<exists>pre c post p' r'. bytes = pre @ c # post
    \<and> ham_parser_parse p r pre = Inr (length pre, p', r')
    \<and> (e = Null_deref \<and> p_state p' = header_lws \<or> e = Overflow \<and> at_capacity p')"
proof -
  obtain pre c post p' r' where "bytes = pre @ c # post" "consumes p r pre p' r'" "parser_inv p' r'"
    "ham_parser_consume p' r' c = Inl e"
    using parse_loop_fault [of 0 p r bytes e] assms by (auto simp: ham_parser_parse_def)
  then show ?thesis
    using consume_faults [of p' r' c e] consumes_parse [of p r pre p' r' 0]
    by (auto simp: ham_parser_parse_def)
qed

text \<open>
  A space or a tab at the beginning of the first header line makes the parser write through
  a null pointer at the next byte that is not a blank or a control character.
\<close>

theorem leading_blank_crashes_parser:
  assumes "p_state p = http_version_h" and "p_ptr p = None" and "fresh_reply r"
    and "head_ok v code reason []" and "blank = SP \<or> blank = TAB" and "\<not> isControl c" and "c \<noteq> SP"
  shows "ham_parser_parse p r (status_line v code reason @ blank # c # rest) = Inl Null_deref"
proof -
  let ?p = "p\<lparr>p_state := header_line_start\<rparr>" and ?r = "r\<lparr>r_status := code_value code\<rparr>"
  have nf: "\<not> r_finished r" and nh: "r_headers r = []" using assms by (simp_all add: fresh_reply_def)
  have "consumes p r (status_line v code reason) ?p ?r"
    using assms nf by (intro consumes_status_line) (simp_all add: head_ok_def)
  moreover have "consumes ?p ?r [blank] (p\<lparr>p_state := header_lws\<rparr>) ?r"
    using assms(5) nf nh by (auto simp: consumes_def consume_defs)
  ultimately have run: "consumes p r (status_line v code reason @ [blank]) (p\<lparr>p_state := header_lws\<rparr>) ?r"
    by (rule consumes_append)
  have "isControl TAB" by (simp add: isControl_def schar_def)
  then have "ham_parser_consume (p\<lparr>p_state := header_lws\<rparr>) ?r c = Inl Null_deref"
    using assms(2,6,7) value_not_end [of c] by (auto simp: consume_defs)
  from parse_fault [OF run this] show ?thesis by simp
qed

theorem leading_blank_crashes_parser_witness:
  "ham_parser_parse parser0 reply0 (status_line http11 code200 '' OK'' @ SP # CHR ''x'' # []) =
     Inl Null_deref"
  using leading_blank_crashes_parser [of parser0 reply0 http11 code200 "'' OK''" SP "CHR ''x''" "[]"]
  by (simp add: sample_defs code200_def http11_def)

theorem parser_faults_witness:
  "\<exists>bytes pre c post p' r'. bytes = pre @ c # post
    \<and> ham_parser_parse parser0 reply0 pre = Inr (length pre, p', r')
    \<and> ((Null_deref = Null_deref \<and> p_state p' = header_lws) \<or> Null_deref = Overflow \<and> at_capacity p')"
proof -
  let ?bytes = "''HTTP/1.1 200'' @ [CR, LF, SP] @ ''x''"
  have "ham_parser_parse parser0 reply0 ?bytes = Inl Null_deref"
    by (simp add: ham_parser_parse_def consume_defs sample_defs)
  from parser_faults [OF start0(4,3) this] show ?thesis by blast
qed

text \<open>
  The content of a reply is not limited: when the headers announce a content, its byte
  number 65535 that is not a carriage return is written beyond the end of the content buffer.
\<close>

theorem long_content_overflows:
  assumes "p_state p = http_version_h" and "fresh_reply r"
    and "head_ok v code reason hs" and "has_content hs"
    and "list_all (\<lambda>c. c \<noteq> CR) body" and "MAX_REPLY_SIZE < length body"
  shows "ham_parser_parse p r (reply_head v code reason hs @ [CR, LF] @ body) = Inl Overflow"
proof -
  define s where "s = take (MAX_REPLY_SIZE - 1) (tl body)"
  obtain c0 bs where body: "body = c0 # bs" using assms(6) by (cases body) auto
  obtain c1 t where bs: "bs = s @ c1 # t"
    using assms(6) body id_take_nth_drop [of "MAX_REPLY_SIZE - 1" bs]
    by (auto simp: s_def MAX_REPLY_SIZE_def)
  have len: "length s = MAX_REPLY_SIZE - 1" using assms(6) body by (simp add: s_def MAX_REPLY_SIZE_def)
  let ?r = "r\<lparr>r_status := code_value code, r_headers := hs\<rparr>"
  have nf: "\<not> r_finished r" using assms by (simp add: fresh_reply_def)
  obtain q where q: "p_state q = header_line_start" "consumes p r (reply_head v code reason hs) q ?r"
    using consumes_reply_head [OF assms(1-3)] by blast
  let ?p1 = "q\<lparr>p_state := in_content, p_ptr := Some (In_reply 1)\<rparr>"
  let ?r1 = "?r\<lparr>r_content := (r_content r)(0 := c0)\<rparr>"
  have run1: "consumes q ?r [CR, LF, c0] ?p1 ?r1"
    using q nf assms(4,5) body
    by (auto simp: consumes_def consume_defs has_content_def ham_reply_get_header_def
        MAX_REPLY_SIZE_def)
  obtain b where run2: "consumes ?p1 ?r1 s (?p1\<lparr>p_ptr := Some (In_reply (1 + length s))\<rparr>)
      (?r1\<lparr>r_content := b\<rparr>)"
    using consumes_content [of ?p1 1 s ?r1] assms(5) body bs len nf by (auto simp: MAX_REPLY_SIZE_def)
  have "ham_parser_consume (?p1\<lparr>p_ptr := Some (In_reply (1 + length s))\<rparr>) (?r1\<lparr>r_content := b\<rparr>) c1
      = Inl Overflow"
    using assms(5) body bs len by (simp add: consume_defs MAX_REPLY_SIZE_def)
  from parse_fault [OF consumes_append [OF q(2) consumes_append [OF run1 run2]] this]
  show ?thesis by (simp add: body bs)
qed

theorem long_content_overflows_witness:
  "ham_parser_parse parser0 reply0
     (reply_head http11 code200 '' OK'' [length_header ''2''] @ [CR, LF] @ replicate 65536 CHR ''a'')
   = Inl Overflow"
  using long_content_overflows [of parser0 reply0 http11 code200 "'' OK''" "[length_header ''2'']"
      "replicate 65536 CHR ''a''"] sample_head start0
  by (simp add: list_all_iff MAX_REPLY_SIZE_def)

lemma parse_inv:
  "parser_inv p r \<Longrightarrow> \<not> r_finished r \<Longrightarrow> ham_parser_parse p r bytes = Inr (k, p', r') \<Longrightarrow>
   parser_inv p' r'"
  unfolding ham_parser_parse_def by (rule parse_loop_inv)

lemma dump_of_inv:
  assumes "parser_inv p r" and "r_finished r"
  shows "\<exists>n text. ham_reply_get_dump r = Inr (n, text) \<and> length text + 1 \<le> n"
proof -
  obtain content where "ham_reply_get_content r = Inr content"
    using assms some_nul_str [of MAX_REPLY_SIZE "r_content r"]
    by (auto simp: parser_inv_def ham_reply_get_content_def)
  then obtain n out where dump: "ham_reply_get_dump r = Inr (n, out)"
    by (auto simp: ham_reply_get_dump_def rmap_def)
  have "r_status r \<le> 999"
    using assms by (auto simp: parser_inv_def status_inv_def split: parser_state.splits)
  then have "length (dec (r_status r)) \<le> 3"
    by (intro length_dec_le) simp_all
  with dump_slack [OF dump] dump show ?thesis by auto
qed

text \<open>
  From the state in which a parser and a reply are created, whatever bytes arrive: no more
  bytes are counted than given, every header in the reply is a pair of C strings shorter than 512
  bytes, the invariant holds again, and when the reply is finished its dump can be printed and
  fits, with its final NUL, the buffer computed for it.
\<close>

theorem parsed_reply_is_usable:
  assumes "parser_inv p r" and "\<not> r_finished r" and "ham_parser_parse p r bytes = Inr (k, p', r')"
  shows "k \<le> length bytes \<and> parser_inv p' r' \<and> list_all header_ok (r_headers r')
    \<and> (ham_reply_is_finished r' \<longrightarrow> k < length bytes
        \<and> (\<exists>n text. ham_reply_get_dump r' = Inr (n, text) \<and> length text + 1 \<le> n))"
proof -
  have inv: "parser_inv p' r'" by (rule parse_inv [OF assms])
  have le: "k \<le> length bytes"
    using parse_loop_count [of 0 p r bytes] assms(3) by (auto simp: ham_parser_parse_def)
  have "k < length bytes" if "r_finished r'"
  proof (rule ccontr)
    assume "\<not> k < length bytes"
    with le have "parse_loop 0 p r bytes = Inr (0 + length bytes, p', r')"
      using assms(3) by (simp add: ham_parser_parse_def)
    from parse_loop_all_open [OF this assms(2)] that show False by simp
  qed
  with inv le dump_of_inv [OF inv] show ?thesis
    by (auto simp: parser_inv_def ham_reply_is_finished_def)
qed

theorem parsed_reply_is_usable_witness:
  "\<exists>k p' r'. ham_parser_parse parser0 reply0 (''HTTP/1.1 200'' @ [CR, LF, CR, LF]) = Inr (k, p', r')
    \<and> ham_reply_is_finished r' \<and> k \<le> 16"
proof -
  have run: "ham_parser_parse parser0 reply0 (''HTTP/1.1 200'' @ [CR, LF, CR, LF]) =
      Inr (15, parser0, reply0\<lparr>r_status := 200, r_finished := True\<rparr>)"
    by (simp add: ham_parser_parse_def consume_defs sample_defs ham_parser_reset_def
        ham_reply_get_header_def fun_upd_def)
  from parsed_reply_is_usable [OF start0(4,3) run] run show ?thesis
    by (simp add: ham_reply_is_finished_def)
qed

text \<open>
  C26. A parse that counts all its bytes can be interrupted: parsing the bytes that follow from the
  state reached gives what parsing both pieces at once gives.
\<close>

theorem parse_in_pieces:
  assumes "ham_parser_parse p r a = Inr (length a, p', r')"
  shows "ham_parser_parse p r (a @ b) =
    rmap (\<lambda>(k, q). (length a + k, q)) (ham_parser_parse p' r' b)"
  using parse_loop_all [of 0 p r a p' r' b] parse_loop_shift [of "length a" 0 p' r' b] assms
  by (simp add: ham_parser_parse_def)

theorem parse_in_pieces_witness:
  "ham_parser_parse parser0 reply0 (''HT'' @ ''TP'') =
    rmap (\<lambda>(k, q). (2 + k, q)) (ham_parser_parse (parser0\<lparr>p_state := http_version_t_2\<rparr>) reply0 ''TP'')"
  using parse_in_pieces [of parser0 reply0 "''HT''" "parser0\<lparr>p_state := http_version_t_2\<rparr>" reply0 "''TP''"]
  by (simp add: ham_parser_parse_def consume_defs sample_defs)

end
