(* ===== verification/Csv.thy ===== *)
theory Csv
  imports Prelude
begin

text \<open>
  The client's CSV functions, the second half of \<open>library/parser.c\<close>.

  The lists of fields and of lines are HOL lists (\<open>ham_list_insert_last\<close> appends, as proved in
  the theory of the linked list). The field that is being read is a buffer of 65535 bytes on the
  stack, not initialised and written without a check: its first contents are the argument
  \<open>junk\<close> and a write beyond its end is a fault.

  \<open>csv_text\<close> is the format: fields separated by \<open>;\<close>, lines ended by a line feed, a field plain
  or between quotes with its quotes doubled. The lemmas show that the parser decodes it, and what
  the parser does with a last line that has no line end.
\<close>

definition FIELD_SIZE :: nat where
  "FIELD_SIZE = 65535"

record csv_state =
  csv_quotes :: bool
  csv_field :: cbuf
  csv_pos :: nat
  csv_line :: "string list"
  csv_tokens :: "string list list"

text \<open>\<open>*ptr++ = c\<close>.\<close>

definition csv_put :: "char \<Rightarrow> csv_state \<Rightarrow> csv_state result" where
  "csv_put c st = rmap (\<lambda>b. st\<lparr>csv_field := b, csv_pos := Suc (csv_pos st)\<rparr>)
     (buf_put FIELD_SIZE (csv_pos st) c (csv_field st))"

text \<open>The end of a field: terminate it, append a copy to the line, start the next one empty.\<close>

definition csv_end_field :: "csv_state \<Rightarrow> csv_state result" where
  "csv_end_field st =
     rbind (csv_put NUL st) (\<lambda>st1.
     rbind (buf_str FIELD_SIZE (csv_field st1) 0) (\<lambda>f.
       Inr (st1\<lparr>csv_line := csv_line st1 @ [f], csv_pos := 0,
         csv_field := (csv_field st1)(0 := NUL)\<rparr>)))"

definition csv_end_line :: "csv_state \<Rightarrow> csv_state result" where
  "csv_end_line st =
     rmap (\<lambda>st1. st1\<lparr>csv_tokens := csv_tokens st1 @ [csv_line st1], csv_line := []\<rparr>) (csv_end_field st)"

fun csv_loop :: "csv_state \<Rightarrow> string \<Rightarrow> csv_state result" where
  "csv_loop st [] = Inr st"
| "csv_loop st (c # cs) =
     (if \<not> csv_quotes st \<and> c = DQUOTE then csv_loop (st\<lparr>csv_quotes := True\<rparr>) cs
      else if csv_quotes st \<and> c = DQUOTE then
        (if cs \<noteq> [] \<and> hd cs = DQUOTE then rbind (csv_put c st) (\<lambda>st1. csv_loop st1 (tl cs))
         else csv_loop (st\<lparr>csv_quotes := False\<rparr>) cs)
      else if \<not> csv_quotes st \<and> c = CHR '';'' then rbind (csv_end_field st) (\<lambda>st1. csv_loop st1 cs)
      else if \<not> csv_quotes st \<and> (c = LF \<or> c = CR) then rbind (csv_end_line st) (\<lambda>st1. csv_loop st1 cs)
      else rbind (csv_put c st) (\<lambda>st1. csv_loop st1 cs))"

text \<open>
  \<open>strlen(field) != 0\<close> at the end reads the buffer as a C string: nothing terminates the field
  when the input ends.
\<close>

definition csv_finish :: "csv_state \<Rightarrow> string list list result" where
  "csv_finish st = rmap (\<lambda>f.
     if f \<noteq> [] then csv_tokens st @ [csv_line st @ [f]] else csv_tokens st)
     (buf_str FIELD_SIZE (csv_field st) 0)"

definition ham_csv_parse :: "cbuf \<Rightarrow> string \<Rightarrow> string list list result" where
  "ham_csv_parse junk s =
     rbind (csv_loop \<lparr>csv_quotes = False, csv_field = junk, csv_pos = 0, csv_line = [], csv_tokens = []\<rparr>
       (cstr s)) csv_finish"

text \<open>The size of the allocated buffer, and the text with its final NUL.\<close>

definition csv_size :: "string list list \<Rightarrow> nat" where
  "csv_size ls = sum_list (map (\<lambda>l. sum_list (map (\<lambda>f. length f + 1) l) + 1) ls) + 1"

definition csv_print :: "string list list \<Rightarrow> string" where
  "csv_print ls = concat (map (\<lambda>l. concat (map (\<lambda>f. f @ '';'') l) @ [LF]) ls)"

definition ham_csv_from_list :: "string list list \<Rightarrow> string result" where
  "ham_csv_from_list ls =
     (if length (csv_print ls @ [NUL]) \<le> csv_size ls then Inr (csv_print ls) else Inl Overflow)"

text \<open>
  The fields of the second table are appended to the lines of the first while both have lines.
\<close>

fun merge_lines :: "string list list \<Rightarrow> string list list \<Rightarrow> string list list" where
  "merge_lines (a # as) (b # bs) = (a @ b) # merge_lines as bs"
| "merge_lines as [] = as"
| "merge_lines [] bs = []"

definition ham_csv_merge :: "cbuf \<Rightarrow> cbuf \<Rightarrow> string \<Rightarrow> string \<Rightarrow> string result" where
  "ham_csv_merge junk1 junk2 first second =
     rbind (ham_csv_parse junk1 first) (\<lambda>as.
     rbind (ham_csv_parse junk2 second) (\<lambda>bs.
       ham_csv_from_list (merge_lines as bs)))"

subsection \<open>The format\<close>

text \<open>A field and whether it is quoted.\<close>

fun double_quotes :: "string \<Rightarrow> string" where
  "double_quotes [] = []"
| "double_quotes (c # s) = (if c = DQUOTE then [c, c] else [c]) @ double_quotes s"

definition field_text :: "string \<times> bool \<Rightarrow> string" where
  "field_text = (\<lambda>(f, quoted). if quoted then DQUOTE # double_quotes f @ [DQUOTE] else f)"

definition plain_char :: "char \<Rightarrow> bool" where
  "plain_char c \<longleftrightarrow> c \<noteq> DQUOTE \<and> c \<noteq> CHR '';'' \<and> c \<noteq> LF \<and> c \<noteq> CR"

definition field_ok :: "string \<times> bool \<Rightarrow> bool" where
  "field_ok = (\<lambda>(f, quoted). no_nul f \<and> length f < FIELD_SIZE \<and> (\<not> quoted \<longrightarrow> list_all plain_char f))"

fun line_text :: "(string \<times> bool) list \<Rightarrow> string" where
  "line_text [] = []"
| "line_text [f] = field_text f"
| "line_text (f # g # fs) = field_text f @ '';'' @ line_text (g # fs)"

definition csv_text :: "(string \<times> bool) list list \<Rightarrow> string" where
  "csv_text ls = concat (map (\<lambda>l. line_text l @ [LF]) ls)"

definition csv_ok :: "(string \<times> bool) list list \<Rightarrow> bool" where
  "csv_ok ls \<longleftrightarrow> list_all (\<lambda>l. l \<noteq> [] \<and> list_all field_ok l) ls"

subsection \<open>Runs of the loop\<close>

definition csv_runs :: "csv_state \<Rightarrow> string \<Rightarrow> csv_state \<Rightarrow> bool" where
  "csv_runs st s st' \<longleftrightarrow> (\<forall>t. csv_loop st (s @ t) = csv_loop st' t)"

lemma csv_runs_Nil [simp]: "csv_runs st [] st"
  by (simp add: csv_runs_def)

lemma csv_runs_append: "csv_runs st s st1 \<Longrightarrow> csv_runs st1 t st2 \<Longrightarrow> csv_runs st (s @ t) st2"
  by (simp add: csv_runs_def)

lemma csv_runs_loop: "csv_runs st s st' \<Longrightarrow> csv_loop st s = Inr st'"
  unfolding csv_runs_def by (metis append_Nil2 csv_loop.simps(1))

text \<open>\<open>filled st f\<close>: the field buffer holds \<open>f\<close> and the pointer is behind it.\<close>

definition filled :: "csv_state \<Rightarrow> string \<Rightarrow> bool" where
  "filled st f \<longleftrightarrow> csv_pos st = length f \<and> written (csv_field st) (length f) = f"

lemma csv_put_ok:
  assumes "filled st f" and "length f < FIELD_SIZE"
  shows "csv_put c st = Inr (st\<lparr>csv_field := (csv_field st)(length f := c), csv_pos := Suc (length f)\<rparr>)"
    and "filled (st\<lparr>csv_field := (csv_field st)(length f := c), csv_pos := Suc (length f)\<rparr>) (f @ [c])"
  using assms by (simp_all add: csv_put_def buf_put_def filled_def written_Suc)

definition same_lists :: "csv_state \<Rightarrow> csv_state \<Rightarrow> bool" where
  "same_lists st st' \<longleftrightarrow> csv_line st' = csv_line st \<and> csv_tokens st' = csv_tokens st"

lemma runs_plain:
  assumes "\<not> csv_quotes st" and "filled st f" and "list_all plain_char s"
    and "length f + length s \<le> FIELD_SIZE"
  shows "\<exists>st'. csv_runs st s st' \<and> \<not> csv_quotes st' \<and> filled st' (f @ s) \<and> same_lists st st'
     \<and> (\<forall>i \<ge> length f + length s. csv_field st' i = csv_field st i)"
  using assms
proof (induction s arbitrary: st f)
  case Nil
  then show ?case by (intro exI [of _ st]) (simp add: same_lists_def)
next
  case (Cons c s)
  let ?st = "st\<lparr>csv_field := (csv_field st)(length f := c), csv_pos := Suc (length f)\<rparr>"
  have put: "csv_put c st = Inr ?st" "filled ?st (f @ [c])"
    using csv_put_ok [of st f c] Cons.prems by simp_all
  obtain st' where "csv_runs ?st s st'" "\<not> csv_quotes st'" "filled st' ((f @ [c]) @ s)"
    "same_lists ?st st'" "\<forall>i \<ge> length (f @ [c]) + length s. csv_field st' i = csv_field ?st i"
    using Cons.IH [of ?st "f @ [c]"] put Cons.prems by auto
  with put Cons.prems show ?case
    by (intro exI [of _ st']) (simp add: csv_runs_def plain_char_def same_lists_def)
qed

lemma runs_quoted:
  assumes "csv_quotes st" and "filled st f" and "length f + length s \<le> FIELD_SIZE"
  shows "\<exists>st'. csv_runs st (double_quotes s) st' \<and> csv_quotes st' \<and> filled st' (f @ s)
     \<and> same_lists st st'"
  using assms
proof (induction s arbitrary: st f)
  case Nil
  then show ?case by (intro exI [of _ st]) (simp add: same_lists_def)
next
  case (Cons c s)
  let ?st = "st\<lparr>csv_field := (csv_field st)(length f := c), csv_pos := Suc (length f)\<rparr>"
  have put: "csv_put c st = Inr ?st" "filled ?st (f @ [c])"
    using csv_put_ok [of st f c] Cons.prems by simp_all
  obtain st' where "csv_runs ?st (double_quotes s) st'" "csv_quotes st'" "filled st' ((f @ [c]) @ s)"
    "same_lists ?st st'"
    using Cons.IH [of ?st "f @ [c]"] put Cons.prems by auto
  with put Cons.prems show ?case
    by (cases "c = DQUOTE"; intro exI [of _ st']) (simp_all add: csv_runs_def same_lists_def)
qed

text \<open>
  A field and the character after it: the closing quote needs that character not to be a quote.
\<close>

lemma runs_field:
  assumes "\<not> csv_quotes st" and "filled st []" and "field_ok g" and "d \<noteq> DQUOTE"
  shows "\<exists>st'. (\<forall>t. csv_loop st (field_text g @ d # t) = csv_loop st' (d # t))
     \<and> \<not> csv_quotes st' \<and> filled st' (fst g) \<and> same_lists st st'"
proof -
  obtain f q where g: "g = (f, q)" by (cases g)
  show ?thesis
  proof (cases q)
    case False
    with runs_plain [of st "[]" f] assms g show ?thesis
      by (auto simp: field_ok_def field_text_def csv_runs_def)
  next
    case True
    let ?st = "st\<lparr>csv_quotes := True\<rparr>"
    have "filled ?st []" using assms(2) by (simp add: filled_def)
    then obtain st' where st': "csv_runs ?st (double_quotes f) st'" "csv_quotes st'" "filled st' f"
      "same_lists ?st st'"
      using runs_quoted [of ?st "[]" f] assms g by (auto simp: field_ok_def)
    have "csv_loop st (field_text g @ d # t) = csv_loop (st'\<lparr>csv_quotes := False\<rparr>) (d # t)" for t
      using st'(1,2) True g assms(1,4) by (simp add: field_text_def csv_runs_def)
    with st' show ?thesis
      by (intro exI [of _ "st'\<lparr>csv_quotes := False\<rparr>"]) (simp add: filled_def same_lists_def g)
  qed
qed

lemma end_field_ok:
  assumes "filled st f" and "no_nul f" and "length f < FIELD_SIZE"
  shows "csv_end_field st = Inr (st\<lparr>csv_field := (csv_field st)(length f := NUL, 0 := NUL),
     csv_pos := 0, csv_line := csv_line st @ [f]\<rparr>)"
proof -
  have "buf_str FIELD_SIZE ((csv_field st)(length f := NUL)) 0 = Inr f"
    using buf_str_written [of "length f" FIELD_SIZE "(csv_field st)(length f := NUL)"] assms
    by (simp add: filled_def)
  with csv_put_ok(1) [OF assms(1,3), of NUL] show ?thesis
    by (simp add: csv_end_field_def)
qed

text \<open>Between two fields: nothing in the buffer, and its first byte is NUL.\<close>

definition at_field_start :: "csv_state \<Rightarrow> bool" where
  "at_field_start st \<longleftrightarrow> \<not> csv_quotes st \<and> filled st [] \<and> csv_field st 0 = NUL"

definition open_field :: "csv_state \<Rightarrow> bool" where
  "open_field st \<longleftrightarrow> \<not> csv_quotes st \<and> filled st []"

lemma runs_sep:
  assumes "open_field st" and "field_ok g"
  shows "\<exists>st'. csv_runs st (field_text g @ '';'') st' \<and> at_field_start st'
     \<and> csv_line st' = csv_line st @ [fst g] \<and> csv_tokens st' = csv_tokens st"
proof -
  obtain st1 where st1: "\<And>t. csv_loop st (field_text g @ CHR '';'' # t) = csv_loop st1 (CHR '';'' # t)"
    "\<not> csv_quotes st1" "filled st1 (fst g)" "same_lists st st1"
    using runs_field [of st g "CHR '';''"] assms by (auto simp: open_field_def)
  have "no_nul (fst g)" "length (fst g) < FIELD_SIZE" using assms by (auto simp: field_ok_def)
  then obtain st2 where st2: "csv_end_field st1 = Inr st2" "at_field_start st2"
    "csv_line st2 = csv_line st @ [fst g]" "csv_tokens st2 = csv_tokens st"
    using end_field_ok [OF st1(3)] st1(2,4)
    by (auto simp: at_field_start_def filled_def same_lists_def)
  with st1 show ?thesis by (intro exI [of _ st2]) (simp add: csv_runs_def)
qed

lemma runs_line_end:
  assumes "open_field st" and "field_ok g"
  shows "\<exists>st'. csv_runs st (field_text g @ [LF]) st' \<and> at_field_start st'
     \<and> csv_line st' = [] \<and> csv_tokens st' = csv_tokens st @ [csv_line st @ [fst g]]"
proof -
  obtain st1 where st1: "\<And>t. csv_loop st (field_text g @ LF # t) = csv_loop st1 (LF # t)"
    "\<not> csv_quotes st1" "filled st1 (fst g)" "same_lists st st1"
    using runs_field [of st g LF] assms by (auto simp: open_field_def)
  have "no_nul (fst g)" "length (fst g) < FIELD_SIZE" using assms by (auto simp: field_ok_def)
  then obtain st2 where st2: "csv_end_line st1 = Inr st2" "at_field_start st2" "csv_line st2 = []"
    "csv_tokens st2 = csv_tokens st @ [csv_line st @ [fst g]]"
    using end_field_ok [OF st1(3)] st1(2,4)
    by (auto simp: csv_end_line_def at_field_start_def filled_def same_lists_def)
  with st1 show ?thesis by (intro exI [of _ st2]) (simp add: csv_runs_def)
qed

lemma field_start_open: "at_field_start st \<Longrightarrow> open_field st"
  by (simp add: at_field_start_def open_field_def)

lemma runs_line:
  assumes "open_field st" and "l \<noteq> []" and "list_all field_ok l"
  shows "\<exists>st'. csv_runs st (line_text l @ [LF]) st' \<and> at_field_start st'
     \<and> csv_line st' = [] \<and> csv_tokens st' = csv_tokens st @ [csv_line st @ map fst l]"
  using assms
proof (induction l arbitrary: st rule: line_text.induct)
  case (2 f)
  then show ?case using runs_line_end [of st f] by simp
next
  case (3 f g fs)
  then obtain st1 where st1: "csv_runs st (field_text f @ '';'') st1" "at_field_start st1"
     "csv_line st1 = csv_line st @ [fst f]" "csv_tokens st1 = csv_tokens st"
    using runs_sep [of st f] by auto
  obtain st' where "csv_runs st1 (line_text (g # fs) @ [LF]) st'" "at_field_start st'"
     "csv_line st' = []" "csv_tokens st' = csv_tokens st1 @ [csv_line st1 @ map fst (g # fs)]"
    using "3.IH" [OF field_start_open [OF st1(2)]] "3.prems" by auto
  with st1 show ?case
    using csv_runs_append [of st "field_text f @ '';''" st1 "line_text (g # fs) @ [LF]" st']
    by (intro exI [of _ st']) simp
qed simp

lemma runs_text:
  assumes "open_field st" and "csv_ok ls" and "csv_line st = []"
  shows "\<exists>st'. csv_runs st (csv_text ls) st' \<and> (if ls = [] then st' = st else at_field_start st')
     \<and> csv_line st' = [] \<and> csv_tokens st' = csv_tokens st @ map (map fst) ls"
  using assms
proof (induction ls arbitrary: st)
  case Nil
  then show ?case by (intro exI [of _ st]) (simp add: csv_text_def)
next
  case (Cons l ls)
  then obtain st1 where st1: "csv_runs st (line_text l @ [LF]) st1" "at_field_start st1"
    "csv_line st1 = []" "csv_tokens st1 = csv_tokens st @ [map fst l]"
    using runs_line [of st l] by (auto simp: csv_ok_def)
  obtain st' where st': "csv_runs st1 (csv_text ls) st'"
    "if ls = [] then st' = st1 else at_field_start st'" "csv_line st' = []"
    "csv_tokens st' = csv_tokens st1 @ map (map fst) ls"
    using Cons.IH [OF field_start_open [OF st1(2)]] Cons.prems st1(3) by (auto simp: csv_ok_def)
  show ?case
    using csv_runs_append [OF st1(1) st'(1)] st1 st'
    by (intro exI [of _ st']) (auto simp: csv_text_def split: if_splits)
qed

abbreviation csv_start :: "cbuf \<Rightarrow> csv_state" where
  "csv_start junk \<equiv>
     \<lparr>csv_quotes = False, csv_field = junk, csv_pos = 0, csv_line = [], csv_tokens = []\<rparr>"

lemma open_start: "open_field (csv_start junk)"
  by (simp add: open_field_def filled_def)

lemma no_nul_double [simp]: "no_nul (double_quotes f) \<longleftrightarrow> no_nul f"
  by (induction f) (auto simp: no_nul_def)

lemma no_nul_field: "field_ok g \<Longrightarrow> no_nul (field_text g)"
  by (cases g) (auto simp: field_ok_def field_text_def)

lemma no_nul_line: "list_all field_ok l \<Longrightarrow> no_nul (line_text l)"
  by (induction l rule: line_text.induct) (simp_all add: no_nul_field)

lemma no_nul_text: "csv_ok ls \<Longrightarrow> no_nul (csv_text ls)"
  by (induction ls) (auto simp: csv_ok_def csv_text_def no_nul_line)

lemma finish_at_start: "at_field_start st \<Longrightarrow> csv_finish st = Inr (csv_tokens st)"
  by (simp add: csv_finish_def at_field_start_def buf_str_empty FIELD_SIZE_def)

lemma parse_text:
  assumes "csv_ok ls" and "ls \<noteq> []"
  shows "ham_csv_parse junk (csv_text ls) = Inr (map (map fst) ls)"
proof -
  obtain st' where "csv_runs (csv_start junk) (csv_text ls) st'" "at_field_start st'"
    "csv_tokens st' = map (map fst) ls"
    using runs_text [OF open_start assms(1), of junk] assms(2) by auto
  then show ?thesis
    using csv_runs_loop no_nul_text [OF assms(1)] finish_at_start by (simp add: ham_csv_parse_def)
qed

text \<open>What \<open>ham_csv_from_list\<close> prints is the format with one more empty field in each line.\<close>

definition trailing :: "string list \<Rightarrow> (string \<times> bool) list" where
  "trailing l = map (\<lambda>f. (f, False)) l @ [([], False)]"

lemma line_text_trailing: "line_text (trailing l) = concat (map (\<lambda>f. f @ '';'') l)"
proof (induction l)
  case (Cons f l)
  moreover obtain g gs where "trailing l = g # gs" by (cases "trailing l") (auto simp: trailing_def)
  moreover have "trailing (f # l) = (f, False) # trailing l" by (simp add: trailing_def)
  ultimately show ?case by (simp add: field_text_def)
qed (simp add: trailing_def field_text_def)

lemma csv_print_text: "csv_print ls = csv_text (map trailing ls)"
  by (induction ls) (simp_all add: csv_print_def csv_text_def line_text_trailing)

lemma map_fst_trailing [simp]: "map fst (trailing l) = l @ [[]]"
  by (simp add: trailing_def comp_def)

lemma csv_size_exact: "length (csv_print ls @ [NUL]) = csv_size ls"
proof -
  have "length (concat (map (\<lambda>f. f @ '';'') l)) = sum_list (map (\<lambda>f. length f + 1) l)"
    for l :: "string list" by (induction l) simp_all
  then show ?thesis
    by (induction ls) (simp_all add: csv_print_def csv_size_def)
qed

definition plain_table :: "string list list \<Rightarrow> bool" where
  "plain_table ls \<longleftrightarrow> list_all (list_all (\<lambda>f. field_ok (f, False))) ls"

lemma csv_ok_trailing: "plain_table ls \<Longrightarrow> csv_ok (map trailing ls)"
  by (auto simp: plain_table_def csv_ok_def trailing_def list_all_iff field_ok_def FIELD_SIZE_def)

text \<open>The number of lines and the lines of a merged table.\<close>

lemma length_merge_lines: "length (merge_lines as bs) = length as"
  by (induction as bs rule: merge_lines.induct) simp_all

lemma nth_merge_lines:
  "i < length as \<Longrightarrow> merge_lines as bs ! i = (if i < length bs then as ! i @ bs ! i else as ! i)"
  by (induction as bs arbitrary: i rule: merge_lines.induct) (auto simp: nth_Cons split: nat.splits)

lemma plain_merge:
  "plain_table as \<Longrightarrow> plain_table bs \<Longrightarrow> plain_table (merge_lines as bs)"
  by (induction as bs rule: merge_lines.induct) (auto simp: plain_table_def)

subsection \<open>A last line without a line end\<close>

text \<open>After a field and its separator, the bytes of the field are still in the buffer.\<close>

lemma runs_sep_tail:
  assumes "open_field st" and "field_ok g"
  shows "\<exists>st'. csv_runs st (field_text g @ '';'') st' \<and> at_field_start st'
     \<and> csv_line st' = csv_line st @ [fst g] \<and> csv_tokens st' = csv_tokens st
     \<and> csv_field st' (length (fst g)) = NUL
     \<and> (\<forall>i. 0 < i \<longrightarrow> i < length (fst g) \<longrightarrow> csv_field st' i = fst g ! i)"
proof -
  obtain st1 where st1: "\<And>t. csv_loop st (field_text g @ CHR '';'' # t) = csv_loop st1 (CHR '';'' # t)"
    "\<not> csv_quotes st1" "filled st1 (fst g)" "same_lists st st1"
    using runs_field [of st g "CHR '';''"] assms by (auto simp: open_field_def)
  have "no_nul (fst g)" "length (fst g) < FIELD_SIZE" using assms by (auto simp: field_ok_def)
  note ends = end_field_ok [OF st1(3) this]
  have "csv_field st1 i = fst g ! i" if "i < length (fst g)" for i
    using st1(3) that nth_map [of i "[0..<length (fst g)]" "csv_field st1"]
    by (auto simp: filled_def written_def)
  with st1(2,4) ends obtain st2 where "csv_end_field st1 = Inr st2" "at_field_start st2"
    "csv_line st2 = csv_line st @ [fst g]" "csv_tokens st2 = csv_tokens st"
    "csv_field st2 (length (fst g)) = NUL"
    "\<forall>i. 0 < i \<longrightarrow> i < length (fst g) \<longrightarrow> csv_field st2 i = fst g ! i"
    by (auto simp: at_field_start_def filled_def same_lists_def)
  with st1(1,2) show ?thesis by (intro exI [of _ st2]) (simp add: csv_runs_def)
qed

text \<open>A plain field shorter than what the buffer still holds ends with the rest of it.\<close>

lemma finish_with_tail:
  assumes "filled st f" and "f \<noteq> []" and "no_nul (f @ drop (length f) g)" and "length f < length g"
    and "length g < FIELD_SIZE" and "csv_field st (length g) = NUL"
    and "\<forall>i. length f \<le> i \<longrightarrow> i < length g \<longrightarrow> csv_field st i = g ! i"
  shows "csv_finish st = Inr (csv_tokens st @ [csv_line st @ [f @ drop (length f) g]])"
proof -
  have "written (csv_field st) (length g) = f @ drop (length f) g"
  proof (rule nth_equalityI)
    fix i assume "i < length (written (csv_field st) (length g))"
    moreover have "csv_field st i = f ! i" if "i < length f" for i
      using assms(1) that nth_map [of i "[0..<length f]" "csv_field st"]
      by (auto simp: filled_def written_def)
    ultimately show "written (csv_field st) (length g) ! i = (f @ drop (length f) g) ! i"
      using assms(4,7) by (auto simp: written_def nth_append)
  qed (use assms(4) in simp)
  then have "buf_str FIELD_SIZE (csv_field st) 0 = Inr (f @ drop (length f) g)"
    using buf_str_written [of "length g" FIELD_SIZE "csv_field st"] assms by simp
  then show ?thesis using assms(2) by (simp add: csv_finish_def)
qed

lemma runs_text_open:
  assumes "csv_ok ls"
  shows "\<exists>st'. csv_runs (csv_start junk) (csv_text ls) st' \<and> open_field st' \<and> csv_line st' = []
     \<and> csv_tokens st' = map (map fst) ls"
  using runs_text [OF open_start assms, of junk] open_start [of junk] field_start_open
  by (auto split: if_splits)

text \<open>Fields that are all followed by a separator.\<close>

definition seps_text :: "(string \<times> bool) list \<Rightarrow> string" where
  "seps_text l = concat (map (\<lambda>g. field_text g @ '';'') l)"

lemma runs_seps:
  assumes "open_field st" and "list_all field_ok l"
  shows "\<exists>st'. csv_runs st (seps_text l) st' \<and> open_field st'
     \<and> csv_line st' = csv_line st @ map fst l \<and> csv_tokens st' = csv_tokens st"
  using assms
proof (induction l arbitrary: st)
  case Nil
  then show ?case by (intro exI [of _ st]) (simp add: seps_text_def)
next
  case (Cons g l)
  then obtain st1 where st1: "csv_runs st (field_text g @ '';'') st1" "at_field_start st1"
    "csv_line st1 = csv_line st @ [fst g]" "csv_tokens st1 = csv_tokens st"
    using runs_sep [of st g] by auto
  obtain st' where "csv_runs st1 (seps_text l) st'" "open_field st'"
    "csv_line st' = csv_line st1 @ map fst l" "csv_tokens st' = csv_tokens st1"
    using Cons.IH [OF field_start_open [OF st1(2)]] Cons.prems by auto
  with csv_runs_append [OF st1(1)] st1 show ?case
    by (intro exI [of _ st']) (simp add: seps_text_def)
qed

lemma no_nul_seps: "list_all field_ok l \<Longrightarrow> no_nul (seps_text l)"
  by (induction l) (simp_all add: seps_text_def no_nul_field)

lemma parse_unterminated:
  assumes "csv_ok ls" and "list_all field_ok (l @ [g])" and "field_ok (f, False)"
    and "f = [] \<or> length f < length (fst g)"
  shows "ham_csv_parse junk (csv_text ls @ seps_text (l @ [g]) @ f) =
     Inr (map (map fst) ls
       @ (if f = [] then [] else [map fst l @ [fst g, f @ drop (length f) (fst g)]]))"
proof -
  let ?g = "fst g"
  have ok: "no_nul ?g" "length ?g < FIELD_SIZE" "no_nul f" "list_all plain_char f"
    "length f < FIELD_SIZE" "field_ok g" "list_all field_ok l"
    using assms(2,3) by (auto simp: field_ok_def)
  obtain st0 where st0: "csv_runs (csv_start junk) (csv_text ls) st0" "open_field st0"
    "csv_line st0 = []" "csv_tokens st0 = map (map fst) ls"
    using runs_text_open [OF assms(1)] by blast
  obtain st1 where st1: "csv_runs st0 (seps_text l) st1" "open_field st1"
    "csv_line st1 = map fst l" "csv_tokens st1 = map (map fst) ls"
    using runs_seps [OF st0(2) ok(7)] st0(3,4) by auto
  obtain st2 where st2: "csv_runs st1 (field_text g @ '';'') st2" "at_field_start st2"
    "csv_line st2 = csv_line st1 @ [?g]" "csv_tokens st2 = csv_tokens st1"
    "csv_field st2 (length ?g) = NUL" "\<forall>i. 0 < i \<longrightarrow> i < length ?g \<longrightarrow> csv_field st2 i = ?g ! i"
    using runs_sep_tail [OF st1(2) ok(6)] by blast
  obtain st3 where st3: "csv_runs st2 f st3" "filled st3 f" "same_lists st2 st3"
    "\<forall>i \<ge> length f. csv_field st3 i = csv_field st2 i"
    using runs_plain [of st2 "[]" f] st2(2) ok by (auto simp: at_field_start_def)
  let ?s = "csv_text ls @ seps_text (l @ [g]) @ f"
  have no_nul: "no_nul ?s"
    using no_nul_text [OF assms(1)] no_nul_seps [OF assms(2)] ok by simp
  have run: "csv_loop (csv_start junk) ?s = Inr st3"
    using csv_runs_loop [OF csv_runs_append [OF st0(1) csv_runs_append [OF st1(1)
            csv_runs_append [OF st2(1) st3(1)]]]] by (simp add: seps_text_def)
  have "csv_finish st3 = Inr (map (map fst) ls
      @ (if f = [] then [] else [map fst l @ [?g, f @ drop (length f) ?g]]))"
  proof (cases "f = []")
    case True
    then have "csv_field st3 0 = NUL" using st2(2) st3(4) by (simp add: at_field_start_def)
    with True st1 st2 st3 show ?thesis
      by (simp add: csv_finish_def buf_str_empty FIELD_SIZE_def same_lists_def)
  next
    case False
    have "no_nul (drop (length f) ?g)" using ok(1) by (auto simp: no_nul_def dest: in_set_dropD)
    moreover have "\<forall>i. length f \<le> i \<longrightarrow> i < length ?g \<longrightarrow> csv_field st3 i = ?g ! i"
      using st2(6) st3(4) False by (metis length_greater_0_conv less_le_trans)
    moreover have "csv_field st3 (length ?g) = NUL" using st2(5) st3(4) assms(4) False by auto
    ultimately have "csv_finish st3 = Inr (csv_tokens st3 @ [csv_line st3 @ [f @ drop (length f) ?g]])"
      using finish_with_tail [of st3 f ?g] st3(2) ok False assms(4) by simp
    with False st1 st2 st3 show ?thesis by (simp add: same_lists_def)
  qed
  with run no_nul show ?thesis by (simp add: ham_csv_parse_def)
qed

subsection \<open>The properties\<close>

text \<open>
  C18. The parser decodes the format: from the text of a table with at least one line, whose fields
  are plain or quoted and shorter than the field buffer, it recovers the fields, quotes and
  separators within quoted fields included, whatever the buffer held before.
\<close>

theorem csv_parse_decodes:
  assumes "csv_ok ls" and "ls \<noteq> []"
  shows "ham_csv_parse junk (csv_text ls) = Inr (map (map fst) ls)"
  by (rule parse_text [OF assms])

theorem csv_parse_decodes_witness:
  "ham_csv_parse (\<lambda>_. CHR ''x'')
     (csv_text [[(''a'', False), (''b;'' @ [DQUOTE], True)], [([], False)]]) =
   Inr [[''a'', ''b;'' @ [DQUOTE]], [[]]]"
  using csv_parse_decodes [of "[[(''a'', False), (''b;'' @ [DQUOTE], True)], [([], False)]]"]
  by (simp add: csv_ok_def field_ok_def plain_char_def FIELD_SIZE_def)

text \<open>
  \<open>ham_csv_from_list\<close> allocates exactly the bytes it writes, and reading its text back gives
  the table with an empty field added to every line, because each field is followed by a separator.
\<close>

theorem csv_print_parse:
  assumes "plain_table ls" and "ls \<noteq> []"
  shows "ham_csv_from_list ls = Inr (csv_print ls) \<and> length (csv_print ls) + 1 = csv_size ls
    \<and> ham_csv_parse junk (csv_print ls) = Inr (map (\<lambda>l. l @ [[]]) ls)"
  using parse_text [OF csv_ok_trailing [OF assms(1)], of junk] assms(2) csv_size_exact [of ls]
  by (simp add: ham_csv_from_list_def csv_print_text comp_def)

theorem csv_print_parse_witness:
  "ham_csv_parse (\<lambda>_. NUL) (csv_print [[''lon'', ''tz''], [''1'', ''2'']]) =
     Inr [[''lon'', ''tz'', []], [''1'', ''2'', []]]"
  using csv_print_parse [of "[[''lon'', ''tz''], [''1'', ''2'']]" "\<lambda>_. NUL"]
  by (simp add: plain_table_def field_ok_def plain_char_def FIELD_SIZE_def)

text \<open>
  Merging the texts of two tables prints, for each line of the first, its fields followed by
  those of the line of the second with the same number, if there is one; lines of the second beyond
  the end of the first are dropped.
\<close>

theorem csv_merge_lines:
  assumes "csv_ok as" and "as \<noteq> []" and "csv_ok bs" and "bs \<noteq> []"
  shows "\<exists>m. ham_csv_merge junk1 junk2 (csv_text as) (csv_text bs) = Inr (csv_print m)
    \<and> length m = length as
    \<and> (\<forall>i < length as. m ! i = map fst (as ! i) @ (if i < length bs then map fst (bs ! i) else []))"
  using parse_text [OF assms(1,2), of junk1] parse_text [OF assms(3,4), of junk2]
    csv_size_exact [of "merge_lines (map (map fst) as) (map (map fst) bs)"]
  by (intro exI [of _ "merge_lines (map (map fst) as) (map (map fst) bs)"])
    (simp add: ham_csv_merge_def ham_csv_from_list_def length_merge_lines nth_merge_lines)

theorem csv_merge_lines_witness:
  "\<exists>m. ham_csv_merge (\<lambda>_. NUL) (\<lambda>_. NUL) (csv_text [[(''a'', False)], [(''b'', False)]])
      (csv_text [[(''c'', True)]]) = Inr (csv_print m)
    \<and> length m = 2 \<and> m ! 0 = [''a'', ''c''] \<and> m ! 1 = [''b'']"
  using csv_merge_lines [of "[[(''a'', False)], [(''b'', False)]]" "[[(''c'', True)]]"
      "\<lambda>_. NUL" "\<lambda>_. NUL"]
  by (simp add: csv_ok_def field_ok_def plain_char_def FIELD_SIZE_def less_Suc_eq all_conj_distrib)
    fastforce

text \<open>
  A last line that has no line end: its last field \<open>f\<close>, when it is shorter than the field before
  it, comes back with the end of that field appended, because the buffer is not terminated when the
  input ends; and when it is empty the whole line is dropped.
\<close>

theorem csv_unterminated_line:
  assumes "csv_ok ls" and "list_all field_ok (l @ [g])" and "field_ok (f, False)"
    and "f = [] \<or> length f < length (fst g)"
  shows "ham_csv_parse junk (csv_text ls @ seps_text (l @ [g]) @ f) =
     Inr (map (map fst) ls
       @ (if f = [] then [] else [map fst l @ [fst g, f @ drop (length f) (fst g)]]))"
  by (rule parse_unterminated [OF assms])

theorem csv_unterminated_line_witness:
  "ham_csv_parse (\<lambda>_. CHR ''x'') (csv_text [] @ seps_text ([] @ [(''-14.47'', False)]) @ ''-1'') =
     Inr [[''-14.47'', ''-14.47'']]"
  using csv_unterminated_line [of "[]" "[]" "(''-14.47'', False)" "''-1''" "\<lambda>_. CHR ''x''"]
  by (simp add: csv_ok_def field_ok_def plain_char_def FIELD_SIZE_def)

end
