(* ===== verification/Connection.thy ===== *)
theory Connection
  imports HashTable HttpParser Csv
begin

text \<open>
  The client's connection: \<open>library/connection.c\<close>.

  What happens outside the library is recorded in a trace of events: signals emitted, reply handlers
  called, bytes written to the socket, descriptors closed, inputs added and removed. The code that
  runs when a signal is emitted or a handler of the client is called is the argument \<open>react\<close>, which
  may change the connection (a handler usually sends the next request); it must not destroy it.
  What the system calls return are arguments too: \<open>recv\<close> for \<open>read\<close>, and \<open>net\<close> for the calls of
  \<open>ham_connection_connect\<close>.

  The pending handlers are a sequence (the linked list implements it). \<open>junk\<close> gives the bytes of
  fresh memory: for the reply allocated after the byte with a number, and for the field buffer of
  the CSV parser.
\<close>

record ham_module =
  m_uri :: "string option"
  m_name :: "string option"
  m_desc :: "string option"
  m_need_auth :: bool
  m_type :: int
  m_data :: "string option"

datatype 'h reply_handler = Connect_response | Client_handler 'h

datatype ('h, 'u) event =
    Emitted string string int
  | Called 'h reply 'u
  | Wrote int string
  | Closed int
  | Input_added int
  | Input_removed

record ('h, 'u) connection =
  c_fd :: int
  c_input :: bool
  c_hostname :: string
  c_port :: int
  c_username :: string
  c_password :: string
  c_reply :: reply
  c_parser :: parser
  c_handlers :: "('h reply_handler option \<times> 'u) list"
  c_modules :: "(ham_module, unit) hash_table"
  c_events :: "('h, 'u) event list"

type_synonym ('h, 'u) reaction = "('h, 'u) event \<Rightarrow> ('h, 'u) connection \<Rightarrow> ('h, 'u) connection"

datatype recv = Recv string | Recv_error

record net =
  n_resolved :: bool
  n_socket :: int
  n_connected :: bool
  n_input :: bool
  n_error :: string

definition READ_SIZE :: nat where
  "READ_SIZE = 65535"

definition log_event :: "('h, 'u) event \<Rightarrow> ('h, 'u) connection \<Rightarrow> ('h, 'u) connection" where
  "log_event e c = c\<lparr>c_events := c_events c @ [e]\<rparr>"

text \<open>An event the client's code reacts to.\<close>

definition happen :: "('h, 'u) reaction \<Rightarrow> ('h, 'u) event \<Rightarrow> ('h, 'u) connection \<Rightarrow> ('h, 'u) connection" where
  "happen react e c = react e (log_event e c)"

definition ham_connection_new ::
  "bool \<Rightarrow> bool \<Rightarrow> cbuf \<Rightarrow> parser \<Rightarrow> string \<Rightarrow> int \<Rightarrow> string \<Rightarrow> string \<Rightarrow> ('h, 'u) connection option" where
  "ham_connection_new ok ok_copies junk junk_parser hostname port username password =
     (if \<not> ok then None
      else if \<not> ok_copies then None
      else Some \<lparr>c_fd = -1, c_input = False, c_hostname = hostname, c_port = port,
        c_username = username, c_password = password,
        c_reply = the (ham_reply_new True True junk),
        c_parser = the (ham_parser_new True junk_parser), c_handlers = [],
        c_modules = ham_hash_table_set_free_func (the (ham_hash_table_new True)) (Some ()),
        c_events = []\<rparr>)"

text \<open>The descriptor is set to -1 before it is passed to \<open>close\<close>.\<close>

definition ham_connection_disconnect :: "('h, 'u) connection \<Rightarrow> ('h, 'u) connection" where
  "ham_connection_disconnect c =
     (if c_fd c = -1 then c
      else let c1 = c\<lparr>c_fd := -1\<rparr>;
               c2 = log_event (Closed (c_fd c1)) (log_event Input_removed c1)
           in c2\<lparr>c_input := False\<rparr>)"

definition ham_connection_send ::
  "('h, 'u) reaction \<Rightarrow> bool \<Rightarrow> request \<Rightarrow> 'h reply_handler option \<Rightarrow> 'u
   \<Rightarrow> ('h, 'u) connection \<Rightarrow> ('h, 'u) connection result" where
  "ham_connection_send react ok q handler ui_data c =
     (if c_fd c = -1 then Inr c
      else rbind (ham_request_get_data q) (\<lambda>data.
        let c1 = happen react (Emitted ''connection-request-sent'' data 0) c;
            c2 = log_event (Wrote (c_fd c1) (cstr data)) c1
        in if \<not> ok then Inr c2
           else Inr (c2\<lparr>c_handlers := c_handlers c2 @ [(handler, ui_data)]\<rparr>)))"

definition ham_connection_fetch_available_modules ::
  "('h, 'u) reaction \<Rightarrow> bool \<Rightarrow> 'h reply_handler option \<Rightarrow> 'u
   \<Rightarrow> ('h, 'u) connection \<Rightarrow> ('h, 'u) connection result" where
  "ham_connection_fetch_available_modules react ok handler ui_data c =
     rbind (ham_request_new True True ''/modules'' ''GET'' None None) (\<lambda>q. case q of
       None \<Rightarrow> Inl Null_deref
     | Some q \<Rightarrow> ham_connection_send react ok q handler ui_data c)"

text \<open>
  When \<open>connect\<close> fails the descriptor is left as it is. \<open>null\<close> is the null user pointer.
\<close>

definition ham_connection_connect ::
  "('h, 'u) reaction \<Rightarrow> net \<Rightarrow> 'u \<Rightarrow> ('h, 'u) connection \<Rightarrow> ('h, 'u) connection result" where
  "ham_connection_connect react net null c =
     (if c_fd c \<noteq> -1 then Inr c
      else if \<not> n_resolved net then
        Inr (happen react (Emitted ''connection-disconnected'' (n_error net) 0) c)
      else let c1 = c\<lparr>c_fd := n_socket net\<rparr>
        in if c_fd c1 = -1 then
             Inr (happen react (Emitted ''connection-disconnected'' (n_error net) 0) c1)
           else if \<not> n_connected net then
             Inr (happen react (Emitted ''connection-disconnected'' (n_error net) 0) c1)
           else let c2 = log_event (Input_added (c_fd c1)) (c1\<lparr>c_input := n_input net\<rparr>)
             in ham_connection_fetch_available_modules react True (Some Connect_response) null c2)"

subsection \<open>The modules\<close>

record columns =
  col_uri :: int
  col_name :: int
  col_desc :: int
  col_need_auth :: int
  col_type :: int

fun module_columns :: "int \<Rightarrow> string list \<Rightarrow> columns \<Rightarrow> columns" where
  "module_columns i [] k = k"
| "module_columns i (f # fs) k = module_columns (i + 1) fs
     (if f = ''uri'' then k\<lparr>col_uri := i\<rparr>
      else if f = ''name'' then k\<lparr>col_name := i\<rparr>
      else if f = ''desc'' then k\<lparr>col_desc := i\<rparr>
      else if f = ''need_auth'' then k\<lparr>col_need_auth := i\<rparr>
      else if f = ''type'' then k\<lparr>col_type := i\<rparr>
      else k)"

text \<open>\<open>atoi\<close>: blanks, a sign, then digits; the value is taken to fit an \<open>int\<close>.\<close>

fun digits_value :: "int \<Rightarrow> string \<Rightarrow> int" where
  "digits_value n [] = n"
| "digits_value n (c # s) = (if isDigit c then digits_value (10 * n + int (digit_value c)) s else n)"

definition atoi :: "string \<Rightarrow> int" where
  "atoi s = (case dropWhile (\<lambda>c. c = SP \<or> (9 \<le> schar c \<and> schar c \<le> 13)) s of
     [] \<Rightarrow> 0
   | c # t \<Rightarrow> (if c = CHR ''-'' then - digits_value 0 t
              else if c = CHR ''+'' then digits_value 0 t else digits_value 0 (c # t)))"

fun module_fields :: "columns \<Rightarrow> int \<Rightarrow> string list \<Rightarrow> ham_module \<Rightarrow> ham_module" where
  "module_fields k i [] m = m"
| "module_fields k i (f # fs) m = module_fields k (i + 1) fs
     (if i = col_uri k then m\<lparr>m_uri := Some f\<rparr>
      else if i = col_name k then m\<lparr>m_name := Some f\<rparr>
      else if i = col_desc k then m\<lparr>m_desc := Some f\<rparr>
      else if i = col_need_auth k then m\<lparr>m_need_auth := (f \<noteq> [] \<and> hd f = CHR ''1'')\<rparr>
      else if i = col_type k then m\<lparr>m_type := atoi f\<rparr>
      else m)"

definition no_columns :: columns where
  "no_columns = \<lparr>col_uri = -1, col_name = -1, col_desc = -1, col_need_auth = -1, col_type = -1\<rparr>"

definition blank_module :: ham_module where
  "blank_module = \<lparr>m_uri = None, m_name = None, m_desc = None, m_need_auth = False, m_type = 0,
     m_data = None\<rparr>"

fun add_modules :: "columns \<Rightarrow> string list list \<Rightarrow> (ham_module, unit) hash_table
    \<Rightarrow> (ham_module, unit) hash_table result" where
  "add_modules k [] t = Inr t"
| "add_modules k (l # ls) t =
     (let m = module_fields k 0 l blank_module
      in case m_uri m of
           None \<Rightarrow> Inl Null_deref
         | Some uri \<Rightarrow> rbind (ham_hash_table_add True True t (str uri) (-1) m)
             (\<lambda>(_, _, t1). add_modules k ls t1))"

definition ham_connection_parse_modules :: "cbuf \<Rightarrow> (ham_module, unit) hash_table \<Rightarrow> string
    \<Rightarrow> (ham_module, unit) hash_table result" where
  "ham_connection_parse_modules junk t modules =
     rbind (ham_csv_parse junk modules) (\<lambda>ls. case ls of
       [] \<Rightarrow> Inl Null_deref
     | header # rows \<Rightarrow> add_modules (module_columns 0 header no_columns) rows t)"

definition ham_connect_handle_response ::
  "('h, 'u) reaction \<Rightarrow> cbuf \<Rightarrow> reply \<Rightarrow> ('h, 'u) connection \<Rightarrow> ('h, 'u) connection result" where
  "ham_connect_handle_response react junk r c =
     (if ham_reply_get_status r = 200 then
        rbind (ham_reply_get_content r) (\<lambda>modules.
        rmap (\<lambda>t. happen react (Emitted ''connection-connected'' [] 0) (c\<lparr>c_modules := t\<rparr>))
          (ham_connection_parse_modules junk (c_modules c) modules))
      else Inr (happen react (Emitted ''connection-disconnected''
          ''Error response from server while fetching modules'' 0) c))"

definition ham_connection_get_module ::
  "('h, 'u) connection \<Rightarrow> string \<Rightarrow> ham_module option result" where
  "ham_connection_get_module c name = ham_hash_table_lookup (c_modules c) (str name) (-1)"

definition ham_connection_get_modules ::
  "('h, 'u) connection \<Rightarrow> ham_module store \<Rightarrow> bool \<Rightarrow> (ham_module store \<times> 'g ham_list option) result" where
  "ham_connection_get_modules c s ok = ham_hash_table_to_list (c_modules c) s ok"

subsection \<open>Reading\<close>

text \<open>The call of the handler of a reply.\<close>

definition call_handler :: "('h, 'u) reaction \<Rightarrow> cbuf \<Rightarrow> 'h reply_handler \<Rightarrow> 'u
    \<Rightarrow> ('h, 'u) connection \<Rightarrow> ('h, 'u) connection result" where
  "call_handler react junk h u c = (case h of
     Connect_response \<Rightarrow> ham_connect_handle_response react junk (c_reply c) c
   | Client_handler g \<Rightarrow> Inr (happen react (Called g (c_reply c) u) c))"

definition reply_done ::
  "('h, 'u) reaction \<Rightarrow> cbuf \<Rightarrow> cbuf \<Rightarrow> ('h, 'u) connection \<Rightarrow> ('h, 'u) connection result" where
  "reply_done react junk_field junk_reply c =
     rbind (ham_reply_get_dump (c_reply c)) (\<lambda>(size, dump).
     if size < length dump + 1 then Inl Overflow
     else let c1 = happen react (Emitted ''connection-reply-received'' dump 0) c
     in rmap (\<lambda>c2. c2\<lparr>c_reply := the (ham_reply_new True True junk_reply)\<rparr>)
          (case c_handlers c1 of
             [] \<Rightarrow> Inr c1
           | (handler, u) # hs \<Rightarrow>
              (let c2 = c1\<lparr>c_handlers := hs\<rparr>
               in case handler of None \<Rightarrow> Inr c2 | Some h \<Rightarrow> call_handler react junk_field h u c2)))"

lemma parse_nothing [simp]: "ham_parser_parse p r [] = Inr (0, p, r)"
  by (simp add: ham_parser_parse_def)

lemma parse_something:
  "ham_parser_parse p r (drop n bytes) = Inr (k, q) \<Longrightarrow> 0 < k \<Longrightarrow> n < length bytes"
  by (cases "n < length bytes") auto

text \<open>
  The loop of \<open>ham_connection_read_data\<close>. It ends because \<open>parsed_total\<close> grows, and the parser counts nothing when no bytes are left.
\<close>

function read_loop ::
  "('h, 'u) reaction \<Rightarrow> cbuf \<Rightarrow> (nat \<Rightarrow> cbuf) \<Rightarrow> string \<Rightarrow> nat \<Rightarrow> ('h, 'u) connection
   \<Rightarrow> ('h, 'u) connection result" where
  "read_loop react junk_field junk bytes parsed_total c =
     (if parsed_total = length bytes - 1 then Inr c
      else case ham_parser_parse (c_parser c) (c_reply c) (drop parsed_total bytes) of
          Inl e \<Rightarrow> Inl e
        | Inr (parsed, p, r) \<Rightarrow>
           (let c1 = c\<lparr>c_parser := p, c_reply := r\<rparr>
            in if 0 < parsed then
                 (if r_finished r then
                    (case reply_done react junk_field (junk (parsed_total + parsed)) c1 of
                       Inl e \<Rightarrow> Inl e
                     | Inr c2 \<Rightarrow> read_loop react junk_field junk bytes (parsed_total + parsed) c2)
                  else read_loop react junk_field junk bytes (parsed_total + parsed) c1)
               else Inr (ham_connection_disconnect
                 (happen react (Emitted ''connection-disconnected'' ''Server sent mallformed data'' 0) c1))))"
  by pat_completeness auto

termination
  by (relation "measure (\<lambda>(_, _, _, bytes, parsed_total, _). length bytes - parsed_total)")
    (auto dest: parse_something intro!: diff_less_mono2)

declare read_loop.simps [simp del]

definition ham_connection_read_data ::
  "('h, 'u) reaction \<Rightarrow> cbuf \<Rightarrow> (nat \<Rightarrow> cbuf) \<Rightarrow> recv \<Rightarrow> ('h, 'u) connection
   \<Rightarrow> ('h, 'u) connection result" where
  "ham_connection_read_data react junk_field junk rcv c =
     (if c_fd c = -1 then Inr c
      else case rcv of
        Recv_error \<Rightarrow> Inl Overflow
      | Recv bytes \<Rightarrow>
         (if bytes = [] then
            Inr (ham_connection_disconnect
              (happen react (Emitted ''connection-disconnected'' ''Server closed the connection'' 0) c))
          else if READ_SIZE \<le> length bytes then Inl Overflow
          else read_loop react junk_field junk bytes 0 c))"

subsection \<open>Replies on the wire\<close>

type_synonym wire_reply = "(char \<times> char) \<times> (char \<times> char \<times> char) \<times> string \<times> header list \<times> string"

definition wire_text :: "wire_reply \<Rightarrow> string" where
  "wire_text = (\<lambda>(v, code, reason, hs, body). reply_text v code reason hs body)"

definition wire_ok :: "wire_reply \<Rightarrow> bool" where
  "wire_ok = (\<lambda>(v, code, reason, hs, body). head_ok v code reason hs \<and> content_ok body
     \<and> (has_content hs \<longleftrightarrow> body \<noteq> []))"

text \<open>The reply a handler is given carries what was on the wire.\<close>

definition reply_of :: "wire_reply \<Rightarrow> reply \<Rightarrow> bool" where
  "reply_of = (\<lambda>(v, code, reason, hs, body) r.
     ham_reply_is_finished r \<and> ham_reply_get_status r = code_value code \<and> r_headers r = hs
     \<and> ham_reply_get_content r = Inr body)"

lemma wire_text_end: "\<exists>s. wire_text w = s @ [LF] \<and> 0 < length s"
proof -
  obtain v code reason hs body where w: "w = (v, code, reason, hs, body)" by (cases w)
  show ?thesis
    by (cases "body = []")
      (auto simp: w wire_text_def reply_text_def intro!: exI [of _ "_ @ [CR]"] exI [of _ "_ @ _ # _ # _ @ [CR]"])
qed

lemma parse_wire:
  assumes "wire_ok w" and "p_state p = http_version_h" and "fresh_reply r"
    and "list_all (\<lambda>c. c = CR \<or> c = LF) gap"
  shows "\<exists>p' r'. ham_parser_parse p r (gap @ wire_text w @ rest) =
      Inr (length gap + length (wire_text w) - 1, p', r') \<and> p_state p' = http_version_h
      \<and> reply_of w r' \<and> r_finished r'"
proof -
  obtain v code reason hs body where w: "w = (v, code, reason, hs, body)" by (cases w)
  show ?thesis
    using parse_reply [OF assms(2-4), of v code reason hs body rest] assms(1)
    by (auto simp: w wire_ok_def wire_text_def reply_of_def ham_parser_reset_def ham_reply_is_finished_def)
qed

lemma code_value_le: "code_ok code \<Longrightarrow> code_value code \<le> 999"
  using digit_value_le [of "fst code"] digit_value_le [of "fst (snd code)"]
    digit_value_le [of "snd (snd code)"]
  by (cases code) (simp add: code_ok_def code_value_def)

lemma dump_of_wire:
  assumes "wire_ok w" and "reply_of w r"
  shows "\<exists>n out. ham_reply_get_dump r = Inr (n, out) \<and> length out + 1 \<le> n"
proof -
  obtain v code reason hs body where w: "w = (v, code, reason, hs, body)" by (cases w)
  have "ham_reply_get_content r = Inr body" using assms(2) by (simp add: w reply_of_def)
  then obtain n out where dump: "ham_reply_get_dump r = Inr (n, out)"
    by (auto simp: ham_reply_get_dump_def)
  have "r_status r \<le> 999"
    using assms code_value_le [of code]
    by (auto simp: w wire_ok_def reply_of_def head_ok_def ham_reply_get_status_def)
  then have "length (dec (r_status r)) \<le> 3" by (intro length_dec_le) simp_all
  with dump_slack [OF dump] dump show ?thesis by auto
qed

subsection \<open>Clients that only send\<close>

definition calls :: "('h, 'u) connection \<Rightarrow> ('h \<times> reply \<times> 'u) list" where
  "calls c = concat (map (\<lambda>e. case e of Called g r u \<Rightarrow> [(g, r, u)] | _ \<Rightarrow> []) (c_events c))"

text \<open>
  A client whose code may send requests, and so append handlers, but leaves the socket, the parser,
  the reply and the modules alone and calls no reply handler itself.
\<close>

definition polite :: "('h, 'u) reaction \<Rightarrow> bool" where
  "polite react \<longleftrightarrow> (\<forall>e c. c_fd (react e c) = c_fd c \<and> c_parser (react e c) = c_parser c
     \<and> c_reply (react e c) = c_reply c \<and> c_modules (react e c) = c_modules c
     \<and> calls (react e c) = calls c
     \<and> (\<exists>xs. c_handlers (react e c) = c_handlers c @ xs))"

lemma calls_log [simp]:
  "calls (log_event e c) = calls c @ (case e of Called g r u \<Rightarrow> [(g, r, u)] | _ \<Rightarrow> [])"
  by (simp add: calls_def log_event_def)

lemma log_event_simps [simp]:
  "c_fd (log_event e c) = c_fd c" "c_parser (log_event e c) = c_parser c"
  "c_reply (log_event e c) = c_reply c" "c_handlers (log_event e c) = c_handlers c"
  "c_modules (log_event e c) = c_modules c" "c_events (log_event e c) = c_events c @ [e]"
  by (simp_all add: log_event_def)

lemma calls_upd [simp]:
  "calls (c\<lparr>c_handlers := hs\<rparr>) = calls c" "calls (c\<lparr>c_reply := r\<rparr>) = calls c"
  "calls (c\<lparr>c_parser := p\<rparr>) = calls c"
  by (simp_all add: calls_def)

lemma happen_polite:
  assumes "polite react"
  shows "c_fd (happen react e c) = c_fd c" "c_parser (happen react e c) = c_parser c"
    "c_reply (happen react e c) = c_reply c" "c_modules (happen react e c) = c_modules c"
    "calls (happen react e c) = calls c @ (case e of Called g r u \<Rightarrow> [(g, r, u)] | _ \<Rightarrow> [])"
    "\<exists>xs. c_handlers (happen react e c) = c_handlers c @ xs"
proof -
  have "\<exists>xs. c_handlers (react e (log_event e c)) = c_handlers (log_event e c) @ xs"
    using assms unfolding polite_def by blast
  then show "\<exists>xs. c_handlers (happen react e c) = c_handlers c @ xs" by (simp add: happen_def)
qed (use assms in \<open>simp_all add: polite_def happen_def\<close>)

lemma reply_done_client:
  assumes "polite react" and "wire_ok w" and "reply_of w (c_reply c)"
    and "c_handlers c = (Some (Client_handler g), u) # hs"
  shows "\<exists>c'. reply_done react junk_field junk_reply c = Inr c'
    \<and> c_fd c' = c_fd c \<and> c_parser c' = c_parser c \<and> fresh_reply (c_reply c')
    \<and> calls c' = calls c @ [(g, c_reply c, u)] \<and> (\<exists>xs. c_handlers c' = hs @ xs)"
proof -
  obtain n out where dump: "ham_reply_get_dump (c_reply c) = Inr (n, out)" "length out + 1 \<le> n"
    using dump_of_wire [OF assms(2,3)] by blast
  let ?c1 = "happen react (Emitted ''connection-reply-received'' out 0) c"
  note h1 = happen_polite [OF assms(1), of "Emitted ''connection-reply-received'' out 0" c]
  obtain xs where xs: "c_handlers ?c1 = (Some (Client_handler g), u) # hs @ xs"
    using h1(6) assms(4) by auto
  let ?c2 = "?c1\<lparr>c_handlers := hs @ xs\<rparr>"
  let ?c3 = "happen react (Called g (c_reply ?c2) u) ?c2"
  note h2 = happen_polite [OF assms(1), of "Called g (c_reply ?c2) u" ?c2]
  obtain ys where ys: "c_handlers ?c3 = hs @ xs @ ys" using h2(6) by auto
  have "reply_done react junk_field junk_reply c =
      Inr (?c3\<lparr>c_reply := the (ham_reply_new True True junk_reply)\<rparr>)"
    using dump xs by (simp add: reply_done_def call_handler_def Let_def)
  then show ?thesis
    using h1 h2 ys by (simp add: fresh_reply_def ham_reply_new_def)
qed

text \<open>The same for the reply to the request for the list of modules.\<close>

lemma reply_done_modules:
  assumes "polite react" and "wire_ok w" and "reply_of w (c_reply c)"
    and "c_handlers c = (Some Connect_response, u) # hs"
    and "ham_reply_get_status (c_reply c) = 200" and "ham_reply_get_content (c_reply c) = Inr body"
    and "ham_connection_parse_modules junk_field (c_modules c) body = Inr t"
  shows "\<exists>c'. reply_done react junk_field junk_reply c = Inr c'
    \<and> c_fd c' = c_fd c \<and> c_parser c' = c_parser c \<and> fresh_reply (c_reply c') \<and> c_modules c' = t"
proof -
  obtain n out where dump: "ham_reply_get_dump (c_reply c) = Inr (n, out)" "length out + 1 \<le> n"
    using dump_of_wire [OF assms(2,3)] by blast
  let ?c1 = "happen react (Emitted ''connection-reply-received'' out 0) c"
  note h1 = happen_polite [OF assms(1), of "Emitted ''connection-reply-received'' out 0" c]
  obtain xs where xs: "c_handlers ?c1 = (Some Connect_response, u) # hs @ xs"
    using h1(6) assms(4) by auto
  let ?c2 = "?c1\<lparr>c_handlers := hs @ xs, c_modules := t\<rparr>"
  note h2 = happen_polite [OF assms(1), of "Emitted ''connection-connected'' [] 0" ?c2]
  have "reply_done react junk_field junk_reply c =
      Inr ((happen react (Emitted ''connection-connected'' [] 0) ?c2)
        \<lparr>c_reply := the (ham_reply_new True True junk_reply)\<rparr>)"
    using dump xs h1 assms(5-)
    by (simp add: reply_done_def call_handler_def Let_def ham_connect_handle_response_def)
  then show ?thesis
    using h1 h2 by (simp add: fresh_reply_def ham_reply_new_def)
qed

lemma drop_take_append:
  "drop n bytes = a @ b \<Longrightarrow> k \<le> length a \<Longrightarrow> drop (n + k) bytes = drop k a @ b"
  by (metis add.commute drop_append drop_drop diff_is_0_eq drop0)

lemma read_loop_replies:
  assumes "polite react" and "ws \<noteq> []" and "list_all wire_ok ws"
    and "drop n bytes = gap @ concat (map wire_text ws)" and "list_all (\<lambda>c. c = CR \<or> c = LF) gap"
    and "p_state (c_parser c) = http_version_h" and "fresh_reply (c_reply c)"
    and "c_handlers c = map (\<lambda>(g, u). (Some (Client_handler g), u)) gs @ hs"
    and "length gs = length ws"
  shows "\<exists>c' rs. read_loop react junk_field junk bytes n c = Inr c'
    \<and> list_all2 reply_of ws rs \<and> calls c' = calls c @ map2 (\<lambda>(g, u) r. (g, r, u)) gs rs
    \<and> c_fd c' = c_fd c \<and> p_state (c_parser c') = http_version_h \<and> fresh_reply (c_reply c')
    \<and> (\<exists>xs. c_handlers c' = hs @ xs)"
  using assms(2-)
proof (induction ws arbitrary: n gap c gs hs)
  case Nil
  then show ?case by simp
next
  case (Cons w ws)
  obtain g u gs' where gs: "gs = (g, u) # gs'" "length gs' = length ws"
    using Cons.prems(8) by (cases gs) auto
  let ?rest = "concat (map wire_text ws)"
  let ?k = "length gap + length (wire_text w) - 1"
  obtain s where s: "wire_text w = s @ [LF]" "0 < length s" using wire_text_end by blast
  have split: "drop n bytes = (gap @ wire_text w) @ ?rest" using Cons.prems(3) by simp
  have len: "length bytes - n = length gap + length (wire_text w) + length ?rest"
    using arg_cong [OF split, of length] by simp
  have later: "drop (n + ?k) bytes = [LF] @ ?rest"
    using drop_take_append [OF split, of ?k] s by simp
  obtain p r where parse: "ham_parser_parse (c_parser c) (c_reply c) (drop n bytes) = Inr (?k, p, r)"
    "p_state p = http_version_h" "reply_of w r" "r_finished r"
    using parse_wire [of w "c_parser c" "c_reply c" gap ?rest] Cons.prems split by auto
  let ?c1 = "c\<lparr>c_parser := p, c_reply := r\<rparr>"
  obtain c2 xs where c2: "reply_done react junk_field (junk (n + ?k)) ?c1 = Inr c2"
    "c_fd c2 = c_fd c" "c_parser c2 = p" "fresh_reply (c_reply c2)"
    "calls c2 = calls c @ [(g, r, u)]"
    "c_handlers c2 = map (\<lambda>(g, u). (Some (Client_handler g), u)) gs' @ (hs @ xs)"
    using reply_done_client [OF assms(1), of w ?c1 g u
        "map (\<lambda>(g, u). (Some (Client_handler g), u)) gs' @ hs" junk_field "junk (n + ?k)"]
      Cons.prems(2,7) parse gs by auto
  have step: "read_loop react junk_field junk bytes n c = read_loop react junk_field junk bytes (n + ?k) c2"
  proof -
    have "length (wire_text w) = length s + 1" using s(1) by simp
    then have "n \<noteq> length bytes - 1" "0 < ?k" using len s(2) by linarith+
    then show ?thesis using parse c2(1) by (subst read_loop.simps) (simp add: Let_def)
  qed
  show ?case
  proof (cases "ws = []")
    case True
    have "n + ?k = length bytes - 1" using len s True by simp
    then have "read_loop react junk_field junk bytes (n + ?k) c2 = Inr c2"
      by (subst read_loop.simps) simp
    then show ?thesis
      using step c2 parse True gs by (intro exI [of _ c2] exI [of _ "[r]"]) simp
  next
    case False
    obtain c' rs where IH: "read_loop react junk_field junk bytes (n + ?k) c2 = Inr c'"
      "list_all2 reply_of ws rs" "calls c' = calls c2 @ map2 (\<lambda>(g, u) r. (g, r, u)) gs' rs"
      "c_fd c' = c_fd c2" "p_state (c_parser c') = http_version_h" "fresh_reply (c_reply c')"
      "\<exists>ys. c_handlers c' = (hs @ xs) @ ys"
      using Cons.IH [OF False _ later _ _ c2(4,6) gs(2)] Cons.prems(2) c2(3) parse(2) by auto
    then show ?thesis
      using step c2 parse gs by (intro exI [of _ c'] exI [of _ "r # rs"]) auto
  qed
qed

lemma read_data_loop:
  "bytes \<noteq> [] \<Longrightarrow> c_fd c \<noteq> -1 \<Longrightarrow> length bytes < READ_SIZE \<Longrightarrow>
   ham_connection_read_data react junk_field junk (Recv bytes) c =
     read_loop react junk_field junk bytes 0 c"
  by (simp add: ham_connection_read_data_def)

text \<open>A read that holds one reply.\<close>

lemma read_one_reply:
  assumes "wire_ok w" and "c_fd c \<noteq> -1" and "length (wire_text w) < READ_SIZE"
    and "p_state (c_parser c) = http_version_h" and "fresh_reply (c_reply c)"
  shows "\<exists>p r. p_state p = http_version_h \<and> reply_of w r
    \<and> ham_connection_read_data react junk_field junk (Recv (wire_text w)) c =
        reply_done react junk_field (junk (length (wire_text w) - 1)) (c\<lparr>c_parser := p, c_reply := r\<rparr>)"
proof -
  obtain s where s: "wire_text w = s @ [LF]" "0 < length s" using wire_text_end by blast
  then have len: "0 < length (wire_text w) - 1" "wire_text w \<noteq> []" by simp_all
  obtain p r where parse: "ham_parser_parse (c_parser c) (c_reply c) (wire_text w) =
      Inr (length (wire_text w) - 1, p, r)" "p_state p = http_version_h" "reply_of w r" "r_finished r"
    using parse_wire [OF assms(1,4,5), of "[]" "[]"] by auto
  have stop: "read_loop react junk_field junk (wire_text w) (length (wire_text w) - 1) c' = Inr c'" for c'
    by (subst read_loop.simps) simp
  have "read_loop react junk_field junk (wire_text w) 0 c =
      reply_done react junk_field (junk (length (wire_text w) - 1)) (c\<lparr>c_parser := p, c_reply := r\<rparr>)"
    using parse(1,4) len(1) stop
    by (subst read_loop.simps) (simp add: Let_def split: sum.splits)
  with parse(2,3) read_data_loop [OF len(2) assms(2,3)] show ?thesis by auto
qed

subsection \<open>The table of modules\<close>

text \<open>A line of the server's list of modules: URI, name, description, type, authentication.\<close>

type_synonym module_entry = "string \<times> string \<times> string \<times> nat \<times> bool"

definition module_row :: "module_entry \<Rightarrow> string list" where
  "module_row = (\<lambda>(u, n, d, t, a). [u, n, d, dec t, if a then ''1'' else ''0''])"

definition module_of :: "module_entry \<Rightarrow> ham_module" where
  "module_of = (\<lambda>(u, n, d, t, a).
     \<lparr>m_uri = Some u, m_name = Some n, m_desc = Some d, m_need_auth = a, m_type = int t,
     m_data = None\<rparr>)"

definition module_header :: "string list" where
  "module_header = [''uri'', ''name'', ''desc'', ''type'', ''need_auth'']"

definition server_columns :: columns where
  "server_columns = \<lparr>col_uri = 0, col_name = 1, col_desc = 2, col_need_auth = 4, col_type = 3\<rparr>"

lemma module_header_columns: "module_columns 0 module_header no_columns = server_columns"
  by (simp add: module_header_def no_columns_def server_columns_def)

lemma digit_chars:
  assumes "(n::nat) < 10"
  shows "isDigit (char_of (48 + n)) \<and> digit_value (char_of (48 + n)) = n"
proof -
  have "(of_char (char_of (48 + n) :: char) :: nat) = 48 + n"
    using assms by simp
  then have "(of_char (char_of (48 + n) :: char) :: int) = int (48 + n)"
    by (metis of_nat_of_char)
  with assms show ?thesis by (simp add: isDigit_def digit_value_def schar_def)
qed

lemma digits_value_append:
  "list_all isDigit s \<Longrightarrow> isDigit c \<Longrightarrow>
   digits_value n (s @ [c]) = 10 * digits_value n s + int (digit_value c)"
  by (induction s arbitrary: n) auto

lemma dec_isDigit: "list_all isDigit (dec n)"
proof (induction n rule: dec.induct)
  case (1 n)
  then show ?case using digit_chars by (subst dec.simps) simp
qed

lemma digits_value_dec: "digits_value 0 (dec n) = int n"
proof (induction n rule: dec.induct)
  case (1 n)
  show ?case
  proof (cases "n < 10")
    case True
    then show ?thesis using digit_chars by (subst dec.simps) simp
  next
    case False
    have "digits_value 0 (dec (n div 10) @ [char_of (48 + n mod 10)]) = 10 * int (n div 10) + int (n mod 10)"
      using digits_value_append [OF dec_isDigit] digit_chars [of "n mod 10"] 1 False by simp
    moreover have "10 * int (n div 10) + int (n mod 10) = int n"
      by (metis mult_div_mod_eq of_nat_add of_nat_mult of_nat_numeral)
    ultimately show ?thesis using False by (subst dec.simps) simp
  qed
qed

lemma atoi_dec: "atoi (dec n) = int n"
proof -
  obtain c s where dec: "dec n = c # s" by (cases "dec n") auto
  then have "isDigit c" using dec_isDigit [of n] by simp
  then have c: "\<not> (c = SP \<or> (9 \<le> schar c \<and> schar c \<le> 13))" "c \<noteq> CHR ''-''" "c \<noteq> CHR ''+''"
    by (auto simp: isDigit_def schar_def)
  have "dropWhile (\<lambda>c. c = SP \<or> (9 \<le> schar c \<and> schar c \<le> 13)) (c # s) = c # s"
    using c(1) by (simp only: dropWhile.simps if_False)
  then show ?thesis using digits_value_dec [of n] dec c by (simp only: atoi_def list.case if_False)
qed

lemma module_fields_row:
  "module_fields server_columns 0 (module_row e @ [[]]) blank_module = module_of e"
  by (cases e) (simp add: module_row_def module_of_def server_columns_def blank_module_def atoi_dec)

abbreviation entry_uri :: "module_entry \<Rightarrow> string" where
  "entry_uri e \<equiv> fst e"

lemma map_of_other_uri:
  "k \<notin> entry_uri ` set es \<Longrightarrow> map_of (map (\<lambda>e. (entry_uri e, f e)) es) k = None"
  by (induction es) auto

lemma map_of_entry:
  "distinct (map entry_uri es) \<Longrightarrow> e \<in> set es \<Longrightarrow>
   map_of (map (\<lambda>e. (entry_uri e, f e)) es) (entry_uri e) = Some (f e)"
  by (intro map_of_is_SomeI) (auto simp: comp_def)

lemma add_modules_rows:
  assumes "table_inv t" and "\<forall>e \<in> set es. no_nul (entry_uri e) \<and> table_get t (entry_uri e) = None"
    and "distinct (map entry_uri es)"
  shows "\<exists>t'. add_modules server_columns (map (\<lambda>e. module_row e @ [[]]) es) t = Inr t' \<and> table_inv t'
     \<and> (\<forall>k. table_get t' k = (case map_of (map (\<lambda>e. (entry_uri e, module_of e)) es) k of
            None \<Rightarrow> table_get t k | Some m \<Rightarrow> Some m))"
  using assms
proof (induction es arbitrary: t)
  case Nil
  then show ?case by simp
next
  case (Cons e es)
  let ?u = "entry_uri e" and ?t = "table_put (entry_uri e) (module_of e) t"
  have u: "no_nul ?u" "table_get t ?u = None" "m_uri (module_of e) = Some ?u"
    using Cons.prems(2) by (auto simp: module_of_def split: prod.splits)
  have "table_inv ?t"
    using str_table.put_inv [OF Cons.prems(1) u(1,2)] .
  moreover have get: "table_get ?t k = (if k = ?u then Some (module_of e) else table_get t k)" for k
    using str_table.get_put [OF Cons.prems(1) u(1,2)] .
  moreover have "\<forall>e' \<in> set es. no_nul (entry_uri e') \<and> table_get ?t (entry_uri e') = None"
  proof
    fix e' assume e': "e' \<in> set es"
    then have "entry_uri e' \<noteq> ?u" using Cons.prems(3) by (metis distinct.simps(2) image_eqI list.simps(9) list.set_map)
    with e' show "no_nul (entry_uri e') \<and> table_get ?t (entry_uri e') = None"
      using Cons.prems(2) get by simp
  qed
  moreover have "distinct (map entry_uri es)" using Cons.prems(3) by simp
  ultimately obtain t' where t': "add_modules server_columns (map (\<lambda>e. module_row e @ [[]]) es) ?t = Inr t'"
    "table_inv t'" "\<And>k. table_get t' k = (case map_of (map (\<lambda>e. (entry_uri e, module_of e)) es) k of
            None \<Rightarrow> table_get ?t k | Some m \<Rightarrow> Some m)"
    using Cons.IH [of ?t] by blast
  have "map_of (map (\<lambda>e. (entry_uri e, module_of e)) es) ?u = None"
    using Cons.prems(3) by (intro map_of_other_uri) simp
  with t' add_absent [OF Cons.prems(1) u(1,2), of "module_of e"] u(3) show ?case
    by (intro exI [of _ t']) (auto simp: module_fields_row get Let_def split: option.splits)
qed

definition entry_ok :: "module_entry \<Rightarrow> bool" where
  "entry_ok = (\<lambda>(u, n, d, t, a). field_ok (u, False) \<and> field_ok (n, False) \<and> field_ok (d, False)
     \<and> t < 10)"

text \<open>The lines of the list, each with a separator at its end.\<close>

definition modules_csv :: "module_entry list \<Rightarrow> (string \<times> bool) list list" where
  "modules_csv es = map (\<lambda>f. (f, False)) module_header # map (trailing \<circ> module_row) es"

lemma small_fields_ok:
  "field_ok ([], False)" "field_ok (''1'', False)" "field_ok (''0'', False)"
  by (simp_all add: field_ok_def FIELD_SIZE_def plain_char_def)

lemma header_fields_ok: "list_all field_ok (map (\<lambda>f. (f, False)) module_header)"
  by (simp add: module_header_def field_ok_def FIELD_SIZE_def plain_char_def)

lemma digit_field_ok: "(t::nat) < 10 \<Longrightarrow> field_ok (dec t, False)"
  using digit_chars [of t]
  by (subst dec.simps) (auto simp: field_ok_def FIELD_SIZE_def plain_char_def isDigit_def schar_def)

lemma row_fields_ok: "entry_ok e \<Longrightarrow> list_all field_ok (map (\<lambda>f. (f, False)) (module_row e))"
  by (cases e) (simp add: entry_ok_def module_row_def small_fields_ok digit_field_ok)

lemma modules_csv_ok: "list_all entry_ok es \<Longrightarrow> csv_ok (modules_csv es)"
  using header_fields_ok row_fields_ok small_fields_ok
  by (auto simp: modules_csv_def csv_ok_def trailing_def list_all_iff module_header_def)

lemma modules_csv_fields:
  "map (map fst) (modules_csv es) = module_header # map (\<lambda>e. module_row e @ [[]]) es"
  by (simp add: modules_csv_def comp_def)

lemma entry_ok_uri: "entry_ok e \<Longrightarrow> no_nul (entry_uri e)"
  by (auto simp: entry_ok_def field_ok_def)

definition entries_ok :: "(ham_module, unit) hash_table \<Rightarrow> module_entry list \<Rightarrow> bool" where
  "entries_ok t es \<longleftrightarrow> table_inv t \<and> list_all entry_ok es \<and> distinct (map entry_uri es)
     \<and> (\<forall>e \<in> set es. table_get t (entry_uri e) = None)"

lemma parse_modules_table:
  assumes "entries_ok t es" and "ham_csv_parse junk modules = Inr (map (map fst) (modules_csv es))"
  shows "\<exists>t'. ham_connection_parse_modules junk t modules = Inr t' \<and> table_inv t'
     \<and> (\<forall>k. table_get t' k = (case map_of (map (\<lambda>e. (entry_uri e, module_of e)) es) k of
            None \<Rightarrow> table_get t k | Some m \<Rightarrow> Some m))"
  using add_modules_rows [of t es] assms entry_ok_uri
  by (auto simp: entries_ok_def ham_connection_parse_modules_def modules_csv_fields
      module_header_columns list_all_iff)

lemma read_partial:
  assumes "c_fd c \<noteq> -1" and "bytes \<noteq> []" and "length bytes < READ_SIZE"
    and "ham_parser_parse (c_parser c) (c_reply c) bytes = Inr (length bytes, p, r)" and "\<not> r_finished r"
  shows "ham_connection_read_data react junk_field junk (Recv bytes) c =
    (if length bytes = 1 then Inr c
     else Inr (ham_connection_disconnect
       (happen react (Emitted ''connection-disconnected'' ''Server sent mallformed data'' 0)
         (c\<lparr>c_parser := p, c_reply := r\<rparr>))))"
proof -
  let ?c = "c\<lparr>c_parser := p, c_reply := r\<rparr>"
  have "0 < length bytes" using assms(2) by simp
  then have past: "length bytes \<noteq> length bytes - 1" by linarith
  have again: "read_loop react junk_field junk bytes (length bytes) ?c =
      Inr (ham_connection_disconnect
       (happen react (Emitted ''connection-disconnected'' ''Server sent mallformed data'' 0) ?c))"
    using past by (subst read_loop.simps) simp
  show ?thesis
  proof (cases "length bytes = 1")
    case True
    then have "read_loop react junk_field junk bytes 0 c = Inr c" by (subst read_loop.simps) simp
    with True assms show ?thesis by (simp add: ham_connection_read_data_def)
  next
    case False
    then have "0 \<noteq> length bytes - 1" using \<open>0 < length bytes\<close> by linarith
    then have "read_loop react junk_field junk bytes 0 c =
        read_loop react junk_field junk bytes (length bytes) ?c"
      using assms(4,5) \<open>0 < length bytes\<close> by (subst read_loop.simps) simp
    with again False assms show ?thesis by (simp add: ham_connection_read_data_def)
  qed
qed

subsection \<open>The properties\<close>

text \<open>
  C8. Replies that arrive complete in one read are handed to the pending handlers in the order of
  the requests, each with the status, headers and content of its text, although the code parses the
  last line feed of each reply again; the socket stays open, the parser and the reply are ready for
  the next read, and the handlers behind them, with those the client has added meanwhile, remain.
\<close>

theorem replies_served_in_order:
  assumes "polite react" and "c_fd c \<noteq> -1" and "ws \<noteq> []" and "list_all wire_ok ws"
    and "length (concat (map wire_text ws)) < READ_SIZE"
    and "p_state (c_parser c) = http_version_h" and "fresh_reply (c_reply c)"
    and "c_handlers c = map (\<lambda>(g, u). (Some (Client_handler g), u)) gs @ hs"
    and "length gs = length ws"
  shows "\<exists>c' rs. ham_connection_read_data react junk_field junk (Recv (concat (map wire_text ws))) c = Inr c'
    \<and> list_all2 reply_of ws rs \<and> calls c' = calls c @ map2 (\<lambda>(g, u) r. (g, r, u)) gs rs
    \<and> c_fd c' = c_fd c \<and> p_state (c_parser c') = http_version_h \<and> fresh_reply (c_reply c')
    \<and> (\<exists>xs. c_handlers c' = hs @ xs)"
proof -
  obtain w ws' where "ws = w # ws'" using assms(3) by (cases ws) auto
  then have "concat (map wire_text ws) \<noteq> []" using wire_text_end [of w] by auto
  then have "ham_connection_read_data react junk_field junk (Recv (concat (map wire_text ws))) c =
      read_loop react junk_field junk (concat (map wire_text ws)) 0 c"
    using assms(2,5) by (intro read_data_loop)
  then show ?thesis
    using read_loop_replies [OF assms(1,3,4), of 0 "concat (map wire_text ws)" "[]" c gs hs junk_field junk]
      assms(6-) by simp
qed

definition wire200 :: "string \<Rightarrow> wire_reply" where
  "wire200 body = (http11, code200, '' OK'', [length_header ''2''], body)"

definition connection0 :: "(nat, nat) connection" where
  "connection0 = \<lparr>c_fd = 3, c_input = True, c_hostname = ''h'', c_port = 80, c_username = ''u'',
     c_password = ''p'', c_reply = reply0, c_parser = parser0,
     c_handlers = map (\<lambda>(g, u). (Some (Client_handler g), u)) [(1, 10), (2, 20)],
     c_modules = the (ham_hash_table_new True), c_events = []\<rparr>"

theorem replies_served_in_order_witness:
  "\<exists>c' r1 r2. ham_connection_read_data (\<lambda>_ c. c) (\<lambda>_. NUL) (\<lambda>_ _. NUL)
       (Recv (concat (map wire_text [wire200 ''ab'', wire200 ''cd'']))) connection0 = Inr c'
     \<and> calls c' = [(1, r1, 10), (2, r2, 20)]
     \<and> ham_reply_get_content r1 = Inr ''ab'' \<and> ham_reply_get_content r2 = Inr ''cd''"
proof -
  have ok: "list_all wire_ok [wire200 ''ab'', wire200 ''cd'']"
    using sample_head by (simp add: wire200_def wire_ok_def content_ok_def MAX_REPLY_SIZE_def)
  have len: "length (concat (map wire_text [wire200 ''ab'', wire200 ''cd''])) < READ_SIZE"
    by (simp add: wire200_def wire_text_def reply_text_def reply_head_def status_line_def http11_def
        code200_def header_lines_def print_header_def length_header_def READ_SIZE_def)
  have "polite (\<lambda>_ c. c :: (nat, nat) connection)" by (simp add: polite_def)
  from replies_served_in_order [OF this _ _ ok len, of connection0 "[(1, 10), (2, 20)]" "[]"
      "\<lambda>_. NUL" "\<lambda>_ _. NUL"] start0
  obtain c' rs where c': "ham_connection_read_data (\<lambda>_ c. c) (\<lambda>_. NUL) (\<lambda>_ _. NUL)
       (Recv (concat (map wire_text [wire200 ''ab'', wire200 ''cd'']))) connection0 = Inr c'"
    "list_all2 reply_of [wire200 ''ab'', wire200 ''cd''] rs"
    "calls c' = calls connection0 @ map2 (\<lambda>(g, u) r. (g, r, u)) [(1, 10), (2, 20)] rs"
    by (auto simp: connection0_def)
  then obtain r1 r2 where "rs = [r1, r2]" "reply_of (wire200 ''ab'') r1" "reply_of (wire200 ''cd'') r2"
    by (auto simp: list_all2_Cons1)
  with c' show ?thesis
    by (intro exI [of _ c'] exI [of _ r1] exI [of _ r2])
      (simp add: reply_of_def wire200_def connection0_def calls_def)
qed



text \<open>
  A connection attempt that fails after the socket has been created leaves the descriptor set:
  the client is told that it is disconnected, but every later attempt returns at once, and requests
  are written to the socket that was never connected.
\<close>

theorem failed_connect_is_final:
  assumes "c_fd c = -1" and "n_resolved net" and "n_socket net \<noteq> -1" and "\<not> n_connected net"
    and "polite react"
  shows "\<exists>c'. ham_connection_connect react net null c = Inr c' \<and> c_fd c' = n_socket net
    \<and> (\<forall>net' null'. ham_connection_connect react net' null' c' = Inr c')
    \<and> (\<forall>q data. ham_request_get_data q = Inr data \<longrightarrow>
        (\<exists>c''. ham_connection_send react True q None null c' = Inr c'' \<and> c_fd c'' = c_fd c'
           \<and> Wrote (n_socket net) (cstr data) \<in> set (c_events c'')))"
proof -
  define d where
    "d = happen react (Emitted ''connection-disconnected'' (n_error net) 0) (c\<lparr>c_fd := n_socket net\<rparr>)"
  have run: "ham_connection_connect react net null c = Inr d"
    using assms(1-4) by (simp add: ham_connection_connect_def d_def)
  have fd: "c_fd d = n_socket net" by (simp add: happen_polite [OF assms(5)] d_def)
  have again: "ham_connection_connect react net' null' d = Inr d" for net' null'
    using fd assms(3) by (simp add: ham_connection_connect_def)
  have send: "\<exists>c''. ham_connection_send react True q None null d = Inr c'' \<and> c_fd c'' = c_fd d
      \<and> Wrote (n_socket net) (cstr data) \<in> set (c_events c'')"
    if "ham_request_get_data q = Inr data" for q data
  proof -
    let ?s = "happen react (Emitted ''connection-request-sent'' data 0) d"
    have "c_fd ?s = n_socket net" using fd by (simp only: happen_polite [OF assms(5)])
    with that fd assms(3) show ?thesis by (simp add: ham_connection_send_def Let_def)
  qed
  from run fd again send show ?thesis by blast
qed

theorem failed_connect_is_final_witness:
  "\<exists>c'. ham_connection_connect (\<lambda>_ c. c)
      \<lparr>n_resolved = True, n_socket = 5, n_connected = False, n_input = False, n_error = ''refused''\<rparr> 0
      (connection0\<lparr>c_fd := -1\<rparr>) = Inr c' \<and> c_fd c' = 5"
  using failed_connect_is_final [of "connection0\<lparr>c_fd := -1\<rparr>" "\<lparr>n_resolved = True, n_socket = 5,
      n_connected = False, n_input = False, n_error = ''refused''\<rparr>" "\<lambda>_ c. c" 0]
  by (auto simp: polite_def)

text \<open>
  From a list of modules that ends with a line end the client's table gets exactly one entry per
  line, under its URI and with the values of its columns, and keeps what it held under other names.
\<close>

theorem modules_table_filled:
  assumes "entries_ok t es"
  shows "\<exists>t'. ham_connection_parse_modules junk t (csv_text (modules_csv es)) = Inr t'
    \<and> (\<forall>e \<in> set es. ham_hash_table_lookup t' (str (entry_uri e)) (-1) = Inr (Some (module_of e)))
    \<and> (\<forall>k. no_nul k \<longrightarrow> k \<notin> entry_uri ` set es \<longrightarrow>
         ham_hash_table_lookup t' (str k) (-1) = ham_hash_table_lookup t (str k) (-1))"
proof -
  have ok: "list_all entry_ok es" "distinct (map entry_uri es)" using assms by (simp_all add: entries_ok_def)
  have "ham_csv_parse junk (csv_text (modules_csv es)) = Inr (map (map fst) (modules_csv es))"
    using parse_text [OF modules_csv_ok [OF ok(1)]] by (simp add: modules_csv_def)
  from parse_modules_table [OF assms this] obtain t' where t':
    "ham_connection_parse_modules junk t (csv_text (modules_csv es)) = Inr t'"
    "\<And>k. table_get t' k = (case map_of (map (\<lambda>e. (entry_uri e, module_of e)) es) k of
            None \<Rightarrow> table_get t k | Some m \<Rightarrow> Some m)" by blast
  have "map_of (map (\<lambda>e. (entry_uri e, module_of e)) es) (entry_uri e) = Some (module_of e)"
    if "e \<in> set es" for e
    using ok(2) that by (rule map_of_entry)
  moreover have "no_nul (entry_uri e)" if "e \<in> set es" for e
    using ok(1) that entry_ok_uri by (auto simp: list_all_iff)
  moreover have "map_of (map (\<lambda>e. (entry_uri e, module_of e)) es) k = None" if "k \<notin> entry_uri ` set es" for k
    using that by (rule map_of_other_uri)
  ultimately show ?thesis using t' by (intro exI [of _ t']) (simp add: lookup_str)
qed

theorem modules_table_filled_witness:
  "\<exists>t'. ham_connection_parse_modules (\<lambda>_. NUL) (the (ham_hash_table_new True))
      (csv_text (modules_csv [(''/qrz'', ''QRZ'', ''callsigns'', 1, True)])) = Inr t'
    \<and> ham_hash_table_lookup t' (str ''/qrz'') (-1) = Inr (Some \<lparr>m_uri = Some ''/qrz'',
        m_name = Some ''QRZ'', m_desc = Some ''callsigns'', m_need_auth = True, m_type = 1,
        m_data = None\<rparr>)"
proof -
  have "entries_ok (the (ham_hash_table_new True)) [(''/qrz'', ''QRZ'', ''callsigns'', 1, True)]"
    by (simp add: entries_ok_def table_inv_new table_get_new entry_ok_def field_ok_def plain_char_def
        FIELD_SIZE_def)
  from modules_table_filled [OF this, of "\<lambda>_. NUL"] show ?thesis
    by (auto simp: module_of_def)
qed

end
