(* ===== verification/ServerReply.thy ===== *)
theory ServerReply
  imports Connection
begin

text \<open>
  The server's reply, \<open>server/reply.cpp\<close> and \<open>server/reply.h\<close>, and what the client's parser makes of
  the text it sends.

  The first two headers of a reply are its content type and its content length. \<open>toString\<close> changes
  the reply: it stores the length of the content and then removes the carriage returns from it.
\<close>

record server_reply =
  sr_status :: nat
  sr_headers :: "header list"
  sr_content :: string
  sr_async :: bool

definition server_reply_new :: "nat \<Rightarrow> string \<Rightarrow> server_reply" where
  "server_reply_new status content_type =
     \<lparr>sr_status = status,
      sr_headers = [\<lparr>hname = ''Content-Type'', hvalue = content_type\<rparr>,
                    \<lparr>hname = ''Content-Length'', hvalue = ''0''\<rparr>],
      sr_content = [], sr_async = False\<rparr>"

definition setStatus :: "nat \<Rightarrow> server_reply \<Rightarrow> server_reply" where
  "setStatus status r = r\<lparr>sr_status := status\<rparr>"

definition setContentType :: "string \<Rightarrow> server_reply \<Rightarrow> server_reply" where
  "setContentType t r = r\<lparr>sr_headers := (sr_headers r)[0 := (sr_headers r ! 0)\<lparr>hvalue := t\<rparr>]\<rparr>"

definition setContent :: "string \<Rightarrow> server_reply \<Rightarrow> server_reply" where
  "setContent content r = r\<lparr>sr_content := content\<rparr>"

definition setAsync :: "bool \<Rightarrow> server_reply \<Rightarrow> server_reply" where
  "setAsync a r = r\<lparr>sr_async := a\<rparr>"

definition addHeader :: "header \<Rightarrow> server_reply \<Rightarrow> server_reply" where
  "addHeader h r = r\<lparr>sr_headers := sr_headers r @ [h]\<rparr>"

definition hasHeader :: "header list \<Rightarrow> string \<Rightarrow> bool" where
  "hasHeader hs name = list_ex (\<lambda>h. hname h = name) hs"

definition getHeader :: "header list \<Rightarrow> string \<Rightarrow> string" where
  "getHeader hs name = (case find_header hs name of None \<Rightarrow> [] | Some v \<Rightarrow> v)"

text \<open>The \<open>switch\<close> of \<open>toString\<close>, without the line end.\<close>

definition status_text_of :: "nat \<Rightarrow> string" where
  "status_text_of n =
     (if n = 200 then ''HTTP/1.1 200 OK''
      else if n = 301 then ''HTTP/1.0 301 Moved Permanently''
      else if n = 302 then ''HTTP/1.0 302 Moved Temporarily''
      else if n = 304 then ''HTTP/1.0 304 Not Modified''
      else if n = 400 then ''HTTP/1.0 400 Bad Request''
      else if n = 401 then ''HTTP/1.0 401 Unauthorized''
      else if n = 403 then ''HTTP/1.0 403 Forbidden''
      else if n = 404 then ''HTTP/1.0 404 Not Found''
      else ''HTTP/1.0 500 Internal Server Error'')"

definition strip_cr :: "string \<Rightarrow> string" where
  "strip_cr s = filter (\<lambda>c. c \<noteq> CR) s"

definition toString :: "server_reply \<Rightarrow> string \<times> server_reply" where
  "toString r =
     (let hs = (sr_headers r)[1 := (sr_headers r ! 1)\<lparr>hvalue := dec (length (sr_content r))\<rparr>];
          content = (if sr_content r = [] then [] else strip_cr (sr_content r))
      in (status_text_of (sr_status r) @ [CR, LF] @ concat (map print_header hs) @ [CR, LF]
            @ (if sr_content r = [] then [] else content @ [CR, LF]),
          r\<lparr>sr_headers := hs, sr_content := content\<rparr>))"

subsection \<open>Replies of the server\<close>

text \<open>The invariant of a reply: its first two headers are the content type and length.\<close>

definition server_reply_inv :: "server_reply \<Rightarrow> bool" where
  "server_reply_inv r \<longleftrightarrow> (\<exists>t n more. sr_headers r =
     \<lparr>hname = ''Content-Type'', hvalue = t\<rparr> # \<lparr>hname = ''Content-Length'', hvalue = n\<rparr> # more)"

lemma server_reply_inv_ops:
  "server_reply_inv (server_reply_new status t)"
  "server_reply_inv r \<Longrightarrow> server_reply_inv (setStatus status r)"
  "server_reply_inv r \<Longrightarrow> server_reply_inv (setContentType t r)"
  "server_reply_inv r \<Longrightarrow> server_reply_inv (setContent content r)"
  "server_reply_inv r \<Longrightarrow> server_reply_inv (setAsync a r)"
  "server_reply_inv r \<Longrightarrow> server_reply_inv (addHeader h r)"
  by (auto simp: server_reply_inv_def server_reply_new_def setStatus_def setContentType_def
      setContent_def setAsync_def addHeader_def)

definition sent_headers :: "server_reply \<Rightarrow> header list" where
  "sent_headers r = sr_headers (snd (toString r))"

definition sent_status :: "nat \<Rightarrow> nat" where
  "sent_status n = (if n \<in> {200, 301, 302, 304, 400, 401, 403, 404} then n else 500)"

definition status_parts :: "nat \<Rightarrow> (char \<times> char) \<times> (char \<times> char \<times> char) \<times> string" where
  "status_parts n =
     (if n = 200 then (http11, code200, '' OK'')
      else ((CHR ''1'', CHR ''0''),
        (if n = 301 then ((CHR ''3'', CHR ''0'', CHR ''1''), '' Moved Permanently'')
         else if n = 302 then ((CHR ''3'', CHR ''0'', CHR ''2''), '' Moved Temporarily'')
         else if n = 304 then ((CHR ''3'', CHR ''0'', CHR ''4''), '' Not Modified'')
         else if n = 400 then ((CHR ''4'', CHR ''0'', CHR ''0''), '' Bad Request'')
         else if n = 401 then ((CHR ''4'', CHR ''0'', CHR ''1''), '' Unauthorized'')
         else if n = 403 then ((CHR ''4'', CHR ''0'', CHR ''3''), '' Forbidden'')
         else if n = 404 then ((CHR ''4'', CHR ''0'', CHR ''4''), '' Not Found'')
         else ((CHR ''5'', CHR ''0'', CHR ''0''), '' Internal Server Error''))))"

lemma status_parts_text:
  "status_parts n = (v, code, reason) \<Longrightarrow> status_text_of n @ [CR, LF] = status_line v code reason"
  by (auto simp: status_parts_def status_text_of_def status_line_def http11_def code200_def
      split: if_splits)

lemma code_digits:
  "isDigit CHR ''0''" "isDigit CHR ''1''" "isDigit CHR ''2''" "isDigit CHR ''3''" "isDigit CHR ''4''"
  "isDigit CHR ''5''" "digit_value CHR ''0'' = 0" "digit_value CHR ''1'' = 1"
  "digit_value CHR ''2'' = 2" "digit_value CHR ''3'' = 3" "digit_value CHR ''4'' = 4"
  "digit_value CHR ''5'' = 5"
  by (simp_all add: isDigit_def schar_def digit_value_def)

lemma status_parts_ok:
  "status_parts n = (v, code, reason) \<Longrightarrow> isDigit (fst v) \<and> isDigit (snd v) \<and> code_ok code
     \<and> code_value code = sent_status n"
  by (simp add: status_parts_def http11_def code200_def code_ok_def code_value_def sent_status_def
      split: if_splits) (auto simp: code_digits)

lemma status_parts_reason: "status_parts n = (v, code, reason) \<Longrightarrow> reason_ok reason"
  by (auto simp: status_parts_def reason_ok_def isDigit_def schar_def split: if_splits)

lemma status_text_shape:
  "\<exists>v code reason. status_text_of n @ [CR, LF] = status_line v code reason
     \<and> isDigit (fst v) \<and> isDigit (snd v) \<and> code_ok code \<and> reason_ok reason
     \<and> code_value code = sent_status n"
  using status_parts_text [of n] status_parts_ok [of n] status_parts_reason [of n]
  by (cases "status_parts n") blast

lemma dec_zero_iff: "dec n = ''0'' \<longleftrightarrow> n = 0"
proof
  assume zero: "dec n = ''0''"
  have "digits_value 0 (dec n) = int n" by (rule digits_value_dec)
  moreover have "digits_value 0 ''0'' = 0" by (simp add: isDigit_def digit_value_def schar_def)
  ultimately show "n = 0" using zero by simp
next
  have "of_char CHR ''0'' = (48::nat)" by simp
  then have "char_of (48::nat) = CHR ''0''" by (metis char_of_char)
  moreover assume "n = 0"
  ultimately show "dec n = ''0''" by (subst dec.simps) simp
qed

lemma strip_cr_props:
  "list_all (\<lambda>c. c \<noteq> CR) (strip_cr s)" "no_nul s \<Longrightarrow> no_nul (strip_cr s)"
  "length (strip_cr s) \<le> length s"
  by (auto simp: strip_cr_def list_all_iff no_nul_def)

lemma dec_header_value: "n < 10 ^ 9 \<Longrightarrow> header_value_ok (dec n)"
  using dec_isDigit [of n] length_dec_le [of n 9]
  by (auto simp: header_value_ok_def HEADER_SIZE_def list_all_iff isDigit_def isControl_def)

lemma sent_headers_ok:
  assumes "server_reply_inv r" and "headers_ok (sr_headers r)" and "length (sr_content r) < MAX_REPLY_SIZE"
  shows "headers_ok (sent_headers r)"
  using assms dec_header_value [of "length (sr_content r)"]
  by (auto simp: server_reply_inv_def sent_headers_def toString_def headers_ok_def MAX_REPLY_SIZE_def
      Let_def)

text \<open>The text of a reply is a well-formed reply for the client, or has a content of line ends only.\<close>

definition server_wire :: "server_reply \<Rightarrow> wire_reply \<Rightarrow> bool" where
  "server_wire r w \<longleftrightarrow> (case w of (v, code, reason, hs, body) \<Rightarrow>
     code_value code = sent_status (sr_status r) \<and> hs = sent_headers r \<and> body = strip_cr (sr_content r)
     \<and> wire_text w = fst (toString r))"

lemma sent_headers_shape:
  assumes "server_reply_inv r"
  shows "find_header (sent_headers r) ''Content-Length'' = Some (dec (length (sr_content r)))"
    and "has_content (sent_headers r) \<longleftrightarrow> sr_content r \<noteq> []"
  using assms
  by (auto simp: server_reply_inv_def sent_headers_def toString_def has_content_def Let_def dec_zero_iff)

lemma server_head:
  assumes "headers_ok (sent_headers r)"
  shows "\<exists>v code reason. fst (toString r) = reply_head v code reason (sent_headers r) @ [CR, LF]
      @ (if sr_content r = [] then [] else strip_cr (sr_content r) @ [CR, LF])
    \<and> head_ok v code reason (sent_headers r) \<and> code_value code = sent_status (sr_status r)"
proof -
  obtain v code reason where "status_text_of (sr_status r) @ [CR, LF] = status_line v code reason"
    "isDigit (fst v)" "isDigit (snd v)" "code_ok code" "reason_ok reason"
    "code_value code = sent_status (sr_status r)"
    using status_text_shape by blast
  moreover have "fst (toString r) = (status_text_of (sr_status r) @ [CR, LF])
      @ header_lines (sent_headers r) @ [CR, LF]
      @ (if sr_content r = [] then [] else strip_cr (sr_content r) @ [CR, LF])"
    by (simp add: toString_def sent_headers_def header_lines_def Let_def)
  ultimately show ?thesis
    using assms by (intro exI [of _ v] exI [of _ code] exI [of _ reason])
      (simp add: reply_head_def head_ok_def)
qed

lemma server_wire_ok:
  assumes "server_reply_inv r" and "headers_ok (sr_headers r)" and "no_nul (sr_content r)"
    and "length (sr_content r) < MAX_REPLY_SIZE"
    and "sr_content r \<noteq> [] \<Longrightarrow> strip_cr (sr_content r) \<noteq> []"
  shows "\<exists>w. wire_ok w \<and> server_wire r w"
proof -
  obtain v code reason where head: "fst (toString r) = reply_head v code reason (sent_headers r) @ [CR, LF]
      @ (if sr_content r = [] then [] else strip_cr (sr_content r) @ [CR, LF])"
    "head_ok v code reason (sent_headers r)" "code_value code = sent_status (sr_status r)"
    using server_head [OF sent_headers_ok [OF assms(1,2,4)]] by blast
  have "sr_content r = [] \<longleftrightarrow> strip_cr (sr_content r) = []"
    using assms(5) by (auto simp: strip_cr_def)
  moreover have "content_ok (strip_cr (sr_content r))"
    using strip_cr_props(1) [of "sr_content r"] strip_cr_props(2) [OF assms(3)]
      strip_cr_props(3) [of "sr_content r"] assms(4)
    by (auto simp: content_ok_def list_all_iff no_nul_def)
  ultimately show ?thesis
    using head sent_headers_shape(2) [OF assms(1)]
    by (intro exI [of _ "(v, code, reason, sent_headers r, strip_cr (sr_content r))"])
      (simp add: wire_ok_def server_wire_def wire_text_def reply_text_def)
qed

subsection \<open>The properties\<close>

text \<open>
  C11. What the server's \<open>toString\<close> writes, the client's parser reads: the status (500 for a status
  that \<open>toString\<close> does not know), the headers, and the content without its carriage returns. The
  \<open>Content-Length\<close> the client gets is the length before they were removed.
\<close>

theorem server_reply_reaches_client:
  assumes "server_reply_inv r" and "headers_ok (sr_headers r)" and "no_nul (sr_content r)"
    and "length (sr_content r) < MAX_REPLY_SIZE"
    and "sr_content r = [] \<or> strip_cr (sr_content r) \<noteq> []"
    and "p_state p = http_version_h" and "fresh_reply q"
  shows "\<exists>p' q'. ham_parser_parse p q (fst (toString r) @ rest) =
      Inr (length (fst (toString r)) - 1, p', q')
    \<and> ham_reply_is_finished q' \<and> ham_reply_get_status q' = sent_status (sr_status r)
    \<and> r_headers q' = sent_headers r \<and> ham_reply_get_content q' = Inr (strip_cr (sr_content r))
    \<and> ham_reply_get_header q' ''Content-Length'' = Some (dec (length (sr_content r)))"
proof -
  obtain w where w: "wire_ok w" "server_wire r w"
    using server_wire_ok [OF assms(1-4)] assms(5) by auto
  obtain p' q' where "ham_parser_parse p q (wire_text w @ rest) = Inr (length (wire_text w) - 1, p', q')"
    "reply_of w q'"
    using parse_wire [OF w(1) assms(6,7), of "[]" rest] by auto
  with w(2) sent_headers_shape(1) [OF assms(1)] show ?thesis
    by (auto simp: server_wire_def reply_of_def ham_reply_get_header_def split: prod.splits)
qed

definition reply_ab :: server_reply where
  "reply_ab = setContent ''a b'' (server_reply_new 200 ''text/hamlog'')"

lemma reply_ab_headers: "headers_ok (sr_headers reply_ab)"
  by (simp add: reply_ab_def setContent_def server_reply_new_def sample_defs)

theorem server_reply_reaches_client_witness:
  "\<exists>p' q'. ham_parser_parse parser0 reply0 (fst (toString reply_ab)) =
      Inr (length (fst (toString reply_ab)) - 1, p', q')
    \<and> ham_reply_get_status q' = 200 \<and> ham_reply_get_content q' = Inr ''a b''"
  using server_reply_reaches_client [of reply_ab parser0 reply0 "[]"] reply_ab_headers start0
  by (auto simp: reply_ab_def setContent_def server_reply_new_def server_reply_inv_def strip_cr_def
      MAX_REPLY_SIZE_def sent_status_def)

text \<open>
  A reply whose content consists of carriage returns only announces a content and sends none:
  the client accepts all its bytes and still waits, and when the reply arrives in a read of its own
  the client disconnects.
\<close>

theorem blank_content_disconnects:
  assumes "server_reply_inv r" and "headers_ok (sr_headers r)"
    and "sr_content r \<noteq> []" and "strip_cr (sr_content r) = []" and "length (sr_content r) < MAX_REPLY_SIZE"
    and "length (fst (toString r)) < READ_SIZE"
    and "c_fd c \<noteq> -1" and "p_state (c_parser c) = http_version_h" and "fresh_reply (c_reply c)"
  shows "\<exists>p q. \<not> ham_reply_is_finished q
    \<and> ham_parser_parse (c_parser c) (c_reply c) (fst (toString r)) = Inr (length (fst (toString r)), p, q)
    \<and> ham_connection_read_data react junk_field junk (Recv (fst (toString r))) c =
        Inr (ham_connection_disconnect
          (happen react (Emitted ''connection-disconnected'' ''Server sent mallformed data'' 0)
            (c\<lparr>c_parser := p, c_reply := q\<rparr>)))"
proof -
  obtain v code reason where
    "fst (toString r) = reply_head v code reason (sent_headers r) @ [CR, LF]
      @ (if sr_content r = [] then [] else strip_cr (sr_content r) @ [CR, LF])"
    and ok: "head_ok v code reason (sent_headers r)"
    using server_head [OF sent_headers_ok [OF assms(1,2,5)]] by blast
  then have sent: "fst (toString r) = reply_head v code reason (sent_headers r) @ [CR, LF, CR, LF]"
    using assms(3,4) by simp
  let ?q = "(c_reply c)\<lparr>r_status := code_value code, r_headers := sent_headers r\<rparr>"
  have nf: "\<not> r_finished (c_reply c)" using assms(9) by (simp add: fresh_reply_def)
  obtain p where p: "p_state p = header_line_start"
    "consumes (c_parser c) (c_reply c) (reply_head v code reason (sent_headers r)) p ?q"
    using consumes_reply_head [OF assms(8,9) ok] by blast
  have hc: "has_content (sent_headers r)" using sent_headers_shape(2) [OF assms(1)] assms(3) by simp
  have "consumes p ?q [CR, LF, CR, LF] (p\<lparr>p_state := content_start\<rparr>) ?q"
    using p(1) nf hc
    by (auto simp: consumes_def consume_defs has_content_def ham_reply_get_header_def)
  from consumes_parse [OF consumes_append [OF p(2) this], of 0]
  have parse: "ham_parser_parse (c_parser c) (c_reply c) (fst (toString r)) =
      Inr (length (fst (toString r)), p\<lparr>p_state := content_start\<rparr>, ?q)"
    by (simp add: ham_parser_parse_def sent)
  have "length (fst (toString r)) \<noteq> 1" "fst (toString r) \<noteq> []" using sent by simp_all
  with read_partial [OF assms(7) _ assms(6) parse] nf parse show ?thesis
    by (intro exI [of _ "p\<lparr>p_state := content_start\<rparr>"] exI [of _ ?q])
      (simp add: ham_reply_is_finished_def)
qed

definition reply_cr :: server_reply where
  "reply_cr = setContent [CR] (server_reply_new 200 ''text/hamlog'')"

theorem blank_content_disconnects_witness:
  "\<exists>p q. ham_connection_read_data (\<lambda>_ c. c) (\<lambda>_. NUL) (\<lambda>_ _. NUL) (Recv (fst (toString reply_cr))) connection0 =
      Inr (ham_connection_disconnect
        (happen (\<lambda>_ c. c) (Emitted ''connection-disconnected'' ''Server sent mallformed data'' 0)
          (connection0\<lparr>c_parser := p, c_reply := q\<rparr>)))"
proof -
  have "length (dec 1) \<le> 1" by (rule length_dec_le) simp_all
  then have "length (fst (toString reply_cr)) < READ_SIZE" "length (sr_content reply_cr) < MAX_REPLY_SIZE"
    by (simp_all add: reply_cr_def setContent_def server_reply_new_def toString_def print_header_def
        status_text_of_def strip_cr_def READ_SIZE_def MAX_REPLY_SIZE_def)
  moreover have "server_reply_inv reply_cr" "headers_ok (sr_headers reply_cr)"
    "sr_content reply_cr \<noteq> []" "strip_cr (sr_content reply_cr) = []"
    by (simp_all add: reply_cr_def setContent_def server_reply_new_def server_reply_inv_def sample_defs
        strip_cr_def)
  moreover have "c_fd connection0 \<noteq> -1" "p_state (c_parser connection0) = http_version_h"
    "fresh_reply (c_reply connection0)"
    using start0 by (simp_all add: connection0_def)
  ultimately show ?thesis
    using blank_content_disconnects [of reply_cr connection0 "\<lambda>_ c. c" "\<lambda>_. NUL" "\<lambda>_ _. NUL"] by blast
qed

end
