(* ===== verification/ServerParser.thy ===== *)
theory ServerParser
  imports ServerReply
begin

text \<open>
  The server's request parser: \<open>server/requestparser.cpp\<close>, \<open>server/requestparser.h\<close> and the request
  object \<open>server/request.cpp\<close>, with the requests the client sends.

  The strings of the request grow as needed, so the only access that can go wrong is
  \<open>m_headers.back()\<close> on an empty list, which is a fault here; the lemmas show that it never happens.
  The version numbers are 32-bit words. The character classes are those of the client's parser.
\<close>

datatype rq_state =
    rq_method_start | rq_method | rq_uri_start | rq_uri
  | rq_version_h | rq_version_t_1 | rq_version_t_2 | rq_version_p | rq_version_slash
  | rq_major_start | rq_major | rq_minor_start | rq_minor
  | rq_newline_1 | rq_line_start | rq_lws | rq_name | rq_space | rq_value
  | rq_newline_2 | rq_newline_3 | rq_content_start | rq_content | rq_newline_4

record server_request =
  s_method :: string
  s_uri :: string
  s_major :: "32 word"
  s_minor :: "32 word"
  s_finished :: bool
  s_headers :: "header list"
  s_content :: string

definition new_request :: server_request where
  "new_request = \<lparr>s_method = [], s_uri = [], s_major = 0, s_minor = 0, s_finished = False,
     s_headers = [], s_content = []\<rparr>"

definition add_digit :: "32 word \<Rightarrow> char \<Rightarrow> 32 word" where
  "add_digit n c = n * 10 + word_of_int (schar c) - 48"

text \<open>\<open>m_headers.back()\<close> changed by \<open>f\<close>.\<close>

definition last_header :: "(header \<Rightarrow> header) \<Rightarrow> server_request \<Rightarrow> server_request result" where
  "last_header f q = (if s_headers q = [] then Inl Null_deref
     else Inr (q\<lparr>s_headers := butlast (s_headers q) @ [f (last (s_headers q))]\<rparr>))"

abbreviation push_value :: "char \<Rightarrow> header \<Rightarrow> header" where
  "push_value c \<equiv> \<lambda>h. h\<lparr>hvalue := hvalue h @ [c]\<rparr>"

abbreviation push_name :: "char \<Rightarrow> header \<Rightarrow> header" where
  "push_name c \<equiv> \<lambda>h. h\<lparr>hname := hname h @ [c]\<rparr>"

type_synonym rq_result = "(bool \<times> rq_state \<times> server_request) result"

abbreviation go :: "rq_state \<Rightarrow> server_request \<Rightarrow> rq_result" where
  "go st q \<equiv> Inr (True, st, q)"

abbreviation fail :: "rq_state \<Rightarrow> server_request \<Rightarrow> rq_result" where
  "fail st q \<equiv> Inr (False, st, q)"

definition not_token :: "char \<Rightarrow> bool" where
  "not_token c \<longleftrightarrow> \<not> isChar c \<or> isControl c \<or> isSpecial c"

text \<open>The request line.\<close>

definition handle_request_line :: "rq_state \<Rightarrow> server_request \<Rightarrow> char \<Rightarrow> rq_result" where
  "handle_request_line st q c = (case st of
     rq_method_start \<Rightarrow>
       if not_token c then fail st q else go rq_method (q\<lparr>s_method := s_method q @ [c]\<rparr>)
   | rq_method \<Rightarrow>
       if c = SP then go rq_uri q
       else if not_token c then fail st q
       else go st (q\<lparr>s_method := s_method q @ [c]\<rparr>)
   | rq_uri \<Rightarrow>
       if c = SP then go rq_version_h q
       else if isControl c then fail st q
       else go st (q\<lparr>s_uri := s_uri q @ [c]\<rparr>)
   | rq_version_h \<Rightarrow> if c = CHR ''H'' then go rq_version_t_1 q else fail st q
   | rq_version_t_1 \<Rightarrow> if c = CHR ''T'' then go rq_version_t_2 q else fail st q
   | rq_version_t_2 \<Rightarrow> if c = CHR ''T'' then go rq_version_p q else fail st q
   | rq_version_p \<Rightarrow> if c = CHR ''P'' then go rq_version_slash q else fail st q
   | rq_version_slash \<Rightarrow>
       if c = CHR ''/'' then go rq_major_start (q\<lparr>s_major := 0, s_minor := 0\<rparr>) else fail st q
   | rq_major_start \<Rightarrow>
       if isDigit c then go rq_major (q\<lparr>s_major := add_digit (s_major q) c\<rparr>) else fail st q
   | rq_major \<Rightarrow>
       if c = CHR ''.'' then go rq_minor_start q
       else if isDigit c then go st (q\<lparr>s_major := add_digit (s_major q) c\<rparr>)
       else fail st q
   | rq_minor_start \<Rightarrow>
       if isDigit c then go rq_minor (q\<lparr>s_minor := add_digit (s_minor q) c\<rparr>) else fail st q
   | rq_minor \<Rightarrow>
       if c = CR then go rq_newline_1 q
       else if isDigit c then go st (q\<lparr>s_minor := add_digit (s_minor q) c\<rparr>)
       else fail st q
   | rq_newline_1 \<Rightarrow> if c = LF then go rq_line_start q else fail st q
   | _ \<Rightarrow> fail st q)"

text \<open>The header lines.\<close>

definition handle_headers :: "rq_state \<Rightarrow> server_request \<Rightarrow> char \<Rightarrow> rq_result" where
  "handle_headers st q c = (case st of
     rq_line_start \<Rightarrow>
       if c = CR then go rq_newline_3 q
       else if s_headers q \<noteq> [] \<and> (c = SP \<or> c = TAB) then go rq_lws q
       else if not_token c then fail st q
       else go rq_name (q\<lparr>s_headers := s_headers q @ [\<lparr>hname = [c], hvalue = []\<rparr>]\<rparr>)
   | rq_lws \<Rightarrow>
       if c = CR then go rq_newline_2 q
       else if c = SP \<or> c = TAB then go st q
       else if isControl c then fail st q
       else rmap (\<lambda>q1. (True, rq_value, q1)) (last_header (push_value c) q)
   | rq_name \<Rightarrow>
       if c = CHR '':'' then go rq_space q
       else if not_token c then fail st q
       else rmap (\<lambda>q1. (True, st, q1)) (last_header (push_name c) q)
   | rq_space \<Rightarrow> if c = SP then go rq_value q else fail st q
   | rq_value \<Rightarrow>
       if c = CR then go rq_newline_2 q
       else if isControl c then fail st q
       else rmap (\<lambda>q1. (True, st, q1)) (last_header (push_value c) q)
   | rq_newline_2 \<Rightarrow> if c = LF then go rq_line_start q else fail st q
   | _ \<Rightarrow> fail st q)"

text \<open>The end of the headers and the content. \<open>reset\<close> goes back to the first state.\<close>

definition handle_content :: "rq_state \<Rightarrow> server_request \<Rightarrow> char \<Rightarrow> rq_result" where
  "handle_content st q c = (case st of
     rq_newline_3 \<Rightarrow>
       if c = LF then
         (if hasHeader (s_headers q) ''Content-Length'' then go rq_content_start q
          else go rq_method_start (q\<lparr>s_finished := True\<rparr>))
       else fail st q
   | rq_content_start \<Rightarrow>
       if c = CR then go rq_newline_3 q else go rq_content (q\<lparr>s_content := s_content q @ [c]\<rparr>)
   | rq_content \<Rightarrow>
       if c = CR then go rq_newline_4 q else go st (q\<lparr>s_content := s_content q @ [c]\<rparr>)
   | rq_newline_4 \<Rightarrow>
       if c = LF then go rq_method_start (q\<lparr>s_finished := True\<rparr>) else fail st q
   | _ \<Rightarrow> fail st q)"

definition handleChar :: "rq_state \<Rightarrow> server_request \<Rightarrow> char \<Rightarrow> rq_result" where
  "handleChar st q c =
     (if st \<in> {rq_line_start, rq_lws, rq_name, rq_space, rq_value, rq_newline_2} then handle_headers st q c
      else if st \<in> {rq_newline_3, rq_content_start, rq_content, rq_newline_4} then handle_content st q c
      else handle_request_line st q c)"

text \<open>\<open>parse\<close>: the number of bytes read, 0 for an error. \<open>n\<close> is \<open>begin - old_b\<close>.\<close>

fun rq_loop :: "nat \<Rightarrow> rq_state \<Rightarrow> server_request \<Rightarrow> string \<Rightarrow> (nat \<times> rq_state \<times> server_request) result" where
  "rq_loop n st q [] = Inr (n, st, q)"
| "rq_loop n st q (c # cs) =
     rbind (handleChar st q c) (\<lambda>(ok, st1, q1).
       if \<not> ok then Inr (0, st1, q1)
       else if s_finished q1 then Inr (Suc n, st1, q1)
       else rq_loop (Suc n) st1 q1 cs)"

definition rq_parse :: "rq_state \<Rightarrow> server_request \<Rightarrow> string \<Rightarrow> (nat \<times> rq_state \<times> server_request) result" where
  "rq_parse st q bytes = rq_loop 0 st q bytes"

lemmas handle_defs = handleChar_def handle_request_line_def handle_headers_def handle_content_def
  last_header_def not_token_def

subsection \<open>No undefined behaviour\<close>

definition rq_inv :: "rq_state \<Rightarrow> server_request \<Rightarrow> bool" where
  "rq_inv st q \<longleftrightarrow> (st \<in> {rq_lws, rq_name, rq_space, rq_value} \<longrightarrow> s_headers q \<noteq> [])"

lemma handleChar_total:
  "rq_inv st q \<Longrightarrow> \<exists>ok st' q'. handleChar st q c = Inr (ok, st', q') \<and> rq_inv st' q'"
  by (cases st) (auto simp: handle_defs rq_inv_def rmap_def)

lemma rq_loop_total:
  "rq_inv st q \<Longrightarrow> \<exists>k st' q'. rq_loop n st q cs = Inr (k, st', q') \<and> rq_inv st' q' \<and> k \<le> n + length cs"
proof (induction cs arbitrary: n st q)
  case (Cons c cs)
  obtain ok st1 q1 where step: "handleChar st q c = Inr (ok, st1, q1)" "rq_inv st1 q1"
    using handleChar_total [OF Cons.prems] by blast
  then show ?case using Cons.IH [OF step(2), of "Suc n"] by auto
qed simp

subsection \<open>Runs of the machine\<close>

definition rq_runs :: "rq_state \<Rightarrow> server_request \<Rightarrow> string \<Rightarrow> rq_state \<Rightarrow> server_request \<Rightarrow> bool" where
  "rq_runs st q s st' q' \<longleftrightarrow>
     (\<forall>n t. rq_loop n st q (s @ t) = rq_loop (n + length s) st' q' t)"

lemma rq_runs_Nil [simp]: "rq_runs st q [] st q"
  by (simp add: rq_runs_def)

lemma rq_runs_append:
  "rq_runs st q s st1 q1 \<Longrightarrow> rq_runs st1 q1 t st2 q2 \<Longrightarrow> rq_runs st q (s @ t) st2 q2"
  by (simp add: rq_runs_def add.assoc)

lemma rq_runs_Cons:
  "handleChar st q c = Inr (True, st1, q1) \<Longrightarrow> \<not> s_finished q1 \<Longrightarrow> rq_runs st1 q1 s st2 q2
   \<Longrightarrow> rq_runs st q (c # s) st2 q2"
  by (simp add: rq_runs_def)

lemma rq_runs_parse: "rq_runs st q s st' q' \<Longrightarrow> rq_parse st q s = Inr (length s, st', q')"
  unfolding rq_runs_def rq_parse_def by (metis add_0 append_Nil2 rq_loop.simps(1))

lemma token_char: "is_token_char c \<Longrightarrow> \<not> not_token c"
  by (simp add: is_token_char_def not_token_def)

lemma rq_runs_method:
  assumes "list_all is_token_char s" and "\<not> s_finished q"
  shows "rq_runs rq_method q s rq_method (q\<lparr>s_method := s_method q @ s\<rparr>)"
  using assms
proof (induction s arbitrary: q)
  case Nil
  then show ?case by simp
next
  case (Cons c s)
  let ?q = "q\<lparr>s_method := s_method q @ [c]\<rparr>"
  have "handleChar rq_method q c = Inr (True, rq_method, ?q)"
    using Cons.prems token_char [of c] token_not_special [of c] by (simp add: handleChar_def handle_request_line_def)
  moreover have "rq_runs rq_method ?q s rq_method (?q\<lparr>s_method := s_method ?q @ s\<rparr>)"
    using Cons.prems by (intro Cons.IH) simp_all
  ultimately show ?case using Cons.prems by (auto intro: rq_runs_Cons)
qed

definition uri_ok :: "string \<Rightarrow> bool" where
  "uri_ok s \<longleftrightarrow> list_all (\<lambda>c. \<not> isControl c \<and> c \<noteq> SP) s"

lemma rq_runs_uri:
  assumes "uri_ok s" and "\<not> s_finished q"
  shows "rq_runs rq_uri q s rq_uri (q\<lparr>s_uri := s_uri q @ s\<rparr>)"
  using assms
proof (induction s arbitrary: q)
  case Nil
  then show ?case by simp
next
  case (Cons c s)
  let ?q = "q\<lparr>s_uri := s_uri q @ [c]\<rparr>"
  have "handleChar rq_uri q c = Inr (True, rq_uri, ?q)"
    using Cons.prems by (simp add: uri_ok_def handleChar_def handle_request_line_def)
  moreover have "rq_runs rq_uri ?q s rq_uri (?q\<lparr>s_uri := s_uri ?q @ s\<rparr>)"
    using Cons.prems by (intro Cons.IH) (simp_all add: uri_ok_def)
  ultimately show ?case using Cons.prems by (auto intro: rq_runs_Cons)
qed

text \<open>The request line as the client writes it.\<close>

definition request_line :: "string \<Rightarrow> string \<Rightarrow> string" where
  "request_line meth uri = meth @ '' '' @ uri @ '' HTTP/1.1'' @ [CR, LF]"

definition method_ok :: "string \<Rightarrow> bool" where
  "method_ok s \<longleftrightarrow> s \<noteq> [] \<and> list_all is_token_char s"

lemma rq_runs_version:
  assumes "\<not> s_finished q"
  shows "rq_runs rq_uri q ('' HTTP/1.1'' @ [CR, LF]) rq_line_start (q\<lparr>s_major := 1, s_minor := 1\<rparr>)"
proof -
  have "add_digit 0 CHR ''1'' = 1" by (simp add: add_digit_def schar_def)
  with assms show ?thesis
    using isDigit_digits
    by (simp add: rq_runs_def handleChar_def handle_request_line_def handle_headers_def)
qed

lemma rq_runs_request_line:
  assumes "method_ok meth" and "uri_ok uri"
  shows "rq_runs rq_method_start new_request (request_line meth uri) rq_line_start
     (new_request\<lparr>s_method := meth, s_uri := uri, s_major := 1, s_minor := 1\<rparr>)"
proof -
  from assms(1) obtain c s where m: "meth = c # s" "is_token_char c" "list_all is_token_char s"
    by (cases meth) (auto simp: method_ok_def)
  let ?q1 = "new_request\<lparr>s_method := [c]\<rparr>"
  let ?q2 = "new_request\<lparr>s_method := c # s\<rparr>"
  let ?q3 = "new_request\<lparr>s_method := c # s, s_uri := uri\<rparr>"
  have nf: "\<not> s_finished ?q1" "\<not> s_finished ?q2" "\<not> s_finished ?q3" by (simp_all add: new_request_def)
  have "rq_runs rq_method_start new_request [c] rq_method ?q1"
    using m token_char [of c] nf
    by (simp add: rq_runs_def handleChar_def handle_request_line_def new_request_def)
  moreover have "rq_runs rq_method ?q1 s rq_method ?q2"
    using rq_runs_method [OF m(3) nf(1)] by (simp add: new_request_def)
  moreover have "rq_runs rq_method ?q2 [SP] rq_uri ?q2"
    using nf(2) by (simp add: rq_runs_def handleChar_def handle_request_line_def)
  moreover have "rq_runs rq_uri ?q2 uri rq_uri ?q3"
    using rq_runs_uri [OF assms(2) nf(2)] by (simp add: new_request_def)
  moreover have "rq_runs rq_uri ?q3 ('' HTTP/1.1'' @ [CR, LF]) rq_line_start
      (?q3\<lparr>s_major := 1, s_minor := 1\<rparr>)"
    by (rule rq_runs_version [OF nf(3)])
  ultimately have "rq_runs rq_method_start new_request
      ([c] @ (s @ ([SP] @ (uri @ ('' HTTP/1.1'' @ [CR, LF]))))) rq_line_start
      (?q3\<lparr>s_major := 1, s_minor := 1\<rparr>)"
    by (blast intro: rq_runs_append)
  with m show ?thesis by (simp add: request_line_def new_request_def)
qed

text \<open>The header lines: \<open>opened hs h\<close> is a request whose last header is being read.\<close>

lemma rq_runs_name:
  assumes "list_all is_token_char s" and "\<not> s_finished q" and "s_headers q = hs @ [\<lparr>hname = n, hvalue = []\<rparr>]"
  shows "rq_runs rq_name q s rq_name (q\<lparr>s_headers := hs @ [\<lparr>hname = n @ s, hvalue = []\<rparr>]\<rparr>)"
  using assms
proof (induction s arbitrary: q n)
  case Nil
  then have "q\<lparr>s_headers := hs @ [\<lparr>hname = n @ [], hvalue = []\<rparr>]\<rparr> = q" by simp
  then show ?case by simp
next
  case (Cons c s)
  let ?q = "q\<lparr>s_headers := hs @ [\<lparr>hname = n @ [c], hvalue = []\<rparr>]\<rparr>"
  have "handleChar rq_name q c = Inr (True, rq_name, ?q)"
    using Cons.prems token_char [of c] token_not_special [of c]
    by (simp add: handleChar_def handle_headers_def last_header_def rmap_def)
  moreover have "rq_runs rq_name ?q s rq_name (?q\<lparr>s_headers := hs @ [\<lparr>hname = (n @ [c]) @ s, hvalue = []\<rparr>]\<rparr>)"
    using Cons.prems by (intro Cons.IH) simp_all
  ultimately show ?case using Cons.prems by (auto intro: rq_runs_Cons)
qed

lemma rq_runs_value:
  assumes "list_all (\<lambda>c. \<not> isControl c) s" and "\<not> s_finished q" and "s_headers q = hs @ [\<lparr>hname = n, hvalue = v\<rparr>]"
  shows "rq_runs rq_value q s rq_value (q\<lparr>s_headers := hs @ [\<lparr>hname = n, hvalue = v @ s\<rparr>]\<rparr>)"
  using assms
proof (induction s arbitrary: q v)
  case Nil
  then have "q\<lparr>s_headers := hs @ [\<lparr>hname = n, hvalue = v @ []\<rparr>]\<rparr> = q" by simp
  then show ?case by simp
next
  case (Cons c s)
  let ?q = "q\<lparr>s_headers := hs @ [\<lparr>hname = n, hvalue = v @ [c]\<rparr>]\<rparr>"
  have "handleChar rq_value q c = Inr (True, rq_value, ?q)"
    using Cons.prems value_not_end [of c]
    by (simp add: handleChar_def handle_headers_def last_header_def rmap_def)
  moreover have "rq_runs rq_value ?q s rq_value (?q\<lparr>s_headers := hs @ [\<lparr>hname = n, hvalue = (v @ [c]) @ s\<rparr>]\<rparr>)"
    using Cons.prems by (intro Cons.IH) simp_all
  ultimately show ?case using Cons.prems by (auto intro: rq_runs_Cons)
qed

lemma rq_runs_header:
  assumes "header_name_ok (hname h)" and "header_value_ok (hvalue h)" and nf: "\<not> s_finished q"
  shows "rq_runs rq_line_start q (print_header h) rq_line_start (q\<lparr>s_headers := s_headers q @ [h]\<rparr>)"
proof -
  from assms(1) obtain c s where name: "hname h = c # s" "is_token_char c" "list_all is_token_char s"
    by (cases "hname h") (auto simp: header_name_ok_def)
  let ?h = "\<lambda>n v. q\<lparr>s_headers := s_headers q @ [\<lparr>hname = n, hvalue = v\<rparr>]\<rparr>"
  have "rq_runs rq_line_start q [c] rq_name (?h [c] [])"
    using token_char [OF name(2)] token_not_special [OF name(2)] nf
    by (simp add: rq_runs_def handleChar_def handle_headers_def)
  moreover have "rq_runs rq_name (?h [c] []) s rq_name (?h (c # s) [])"
    using rq_runs_name [OF name(3), of "?h [c] []" "s_headers q" "[c]"] nf by simp
  moreover have "rq_runs rq_name (?h (c # s) []) '': '' rq_value (?h (c # s) [])"
    using nf by (simp add: rq_runs_def handleChar_def handle_headers_def)
  moreover have "rq_runs rq_value (?h (c # s) []) (hvalue h) rq_value (?h (c # s) (hvalue h))"
    using rq_runs_value [of "hvalue h" "?h (c # s) []" "s_headers q" "c # s" "[]"] nf assms(2)
    by (simp add: header_value_ok_def)
  moreover have "rq_runs rq_value (?h (c # s) (hvalue h)) [CR, LF] rq_line_start (?h (c # s) (hvalue h))"
    using nf by (simp add: rq_runs_def handleChar_def handle_headers_def)
  ultimately have "rq_runs rq_line_start q ([c] @ (s @ ('': '' @ (hvalue h @ [CR, LF]))))
      rq_line_start (?h (c # s) (hvalue h))"
    by (blast intro: rq_runs_append)
  moreover have "\<lparr>hname = c # s, hvalue = hvalue h\<rparr> = h" using name(1) by (cases h) simp
  ultimately show ?thesis using name(1) by (simp add: print_header_def)
qed

lemma rq_runs_headers:
  assumes "headers_ok hs" and "\<not> s_finished q"
  shows "rq_runs rq_line_start q (header_lines hs) rq_line_start (q\<lparr>s_headers := s_headers q @ hs\<rparr>)"
  using assms
proof (induction hs arbitrary: q)
  case Nil
  then show ?case by (simp add: header_lines_def)
next
  case (Cons h hs)
  have "rq_runs rq_line_start q (print_header h) rq_line_start (q\<lparr>s_headers := s_headers q @ [h]\<rparr>)"
    using Cons.prems by (intro rq_runs_header) (simp_all add: headers_ok_def)
  moreover have "rq_runs rq_line_start (q\<lparr>s_headers := s_headers q @ [h]\<rparr>) (header_lines hs) rq_line_start
     (q\<lparr>s_headers := s_headers q @ h # hs\<rparr>)"
    using Cons.IH [of "q\<lparr>s_headers := s_headers q @ [h]\<rparr>"] Cons.prems by (simp add: headers_ok_def)
  ultimately show ?case
    using rq_runs_append by (fastforce simp: header_lines_def)
qed

lemma rq_runs_content:
  assumes "list_all (\<lambda>c. c \<noteq> CR) s" and "\<not> s_finished q"
  shows "rq_runs rq_content q s rq_content (q\<lparr>s_content := s_content q @ s\<rparr>)"
  using assms
proof (induction s arbitrary: q)
  case Nil
  then show ?case by simp
next
  case (Cons c s)
  let ?q = "q\<lparr>s_content := s_content q @ [c]\<rparr>"
  have "handleChar rq_content q c = Inr (True, rq_content, ?q)"
    using Cons.prems by (simp add: handleChar_def handle_content_def)
  moreover have "rq_runs rq_content ?q s rq_content (?q\<lparr>s_content := s_content ?q @ s\<rparr>)"
    using Cons.prems by (intro Cons.IH) simp_all
  ultimately show ?case using Cons.prems by (auto intro: rq_runs_Cons)
qed

text \<open>A content up to its line end.\<close>

lemma rq_loop_content:
  assumes "list_all (\<lambda>c. c \<noteq> CR) s" and "s \<noteq> []" and nf: "\<not> s_finished q"
  shows "rq_loop n rq_content_start q (s @ CR # LF # rest) =
     Inr (n + length s + 2, rq_method_start, q\<lparr>s_content := s_content q @ s, s_finished := True\<rparr>)"
proof -
  from assms obtain c t where s: "s = c # t" "c \<noteq> CR" "list_all (\<lambda>c. c \<noteq> CR) t" by (cases s) auto
  let ?q1 = "q\<lparr>s_content := s_content q @ [c]\<rparr>" and ?q2 = "q\<lparr>s_content := s_content q @ s\<rparr>"
  have "rq_runs rq_content_start q [c] rq_content ?q1"
    using s(2) nf by (simp add: rq_runs_def handleChar_def handle_content_def)
  moreover have "rq_runs rq_content ?q1 t rq_content ?q2"
    using rq_runs_content [OF s(3), of ?q1] nf s(1) by simp
  ultimately have "rq_runs rq_content_start q ([c] @ t) rq_content ?q2" by (rule rq_runs_append)
  then have "rq_loop n rq_content_start q (s @ CR # LF # rest) =
      rq_loop (n + length s) rq_content ?q2 (CR # LF # rest)"
    using s(1) unfolding rq_runs_def by simp
  with nf show ?thesis by (simp add: handleChar_def handle_content_def)
qed

lemma rq_loop_plain:
  assumes "\<not> hasHeader (s_headers q) ''Content-Length''" and "\<not> s_finished q"
  shows "rq_loop n rq_line_start q (CR # LF # rest) =
     Inr (n + 2, rq_method_start, q\<lparr>s_finished := True\<rparr>)"
  using assms by (simp add: handleChar_def handle_headers_def handle_content_def)

lemma rq_runs_blank_line:
  assumes "hasHeader (s_headers q) ''Content-Length''" and "\<not> s_finished q"
  shows "rq_runs rq_line_start q [CR, LF] rq_content_start q"
    and "rq_runs rq_content_start q [CR, LF] rq_content_start q"
  using assms by (simp_all add: rq_runs_def handleChar_def handle_headers_def handle_content_def)

subsection \<open>The client's requests\<close>

definition content_header :: "string \<Rightarrow> header" where
  "content_header c = \<lparr>hname = ''Content-Length'', hvalue = dec (length c)\<rparr>"

definition wire_headers :: "request \<Rightarrow> header list" where
  "wire_headers q = q_headers q @ (case q_content q of None \<Rightarrow> [] | Some c \<Rightarrow> [content_header c])"

lemma request_text_shape:
  "request_text q = request_line (q_method q) (q_uri q) @ header_lines (wire_headers q) @ [CR, LF]
     @ (case q_content q of None \<Rightarrow> [] | Some c \<Rightarrow> c @ [CR, LF])"
  by (simp add: request_text_def request_line_def header_lines_def wire_headers_def content_header_def
      print_header_def split: option.splits)

definition request_ok :: "request \<Rightarrow> bool" where
  "request_ok q \<longleftrightarrow> method_ok (q_method q) \<and> uri_ok (q_uri q) \<and> headers_ok (q_headers q)"

definition parsed_request :: "request \<Rightarrow> string \<Rightarrow> server_request" where
  "parsed_request q content = \<lparr>s_method = q_method q, s_uri = q_uri q, s_major = 1, s_minor = 1,
     s_finished = False, s_headers = wire_headers q, s_content = content\<rparr>"

lemma wire_headers_ok:
  assumes "request_ok q" and "ham_request_get_data q = Inr data"
  shows "headers_ok (wire_headers q)"
proof (cases "q_content q")
  case None
  with assms(1) show ?thesis by (simp add: wire_headers_def request_ok_def)
next
  case (Some c)
  then have "length c < 10 ^ 9"
    using assms(2) get_data_value [of q] by (auto split: if_splits)
  then have "header_value_ok (dec (length c))" by (rule dec_header_value)
  moreover have "header_name_ok ''Content-Length''" by (simp add: sample_defs)
  ultimately show ?thesis
    using Some assms(1) by (simp add: wire_headers_def request_ok_def headers_ok_def content_header_def)
qed

lemma get_data_text: "ham_request_get_data q = Inr data \<Longrightarrow> data = request_text q"
  by (auto simp: ham_request_get_data_def split: if_splits)

lemma rq_runs_head:
  assumes "request_ok q" and "ham_request_get_data q = Inr data"
  shows "rq_runs rq_method_start new_request
     (request_line (q_method q) (q_uri q) @ header_lines (wire_headers q)) rq_line_start
     (parsed_request q [])"
proof -
  let ?q = "new_request\<lparr>s_method := q_method q, s_uri := q_uri q, s_major := 1, s_minor := 1\<rparr>"
  have "rq_runs rq_method_start new_request (request_line (q_method q) (q_uri q)) rq_line_start ?q"
    using assms(1) by (intro rq_runs_request_line) (simp_all add: request_ok_def)
  moreover have "rq_runs rq_line_start ?q (header_lines (wire_headers q)) rq_line_start
      (?q\<lparr>s_headers := s_headers ?q @ wire_headers q\<rparr>)"
    by (rule rq_runs_headers [OF wire_headers_ok [OF assms]]) (simp add: new_request_def)
  ultimately show ?thesis
    using rq_runs_append by (fastforce simp: new_request_def parsed_request_def)
qed

lemma hasHeader_content: "q_content q = Some c \<Longrightarrow> hasHeader (wire_headers q) ''Content-Length''"
  by (simp add: hasHeader_def wire_headers_def content_header_def)

lemma request_parsed:
  assumes "ham_request_get_data q = Inr data" and "request_ok q"
    and "case q_content q of None \<Rightarrow> \<not> hasHeader (q_headers q) ''Content-Length''
         | Some c \<Rightarrow> c \<noteq> [] \<and> list_all (\<lambda>c. c \<noteq> CR) c"
  shows "rq_parse rq_method_start new_request (data @ rest) =
    Inr (length data, rq_method_start,
      (parsed_request q (case q_content q of None \<Rightarrow> [] | Some c \<Rightarrow> c))\<lparr>s_finished := True\<rparr>)"
proof -
  let ?head = "request_line (q_method q) (q_uri q) @ header_lines (wire_headers q)"
  have run: "rq_loop 0 rq_method_start new_request (?head @ t) =
      rq_loop (length ?head) rq_line_start (parsed_request q []) t" for t
    using rq_runs_head [OF assms(2,1)] unfolding rq_runs_def by simp
  have nf: "\<not> s_finished (parsed_request q [])" "s_content (parsed_request q []) = []"
    "s_headers (parsed_request q []) = wire_headers q" by (simp_all add: parsed_request_def)
  have data: "data = ?head @ [CR, LF] @ (case q_content q of None \<Rightarrow> [] | Some c \<Rightarrow> c @ [CR, LF])"
    using get_data_text [OF assms(1)] request_text_shape [of q] by simp
  show ?thesis
  proof (cases "q_content q")
    case None
    then have "\<not> hasHeader (wire_headers q) ''Content-Length''"
      using assms(3) by (simp add: wire_headers_def)
    with rq_loop_plain [of "parsed_request q []" "length ?head" rest] run None data nf
    show ?thesis by (simp add: rq_parse_def)
  next
    case (Some c)
    have "rq_loop (length ?head) rq_line_start (parsed_request q []) ([CR, LF] @ c @ CR # LF # rest) =
        rq_loop (length ?head + 2) rq_content_start (parsed_request q []) (c @ CR # LF # rest)"
      using rq_runs_blank_line(1) [of "parsed_request q []"] nf hasHeader_content [OF Some]
      unfolding rq_runs_def by simp
    also have "\<dots> = Inr (length ?head + 2 + length c + 2, rq_method_start,
        (parsed_request q [])\<lparr>s_content := c, s_finished := True\<rparr>)"
      using rq_loop_content [of c "parsed_request q []"] nf assms(3) Some by simp
    finally have "rq_loop 0 rq_method_start new_request (data @ rest) =
        Inr (length data, rq_method_start, (parsed_request q [])\<lparr>s_content := c, s_finished := True\<rparr>)"
      using run [of "[CR, LF] @ c @ CR # LF # rest"] data Some by simp
    with Some show ?thesis by (simp add: rq_parse_def parsed_request_def)
  qed
qed

subsection \<open>The properties\<close>

text \<open>
  C10. What \<open>ham_request_get_data\<close> writes, the server's parser reads: method, URI, version, headers
  with the content length the client appends, and the content. All bytes of the request are counted,
  and the parser is at its start again.
\<close>

theorem client_request_reaches_server:
  assumes "ham_request_get_data q = Inr data" and "request_ok q"
    and "case q_content q of None \<Rightarrow> \<not> hasHeader (q_headers q) ''Content-Length''
         | Some c \<Rightarrow> c \<noteq> [] \<and> list_all (\<lambda>c. c \<noteq> CR) c"
  shows "rq_parse rq_method_start new_request (data @ rest) =
    Inr (length data, rq_method_start,
      (parsed_request q (case q_content q of None \<Rightarrow> [] | Some c \<Rightarrow> c))\<lparr>s_finished := True\<rparr>)"
  by (rule request_parsed [OF assms])

definition request_get :: "string \<Rightarrow> request" where
  "request_get uri = \<lparr>q_method = ''GET'', q_uri = uri, q_content = None, q_content_type = None, q_headers = []\<rparr>"

lemma request_get_ok: "request_ok (request_get ''/modules'')"
  by (simp add: request_get_def request_ok_def method_ok_def uri_ok_def sample_defs)

theorem client_request_reaches_server_witness:
  "rq_parse rq_method_start new_request (request_text (request_get ''/modules'') @ ''GET'') =
    Inr (length (request_text (request_get ''/modules'')), rq_method_start,
      (parsed_request (request_get ''/modules'') [])\<lparr>s_finished := True\<rparr>)"
  using client_request_reaches_server [of "request_get ''/modules''" _ "''GET''"] request_get_ok
    get_data_value [of "request_get ''/modules''"]
  by (simp add: request_get_def hasHeader_def)

text \<open>
  A request with an empty content is never answered as it stands: after all its bytes the
  request is not finished, and the first line the client sends next becomes its content.
\<close>

theorem empty_content_swallows_next_line:
  assumes "ham_request_get_data q = Inr data" and "request_ok q" and "q_content q = Some []"
    and "list_all (\<lambda>c. c \<noteq> CR) s" and "s \<noteq> []"
  shows "rq_parse rq_method_start new_request data =
      Inr (length data, rq_content_start, parsed_request q [])
    \<and> \<not> s_finished (parsed_request q [])
    \<and> rq_parse rq_content_start (parsed_request q []) (s @ [CR, LF] @ rest) =
      Inr (length s + 2, rq_method_start, (parsed_request q s)\<lparr>s_finished := True\<rparr>)"
proof -
  let ?head = "request_line (q_method q) (q_uri q) @ header_lines (wire_headers q)"
  have data: "data = ?head @ [CR, LF, CR, LF]"
    using get_data_text [OF assms(1)] request_text_shape [of q] assms(3) by simp
  have q: "hasHeader (s_headers (parsed_request q [])) ''Content-Length''"
    "\<not> s_finished (parsed_request q [])" "s_content (parsed_request q []) = []"
    using hasHeader_content [OF assms(3)] by (simp_all add: parsed_request_def)
  note blank = rq_runs_blank_line [OF q(1,2)]
  have "rq_runs rq_method_start new_request (?head @ ([CR, LF] @ [CR, LF])) rq_content_start
      (parsed_request q [])"
    by (rule rq_runs_append [OF rq_runs_head [OF assms(2,1)] rq_runs_append [OF blank]])
  then have "rq_parse rq_method_start new_request data =
      Inr (length data, rq_content_start, parsed_request q [])"
    using rq_runs_parse data by fastforce
  moreover have "rq_parse rq_content_start (parsed_request q []) (s @ [CR, LF] @ rest) =
      Inr (length s + 2, rq_method_start, (parsed_request q s)\<lparr>s_finished := True\<rparr>)"
    using rq_loop_content [OF assms(4,5) q(2), of 0 rest] q(3)
    by (simp add: rq_parse_def parsed_request_def)
  ultimately show ?thesis using q(2) by blast
qed

theorem empty_content_swallows_next_line_witness:
  "rq_parse rq_content_start (parsed_request ((request_get ''/modules'')\<lparr>q_content := Some []\<rparr>) [])
      (''GET / HTTP/1.1'' @ [CR, LF] @ [CR, LF]) =
    Inr (16, rq_method_start,
      (parsed_request ((request_get ''/modules'')\<lparr>q_content := Some []\<rparr>) ''GET / HTTP/1.1'')\<lparr>s_finished := True\<rparr>)"
proof -
  let ?q = "(request_get ''/modules'')\<lparr>q_content := Some []\<rparr>"
  have "ham_request_get_data ?q = Inr (request_text ?q)"
    using get_data_value [of ?q] by simp
  moreover have "request_ok ?q" using request_get_ok by (simp add: request_ok_def)
  ultimately show ?thesis
    using empty_content_swallows_next_line [of ?q _ "''GET / HTTP/1.1''" "[CR, LF]"] by simp
qed

text \<open>
  C27. The server's parser has no undefined behaviour: whatever bytes arrive, in however many pieces,
  it returns, with a count within the bytes given and its invariant (there is a last header whenever
  one is extended) intact.
\<close>

theorem request_parser_is_safe:
  assumes "rq_inv st q"
  shows "\<exists>k st' q'. rq_parse st q bytes = Inr (k, st', q') \<and> rq_inv st' q' \<and> k \<le> length bytes"
  using rq_loop_total [OF assms, of 0 bytes] by (simp add: rq_parse_def)

theorem request_parser_is_safe_witness:
  "\<exists>k st' q'. rq_parse rq_method_start new_request ''G /'' = Inr (k, st', q') \<and> k \<le> 3"
  using request_parser_is_safe [of rq_method_start new_request "''G /''"]
  by (auto simp: rq_inv_def)

end
