(* ===== verification/Services.thy ===== *)
theory Services
  imports ServerParser
begin

text \<open>
  The services of the client library: \<open>library/callinfo.c\<close>, \<open>dxcluster.c\<close>, \<open>dxcc.c\<close>, \<open>hamlib.c\<close>,
  \<open>logbook.c\<close> and \<open>qrz.c\<close>.

  Each service sends requests and passes a closure to the handler of their replies. Closures are
  objects in a store \<open>v_closures\<close>, freed by being removed from it; using a freed one is a fault. The
  argument \<open>p\<close> of the functions that allocate a closure is its address. The copy of the call that the
  call information keeps is never read and left out. What the client is told is
  recorded in \<open>v_log\<close>: calls of its handlers and signals, whose data may be a null pointer. The code
  that the client runs then is not followed.

  The response functions are what the connection's loop calls; the order in which it calls them is
  the subject of the theory of the connection.
\<close>

datatype service =
    S_callinfo | S_dxcluster | S_dxcc | S_frequency_set | S_frequency_fetched
  | S_logbook_fetch | S_logbook_add | S_logbook_remove | S_qrz | S_username | S_qrz_register
  | S_register | S_login1 | S_login2

record ('g, 'v) closure =
  cl_requests :: int
  cl_data :: "string option"
  cl_handler :: "'g option"
  cl_ui_data :: 'v

datatype ('g, 'v) outcome =
    Notified 'g "string option" int 'v
  | Signalled string "string option" int

record ('g, 'v) services =
  v_conn :: "(service, nat option) connection"
  v_closures :: "nat \<Rightarrow> ('g, 'v) closure option"
  v_log :: "('g, 'v) outcome list"

text \<open>\<open>ModuleType\<close>.\<close>

definition CALLINFO :: int where
  "CALLINFO = 1"

definition DXCLUSTER :: int where
  "DXCLUSTER = 2"

definition notify :: "'g option \<Rightarrow> string option \<Rightarrow> int \<Rightarrow> 'v \<Rightarrow> ('g, 'v) outcome list" where
  "notify h d e u = (case h of None \<Rightarrow> [] | Some g \<Rightarrow> [Notified g d e u])"

definition log_outcomes :: "('g, 'v) outcome list \<Rightarrow> ('g, 'v) services \<Rightarrow> ('g, 'v) services" where
  "log_outcomes os V = V\<lparr>v_log := v_log V @ os\<rparr>"

text \<open>\<open>ham_connection_send_destroy\<close> with a handler of a service.\<close>

type_synonym reaction' = "(service, nat option) reaction"

definition send_request ::
  "reaction' \<Rightarrow> string option \<Rightarrow> string \<Rightarrow> string option \<Rightarrow> string option \<Rightarrow> (string \<times> string) list
   \<Rightarrow> service \<Rightarrow> nat option \<Rightarrow> ('g, 'v) services \<Rightarrow> ('g, 'v) services result" where
  "send_request react uri meth content content_type headers s data V =
     (case uri of
        None \<Rightarrow> Inl Null_deref
      | Some uri \<Rightarrow>
          rbind (ham_request_new True True uri meth content content_type) (\<lambda>q. case q of
            None \<Rightarrow> Inl Null_deref
          | Some q \<Rightarrow>
              (let q1 = fold (\<lambda>(n, v). ham_request_add_header True n v) headers q
               in rmap (\<lambda>c. V\<lparr>v_conn := c\<rparr>)
                    (ham_connection_send react True q1 (Some (Client_handler s)) data (v_conn V)))))"

definition connection_modules :: "(service, nat option) connection \<Rightarrow> ham_module list" where
  "connection_modules c = map hdata (all_items (c_modules c))"

definition new_closure :: "'g option \<Rightarrow> 'v \<Rightarrow> ('g, 'v) closure" where
  "new_closure h u = \<lparr>cl_requests = 0, cl_data = None, cl_handler = h, cl_ui_data = u\<rparr>"

definition add_closure :: "nat \<Rightarrow> ('g, 'v) closure \<Rightarrow> ('g, 'v) services \<Rightarrow> ('g, 'v) services" where
  "add_closure p k V = V\<lparr>v_closures := (v_closures V)(p := Some k)\<rparr>"

definition free_closure :: "nat \<Rightarrow> ('g, 'v) services \<Rightarrow> ('g, 'v) services" where
  "free_closure p V = V\<lparr>v_closures := (v_closures V)(p := None)\<rparr>"

subsection \<open>Call information and the DX cluster\<close>

text \<open>The loop over the modules: each module of the type is sent a request, and counted before.\<close>

fun ask_modules ::
  "reaction' \<Rightarrow> int \<Rightarrow> string \<Rightarrow> string option \<Rightarrow> string option \<Rightarrow> service \<Rightarrow> nat
   \<Rightarrow> ham_module list \<Rightarrow> ('g, 'v) services \<Rightarrow> ('g, 'v) services result" where
  "ask_modules react ty meth content content_type s p [] V = Inr V"
| "ask_modules react ty meth content content_type s p (m # ms) V =
     (if m_type m = ty then
        (case v_closures V p of
           None \<Rightarrow> Inl Dangling
         | Some k \<Rightarrow>
             rbind (send_request react (m_uri m) meth content content_type [] s (Some p)
                 (add_closure p (k\<lparr>cl_requests := cl_requests k + 1\<rparr>) V))
               (\<lambda>V1. ask_modules react ty meth content content_type s p ms V1))
      else ask_modules react ty meth content content_type s p ms V)"

definition ham_callinfo_fetch ::
  "reaction' \<Rightarrow> nat \<Rightarrow> string \<Rightarrow> 'g option \<Rightarrow> 'v \<Rightarrow> ('g, 'v) services \<Rightarrow> ('g, 'v) services result" where
  "ham_callinfo_fetch react p call handler ui_data V =
     ask_modules react CALLINFO ''POST'' (Some call) (Some ''hamlog'') S_callinfo p
       (connection_modules (v_conn V)) (add_closure p (new_closure handler ui_data) V)"

definition ham_callinfo_response ::
  "cbuf \<Rightarrow> cbuf \<Rightarrow> reply \<Rightarrow> nat \<Rightarrow> ('g, 'v) services \<Rightarrow> ('g, 'v) services result" where
  "ham_callinfo_response junk1 junk2 r p V = (case v_closures V p of
     None \<Rightarrow> Inl Dangling
   | Some k \<Rightarrow>
      rbind (if ham_reply_get_status r = 200 then
               rbind (ham_reply_get_content r) (\<lambda>content. case cl_data k of
                 None \<Rightarrow> Inr (Some content)
               | Some d \<Rightarrow> rmap Some (ham_csv_merge junk1 junk2 d content))
             else Inr (cl_data k)) (\<lambda>data.
        let k1 = k\<lparr>cl_requests := cl_requests k - 1, cl_data := data\<rparr>
        in if cl_requests k1 = 0 then
             Inr (free_closure p (case cl_data k1 of
                 None \<Rightarrow> V
               | Some d \<Rightarrow> log_outcomes (notify (cl_handler k1) (Some d) 0 (cl_ui_data k1)
                    @ [Signalled ''callinfo-fetched'' (Some d) 0]) V))
           else Inr (add_closure p k1 V)))"

definition ham_dxcluster_fetch ::
  "reaction' \<Rightarrow> nat \<Rightarrow> 'g option \<Rightarrow> 'v \<Rightarrow> ('g, 'v) services \<Rightarrow> ('g, 'v) services result" where
  "ham_dxcluster_fetch react p handler ui_data V =
     ask_modules react DXCLUSTER ''GET'' None None S_dxcluster p
       (connection_modules (v_conn V)) (add_closure p (new_closure handler ui_data) V)"

text \<open>The first content is kept, those of later replies are ignored.\<close>

definition ham_dxcluster_response ::
  "reply \<Rightarrow> nat \<Rightarrow> ('g, 'v) services \<Rightarrow> ('g, 'v) services result" where
  "ham_dxcluster_response r p V = (case v_closures V p of
     None \<Rightarrow> Inl Dangling
   | Some k \<Rightarrow>
      rbind (if ham_reply_get_status r = 200 then
               (case cl_data k of
                 None \<Rightarrow> rmap Some (ham_reply_get_content r)
               | Some d \<Rightarrow> Inr (Some d))
             else Inr (cl_data k)) (\<lambda>data.
        let k1 = k\<lparr>cl_requests := cl_requests k - 1, cl_data := data\<rparr>
        in if cl_requests k1 = 0 then
             Inr (free_closure p (log_outcomes (notify (cl_handler k1) (cl_data k1) 0 (cl_ui_data k1)
                    @ [Signalled ''dxcluster-fetched'' (cl_data k1) 0]) V))
           else Inr (add_closure p k1 V)))"

subsection \<open>Services with one request\<close>

definition has_module :: "('g, 'v) services \<Rightarrow> string \<Rightarrow> bool result" where
  "has_module V name = rmap (\<lambda>m. m \<noteq> None) (ham_connection_get_module (v_conn V) name)"

text \<open>The handler and the signal get the content, and an error for every status but 200.\<close>

definition closure_response ::
  "string \<Rightarrow> reply \<Rightarrow> nat \<Rightarrow> ('g, 'v) services \<Rightarrow> ('g, 'v) services result" where
  "closure_response signal r p V = (case v_closures V p of
     None \<Rightarrow> Inl Dangling
   | Some k \<Rightarrow>
      rmap (\<lambda>content.
        let err = (if ham_reply_get_status r \<noteq> 200 then 1 else 0)
        in free_closure p (log_outcomes (notify (cl_handler k) (Some content) err (cl_ui_data k)
             @ [Signalled signal (Some content) err]) V))
        (ham_reply_get_content r))"

text \<open>A request with a closure, for a module that must be there.\<close>

definition module_request ::
  "reaction' \<Rightarrow> string \<Rightarrow> string \<Rightarrow> string option \<Rightarrow> service \<Rightarrow> nat \<Rightarrow> 'g option \<Rightarrow> 'v
   \<Rightarrow> ('g, 'v) services \<Rightarrow> ('g, 'v) services result" where
  "module_request react uri meth content s p handler ui_data V =
     rbind (has_module V uri) (\<lambda>found.
       if \<not> found then Inr V
       else send_request react (Some uri) meth content (Some ''hamlog'') [] s (Some p)
         (add_closure p (new_closure handler ui_data) V))"

definition ham_dxcc_response :: "reply \<Rightarrow> nat \<Rightarrow> ('g, 'v) services \<Rightarrow> ('g, 'v) services result" where
  "ham_dxcc_response = closure_response ''dxcc-fetched''"

definition ham_dxcc_fetch ::
  "reaction' \<Rightarrow> nat \<Rightarrow> string \<Rightarrow> 'g option \<Rightarrow> 'v \<Rightarrow> ('g, 'v) services \<Rightarrow> ('g, 'v) services result" where
  "ham_dxcc_fetch react p call handler ui_data V =
     module_request react ''/dxcc'' ''POST'' (Some call) S_dxcc p handler ui_data V"

definition ham_hamlib_frequency_set_response ::
  "reply \<Rightarrow> nat \<Rightarrow> ('g, 'v) services \<Rightarrow> ('g, 'v) services result" where
  "ham_hamlib_frequency_set_response = closure_response ''hamlib-frequency-set''"

definition ham_hamlib_set_frequency ::
  "reaction' \<Rightarrow> nat \<Rightarrow> string \<Rightarrow> 'g option \<Rightarrow> 'v \<Rightarrow> ('g, 'v) services \<Rightarrow> ('g, 'v) services result" where
  "ham_hamlib_set_frequency react p freq handler ui_data V =
     module_request react ''/hamlib'' ''POST'' (Some freq) S_frequency_set p handler ui_data V"

definition ham_hamlib_frequency_fetch_response ::
  "reply \<Rightarrow> nat \<Rightarrow> ('g, 'v) services \<Rightarrow> ('g, 'v) services result" where
  "ham_hamlib_frequency_fetch_response = closure_response ''hamlib-frequency-fetched''"

definition ham_hamlib_fetch_frequency ::
  "reaction' \<Rightarrow> nat \<Rightarrow> 'g option \<Rightarrow> 'v \<Rightarrow> ('g, 'v) services \<Rightarrow> ('g, 'v) services result" where
  "ham_hamlib_fetch_frequency react p handler ui_data V =
     module_request react ''/hamlib'' ''GET'' None S_frequency_fetched p handler ui_data V"

subsection \<open>The logbook\<close>

definition ham_logbook_fetch_response :: "reply \<Rightarrow> nat \<Rightarrow> ('g, 'v) services \<Rightarrow> ('g, 'v) services result" where
  "ham_logbook_fetch_response = closure_response ''logbook-fetched''"

definition ham_logbook_fetch ::
  "reaction' \<Rightarrow> nat \<Rightarrow> 'g option \<Rightarrow> 'v \<Rightarrow> ('g, 'v) services \<Rightarrow> ('g, 'v) services result" where
  "ham_logbook_fetch react p handler ui_data V =
     send_request react (Some ''/logbook'') ''GET'' None None [] S_logbook_fetch (Some p)
       (add_closure p (new_closure handler ui_data) V)"

text \<open>
  The array of 80 bytes starts with the 14 characters of the prefix and is zero behind them;
  \<open>strncpy\<close> copies at most 40 bytes of the call.
\<close>

definition ham_logbook_fetch_with_call ::
  "reaction' \<Rightarrow> nat \<Rightarrow> string \<Rightarrow> 'g option \<Rightarrow> 'v \<Rightarrow> ('g, 'v) services \<Rightarrow> ('g, 'v) services result" where
  "ham_logbook_fetch_with_call react p call handler ui_data V =
     send_request react (Some (''/logbook/call/'' @ take 40 call)) ''GET'' None None []
       S_logbook_fetch (Some p) (add_closure p (new_closure handler ui_data) V)"

definition ham_logbook_add_response :: "reply \<Rightarrow> nat \<Rightarrow> ('g, 'v) services \<Rightarrow> ('g, 'v) services result" where
  "ham_logbook_add_response = closure_response ''logbook-added''"

definition ham_logbook_add ::
  "reaction' \<Rightarrow> nat \<Rightarrow> string \<Rightarrow> 'g option \<Rightarrow> 'v \<Rightarrow> ('g, 'v) services \<Rightarrow> ('g, 'v) services result" where
  "ham_logbook_add react p payload handler ui_data V =
     send_request react (Some ''/logbook/add'') ''POST'' (Some payload) (Some ''hamlog'') []
       S_logbook_add (Some p) (add_closure p (new_closure handler ui_data) V)"

definition ham_logbook_remove_response :: "reply \<Rightarrow> nat \<Rightarrow> ('g, 'v) services \<Rightarrow> ('g, 'v) services result" where
  "ham_logbook_remove_response = closure_response ''logbook-removed''"

definition ham_logbook_remove ::
  "reaction' \<Rightarrow> nat \<Rightarrow> string \<Rightarrow> 'g option \<Rightarrow> 'v \<Rightarrow> ('g, 'v) services \<Rightarrow> ('g, 'v) services result" where
  "ham_logbook_remove react p ident handler ui_data V =
     send_request react (Some ''/logbook/remove'') ''POST'' (Some ident) (Some ''hamlog'') []
       S_logbook_remove (Some p) (add_closure p (new_closure handler ui_data) V)"

subsection \<open>QRZ\<close>

definition ham_qrz_response :: "reply \<Rightarrow> ('g, 'v) services \<Rightarrow> ('g, 'v) services result" where
  "ham_qrz_response r V = rmap (\<lambda>content.
     log_outcomes [Signalled ''qrz-fetched'' (Some content)
       (if ham_reply_get_status r \<noteq> 200 then 1 else 0)] V) (ham_reply_get_content r)"

definition ham_qrz_fetch ::
  "reaction' \<Rightarrow> nat \<Rightarrow> string \<Rightarrow> ('g, 'v) services \<Rightarrow> ('g, 'v) services result" where
  "ham_qrz_fetch react p call V =
     rbind (has_module V ''/qrz'') (\<lambda>found.
       if \<not> found then Inr V
       else send_request react (Some ''/qrz'') ''POST'' (Some call) (Some ''hamlog'') [] S_qrz (Some p) V)"

text \<open>The module object in the table is changed in place.\<close>

definition update_module ::
  "string \<Rightarrow> (ham_module \<Rightarrow> ham_module) \<Rightarrow> (ham_module, unit) hash_table \<Rightarrow> (ham_module, unit) hash_table" where
  "update_module k f t = t\<lparr>hitems := (hitems t)(hash_of k :=
     (let xs = hitems t (hash_of k);
          us = takeWhile (\<lambda>x. \<not> same_key k (length k) x) xs;
          vs = dropWhile (\<lambda>x. \<not> same_key k (length k) x) xs
      in us @ (case vs of [] \<Rightarrow> [] | v # ws \<Rightarrow> v\<lparr>hdata := f (hdata v)\<rparr> # ws)))\<rparr>"

definition ham_username_handle_response :: "reply \<Rightarrow> ('g, 'v) services \<Rightarrow> ('g, 'v) services result" where
  "ham_username_handle_response r V =
     (if ham_reply_get_status r = 200 then
        rbind (has_module V ''/qrz'') (\<lambda>found.
          if \<not> found then Inr V
          else rmap (\<lambda>content. V\<lparr>v_conn := (v_conn V)\<lparr>c_modules :=
              update_module ''/qrz'' (\<lambda>m. m\<lparr>m_data := Some content\<rparr>) (c_modules (v_conn V))\<rparr>\<rparr>)
            (ham_reply_get_content r))
      else Inr V)"

definition ham_qrz_fetch_username :: "reaction' \<Rightarrow> ('g, 'v) services \<Rightarrow> ('g, 'v) services result" where
  "ham_qrz_fetch_username react V =
     send_request react (Some ''/qrz/username'') ''GET'' None None [] S_username None V"

definition ham_qrz_register_response :: "reply \<Rightarrow> ('g, 'v) services \<Rightarrow> ('g, 'v) services result" where
  "ham_qrz_register_response r V =
     (if ham_reply_get_status r = 200 then Inr (log_outcomes [Signalled ''qrz-registered'' (Some []) 0] V)
      else rmap (\<lambda>content. log_outcomes [Signalled ''qrz-registered'' (Some content) 1] V)
        (ham_reply_get_content r))"

definition ham_qrz_register ::
  "reaction' \<Rightarrow> string \<Rightarrow> string \<Rightarrow> ('g, 'v) services \<Rightarrow> ('g, 'v) services result" where
  "ham_qrz_register react username password V =
     send_request react (Some ''/qrz/register'') ''GET'' None None
       [(''username'', username), (''password'', password)] S_qrz_register None V"

subsection \<open>What a request of a service puts on the wire\<close>

text \<open>A client whose code does nothing when signals are emitted.\<close>

definition quiet :: "('h, 'u) reaction" where
  "quiet = (\<lambda>_ c. c)"

lemma headers_no_nul: "headers_ok hs \<Longrightarrow> no_nul (header_lines hs)"
proof (induction hs)
  case (Cons h hs)
  then have "no_nul (hname h)" "no_nul (hvalue h)"
    using token_not_special value_not_end
    by (auto simp: headers_ok_def header_name_ok_def header_value_ok_def list_all_iff no_nul_def)
  with Cons show ?case by (simp add: headers_ok_def header_lines_def print_header_def)
qed (simp add: header_lines_def)

lemma request_no_nul:
  assumes "request_ok q" and "ham_request_get_data q = Inr data"
    and "case q_content q of None \<Rightarrow> True | Some c \<Rightarrow> no_nul c"
  shows "no_nul data"
proof -
  have "no_nul (q_method q)" "no_nul (q_uri q)"
    using assms(1) token_not_special value_not_end
    by (auto simp: request_ok_def method_ok_def uri_ok_def list_all_iff no_nul_def)
  then show ?thesis
    using headers_no_nul [OF wire_headers_ok [OF assms(1,2)]] get_data_text [OF assms(2)]
      request_text_shape [of q] assms(3)
    by (auto simp: request_line_def split: option.splits)
qed

lemma fold_add_headers:
  "fold (\<lambda>(n, v). ham_request_add_header True n v) hs q =
   q\<lparr>q_headers := q_headers q @ map (\<lambda>(n, v). \<lparr>hname = n, hvalue = v\<rparr>) hs\<rparr>"
  by (induction hs arbitrary: q) (auto simp: ham_request_add_header_def)

definition service_request ::
  "string \<Rightarrow> string \<Rightarrow> string option \<Rightarrow> string option \<Rightarrow> (string \<times> string) list \<Rightarrow> request" where
  "service_request uri meth content content_type headers =
     \<lparr>q_method = meth, q_uri = uri, q_content = content,
      q_content_type = (case content of None \<Rightarrow> None | Some _ \<Rightarrow> content_type),
      q_headers = map (\<lambda>(n, v). \<lparr>hname = n, hvalue = v\<rparr>) headers\<rparr>"

text \<open>The content is sent with its type, is not too long, and has no NUL.\<close>

definition sendable :: "string option \<Rightarrow> string option \<Rightarrow> bool" where
  "sendable content content_type = (case content of
     None \<Rightarrow> True
   | Some c \<Rightarrow> content_type \<noteq> None \<and> length c < 10 ^ 9)"

lemma send_request_value:
  assumes "sendable content content_type" and "c_fd (v_conn V) \<noteq> -1"
  shows "\<exists>data. ham_request_get_data (service_request uri meth content content_type headers) = Inr data
    \<and> send_request quiet (Some uri) meth content content_type headers s d V =
        Inr (V\<lparr>v_conn := (v_conn V)\<lparr>c_handlers := c_handlers (v_conn V) @ [(Some (Client_handler s), d)],
          c_events := c_events (v_conn V) @ [Emitted ''connection-request-sent'' data 0,
            Wrote (c_fd (v_conn V)) (cstr data)]\<rparr>\<rparr>)"
proof -
  let ?q = "service_request uri meth content content_type headers"
  have "ham_request_get_data ?q = Inr (request_text ?q)"
    using assms(1) get_data_value [of ?q]
    by (auto simp: sendable_def service_request_def split: option.splits)
  moreover have "ham_request_new True True uri meth content content_type =
      Inr (Some (service_request uri meth content content_type []))"
    using assms(1) by (auto simp: ham_request_new_def service_request_def sendable_def split: option.splits)
  moreover have "fold (\<lambda>(n, v). ham_request_add_header True n v) headers
      (service_request uri meth content content_type []) = ?q"
    by (simp add: fold_add_headers service_request_def)
  ultimately show ?thesis
    using assms(2)
    by (simp add: send_request_def ham_connection_send_def quiet_def happen_def log_event_def Let_def)
qed

subsection \<open>Counting the requests\<close>

abbreviation of_type :: "int \<Rightarrow> ham_module list \<Rightarrow> nat" where
  "of_type ty ms \<equiv> length (filter (\<lambda>m. m_type m = ty) ms)"

lemma ask_modules_value:
  assumes "sendable content content_type" and "c_fd (v_conn V) \<noteq> -1"
    and "\<forall>m \<in> set ms. m_uri m \<noteq> None" and "v_closures V p = Some k"
  shows "\<exists>V'. ask_modules quiet ty meth content content_type s p ms V = Inr V'
    \<and> v_closures V' = (v_closures V)(p \<mapsto> k\<lparr>cl_requests := cl_requests k + int (of_type ty ms)\<rparr>)
    \<and> v_log V' = v_log V \<and> c_fd (v_conn V') = c_fd (v_conn V)
    \<and> c_handlers (v_conn V') = c_handlers (v_conn V)
        @ replicate (of_type ty ms) (Some (Client_handler s), Some p)"
  using assms(2-)
proof (induction ms arbitrary: V k)
  case Nil
  then show ?case by (intro exI [of _ V]) (auto simp: fun_eq_iff)
next
  case (Cons m ms)
  show ?case
  proof (cases "m_type m = ty")
    case False
    with Cons show ?thesis by auto
  next
    case True
    obtain uri where uri: "m_uri m = Some uri" using Cons.prems(2) by auto
    let ?k = "k\<lparr>cl_requests := cl_requests k + 1\<rparr>"
    let ?V = "add_closure p ?k V"
    obtain data where send: "send_request quiet (Some uri) meth content content_type [] s (Some p) ?V =
        Inr (?V\<lparr>v_conn := (v_conn V)\<lparr>c_handlers := c_handlers (v_conn V) @ [(Some (Client_handler s), Some p)],
          c_events := c_events (v_conn V) @ [Emitted ''connection-request-sent'' data 0,
            Wrote (c_fd (v_conn V)) (cstr data)]\<rparr>\<rparr>)" (is "_ = Inr ?V1")
      using send_request_value [OF assms(1), of ?V uri meth "[]" s "Some p"] Cons.prems(1)
      by (auto simp: add_closure_def)
    have next_V: "c_fd (v_conn ?V1) \<noteq> -1" "\<forall>m \<in> set ms. m_uri m \<noteq> None" "v_closures ?V1 p = Some ?k"
      using Cons.prems by (simp_all add: add_closure_def)
    obtain V' where V': "ask_modules quiet ty meth content content_type s p ms ?V1 = Inr V'"
      "v_closures V' = (v_closures ?V1)(p \<mapsto> ?k\<lparr>cl_requests := cl_requests ?k + int (of_type ty ms)\<rparr>)"
      "v_log V' = v_log ?V1" "c_fd (v_conn V') = c_fd (v_conn ?V1)"
      "c_handlers (v_conn V') = c_handlers (v_conn ?V1)
        @ replicate (of_type ty ms) (Some (Client_handler s), Some p)"
      using Cons.IH [OF next_V] by blast
    have "ask_modules quiet ty meth content content_type s p (m # ms) V = Inr V'"
      using True Cons.prems(3) uri send V'(1) by simp
    with V'(2-) True show ?thesis
      by (intro exI [of _ V']) (simp add: add_closure_def algebra_simps)
  qed
qed

text \<open>The contents of the successful replies, merged one after the other.\<close>

fun collect :: "cbuf \<Rightarrow> cbuf \<Rightarrow> string option \<Rightarrow> (nat \<times> string) list \<Rightarrow> string option result" where
  "collect j1 j2 d [] = Inr d"
| "collect j1 j2 d ((status, content) # rs) =
     (if status = 200 then
        (case d of
           None \<Rightarrow> collect j1 j2 (Some content) rs
         | Some e \<Rightarrow> rbind (ham_csv_merge j1 j2 e content) (\<lambda>m. collect j1 j2 (Some m) rs))
      else collect j1 j2 d rs)"

fun responses :: "(reply \<Rightarrow> nat \<Rightarrow> ('g, 'v) services \<Rightarrow> ('g, 'v) services result) \<Rightarrow> nat
    \<Rightarrow> reply list \<Rightarrow> ('g, 'v) services \<Rightarrow> ('g, 'v) services result" where
  "responses f p [] V = Inr V"
| "responses f p (r # rs) V = rbind (f r p V) (responses f p rs)"

definition told_callinfo :: "('g, 'v) closure \<Rightarrow> string option \<Rightarrow> ('g, 'v) outcome list" where
  "told_callinfo k d = (case d of None \<Rightarrow> []
     | Some e \<Rightarrow> notify (cl_handler k) (Some e) 0 (cl_ui_data k) @ [Signalled ''callinfo-fetched'' (Some e) 0])"

lemma callinfo_responses:
  assumes "v_closures V p = Some k" and "cl_requests k = int (length rs)" and "rs \<noteq> []"
    and "list_all2 (\<lambda>r (st, c). ham_reply_get_status r = st \<and> ham_reply_get_content r = Inr c) rs cs"
    and "collect j1 j2 (cl_data k) cs = Inr d"
  shows "responses (ham_callinfo_response j1 j2) p rs V =
     Inr (free_closure p (log_outcomes (told_callinfo k d) V))"
  using assms
proof (induction rs arbitrary: V k cs)
  case Nil
  then show ?case by simp
next
  case (Cons r rs)
  obtain st c cs' where cs: "cs = (st, c) # cs'" "ham_reply_get_status r = st" "ham_reply_get_content r = Inr c"
    and rest: "list_all2 (\<lambda>r (st, c). ham_reply_get_status r = st \<and> ham_reply_get_content r = Inr c) rs cs'"
    using Cons.prems(4) by (auto simp: list_all2_Cons1)
  obtain d1 where d1: "(if st = 200 then (case cl_data k of None \<Rightarrow> Inr (Some c)
      | Some e \<Rightarrow> rmap Some (ham_csv_merge j1 j2 e c)) else Inr (cl_data k)) = Inr d1"
    "collect j1 j2 d1 cs' = Inr d"
    using Cons.prems(5) cs(1) by (auto simp: rbind_Inr_iff rmap_def split: if_splits option.splits)
  let ?k = "k\<lparr>cl_requests := int (length rs), cl_data := d1\<rparr>"
  have step: "ham_callinfo_response j1 j2 r p V =
      (if rs = [] then Inr (free_closure p (log_outcomes (told_callinfo k d1) V)) else Inr (add_closure p ?k V))"
    using Cons.prems(1,2) cs d1(1)
    by (auto simp: ham_callinfo_response_def told_callinfo_def log_outcomes_def Let_def
        split: if_splits option.splits)
  show ?case
  proof (cases "rs = []")
    case True
    then have "d1 = d" using rest d1(2) by simp
    with True step show ?thesis by simp
  next
    case False
    have "responses (ham_callinfo_response j1 j2) p rs (add_closure p ?k V) =
        Inr (free_closure p (log_outcomes (told_callinfo ?k d) (add_closure p ?k V)))"
      using Cons.IH [of "add_closure p ?k V" ?k cs'] False rest d1(2) by (simp add: add_closure_def)
    with step False show ?thesis
      by (simp add: told_callinfo_def free_closure_def log_outcomes_def add_closure_def
          split: option.splits)
  qed
qed

lemma send_request_arrives:
  assumes "c_fd (v_conn V) \<noteq> -1" and "sendable content content_type"
    and "request_ok (service_request uri meth content content_type headers)"
    and "case content of None \<Rightarrow> \<not> hasHeader (map (\<lambda>(n, v). \<lparr>hname = n, hvalue = v\<rparr>) headers) ''Content-Length''
         | Some c \<Rightarrow> c \<noteq> [] \<and> no_nul c \<and> list_all (\<lambda>c. c \<noteq> CR) c"
  shows "\<exists>V' bytes q. send_request quiet (Some uri) meth content content_type headers s d V = Inr V'
    \<and> last (c_events (v_conn V')) = Wrote (c_fd (v_conn V)) bytes
    \<and> c_handlers (v_conn V') = c_handlers (v_conn V) @ [(Some (Client_handler s), d)]
    \<and> rq_parse rq_method_start new_request bytes = Inr (length bytes, rq_method_start, q)
    \<and> q = (parsed_request (service_request uri meth content content_type headers)
              (case content of None \<Rightarrow> [] | Some c \<Rightarrow> c))\<lparr>s_finished := True\<rparr>"
proof -
  let ?q = "service_request uri meth content content_type headers"
  obtain data where data: "ham_request_get_data ?q = Inr data"
    "send_request quiet (Some uri) meth content content_type headers s d V =
        Inr (V\<lparr>v_conn := (v_conn V)\<lparr>c_handlers := c_handlers (v_conn V) @ [(Some (Client_handler s), d)],
          c_events := c_events (v_conn V) @ [Emitted ''connection-request-sent'' data 0,
            Wrote (c_fd (v_conn V)) (cstr data)]\<rparr>\<rparr>)"
    using send_request_value [OF assms(2,1)] by blast
  have "no_nul data"
    using request_no_nul [OF assms(3) data(1)] assms(4) by (auto simp: service_request_def split: option.splits)
  moreover have "rq_parse rq_method_start new_request (data @ []) =
      Inr (length data, rq_method_start,
        (parsed_request ?q (case content of None \<Rightarrow> [] | Some c \<Rightarrow> c))\<lparr>s_finished := True\<rparr>)"
    using request_parsed [OF data(1) assms(3), of "[]"] assms(4)
    by (auto simp: service_request_def split: option.splits)
  ultimately show ?thesis
    using data(2) by (intro exI) auto
qed

subsection \<open>The properties\<close>


definition services0 :: "(nat, nat) services" where
  "services0 = \<lparr>v_conn = \<lparr>c_fd = 3, c_input = True, c_hostname = ''h'', c_port = 80, c_username = ''u'',
       c_password = ''p'', c_reply = reply0, c_parser = parser0, c_handlers = [],
       c_modules = set_chain 47 [str_item ''/qrz'' (module_of (''/qrz'', ''QRZ'', ''q'', 1, True))] 1
         (the (ham_hash_table_new True)), c_events = []\<rparr>,
     v_closures = (\<lambda>_. None), v_log = []\<rparr>"

lemma services0_modules:
  "connection_modules (v_conn services0) = [module_of (''/qrz'', ''QRZ'', ''q'', 1, True)]"
  by (simp add: connection_modules_def services0_def all_items_single HAM_HASH_LEN_def)

definition reply200 :: "string \<Rightarrow> reply" where
  "reply200 s = \<lparr>r_status = 200, r_content = (\<lambda>i. if i < length s then s ! i else NUL), r_headers = [],
     r_finished = True\<rparr>"

lemma reply200_content:
  assumes "no_nul s" and "length s < MAX_REPLY_SIZE"
  shows "ham_reply_get_content (reply200 s) = Inr s"
proof -
  let ?b = "\<lambda>i. if i < length s then s ! i else NUL"
  have "written ?b (length s) = s"
    by (intro nth_equalityI) (auto simp: written_def)
  then have "buf_str MAX_REPLY_SIZE ?b 0 = Inr s"
    using buf_str_written [of "length s" MAX_REPLY_SIZE ?b] assms by simp
  then show ?thesis by (simp add: ham_reply_get_content_def reply200_def)
qed


text \<open>
  What a service asks for arrives: the request is written to the socket as one text that the
  server's parser reads as exactly this method, URI, headers and content, and the handler of the
  reply is queued behind those of earlier requests.
\<close>

theorem service_request_reaches_server:
  assumes "c_fd (v_conn V) \<noteq> -1" and "sendable content content_type"
    and "request_ok (service_request uri meth content content_type headers)"
    and "case content of None \<Rightarrow> \<not> hasHeader (map (\<lambda>(n, v). \<lparr>hname = n, hvalue = v\<rparr>) headers) ''Content-Length''
         | Some c \<Rightarrow> c \<noteq> [] \<and> no_nul c \<and> list_all (\<lambda>c. c \<noteq> CR) c"
  shows "\<exists>V' bytes q. send_request quiet (Some uri) meth content content_type headers s d V = Inr V'
    \<and> last (c_events (v_conn V')) = Wrote (c_fd (v_conn V)) bytes
    \<and> c_handlers (v_conn V') = c_handlers (v_conn V) @ [(Some (Client_handler s), d)]
    \<and> rq_parse rq_method_start new_request bytes = Inr (length bytes, rq_method_start, q)
    \<and> s_finished q \<and> s_method q = meth \<and> s_uri q = uri
    \<and> s_content q = (case content of None \<Rightarrow> [] | Some c \<Rightarrow> c)
    \<and> (\<forall>(n, v) \<in> set headers. \<lparr>hname = n, hvalue = v\<rparr> \<in> set (s_headers q))"
proof -
  show ?thesis
    using send_request_arrives [OF assms, of s d]
    by (elim exE conjE, intro exI conjI)
      (auto simp: parsed_request_def service_request_def wire_headers_def)
qed

theorem service_request_reaches_server_witness:
  "\<exists>V' bytes q. send_request quiet (Some ''/dxcc'') ''POST'' (Some ''OK1AB'') (Some ''hamlog'') [] S_dxcc (Some 7)
      services0 = Inr V'
    \<and> last (c_events (v_conn V')) = Wrote 3 bytes
    \<and> rq_parse rq_method_start new_request bytes = Inr (length bytes, rq_method_start, q)
    \<and> s_uri q = ''/dxcc'' \<and> s_content q = ''OK1AB''"
proof -
  have "request_ok (service_request ''/dxcc'' ''POST'' (Some ''OK1AB'') (Some ''hamlog'') [])"
    by (simp add: service_request_def request_ok_def method_ok_def uri_ok_def sample_defs)
  from service_request_reaches_server [OF _ _ this, of services0 S_dxcc "Some 7"] show ?thesis
    by (force simp: services0_def sendable_def)
qed

end
