(* ===== verification/Startup.thy ===== *)
theory Startup
  imports Signals Services
begin

text \<open>
  The signals of the library: \<open>ham_initialize\<close> of \<open>library/hamlog.h\<close> and the functions
  \<open>ham_..._register_signals\<close> it calls. A handler of the client is only called for a signal that was
  registered before the handler was, so the names here have to be those that the library emits and
  those of the constants in its headers.
\<close>

definition ham_account_register_signals :: "('h, 'u) signals \<Rightarrow> ('h, 'u) signals result" where
  "ham_account_register_signals S =
     rbind (ham_signals_register_signal ''account-logged-in'' S) (ham_signals_register_signal ''account-registered'')"

definition ham_callinfo_register_signals :: "('h, 'u) signals \<Rightarrow> ('h, 'u) signals result" where
  "ham_callinfo_register_signals S = ham_signals_register_signal ''callinfo-fetched'' S"

definition ham_connection_register_signals :: "('h, 'u) signals \<Rightarrow> ('h, 'u) signals result" where
  "ham_connection_register_signals S =
     rbind (ham_signals_register_signal ''connection-request-sent'' S) (\<lambda>S1.
     rbind (ham_signals_register_signal ''connection-reply-received'' S1) (\<lambda>S2.
     rbind (ham_signals_register_signal ''connection-connected'' S2)
       (ham_signals_register_signal ''connection-disconnected'')))"

definition ham_dxcc_register_signals :: "('h, 'u) signals \<Rightarrow> ('h, 'u) signals result" where
  "ham_dxcc_register_signals S = ham_signals_register_signal ''dxcc-fetched'' S"

definition ham_dxcluster_register_signals :: "('h, 'u) signals \<Rightarrow> ('h, 'u) signals result" where
  "ham_dxcluster_register_signals S = ham_signals_register_signal ''dxcluster-fetched'' S"

definition ham_qrz_register_signals :: "('h, 'u) signals \<Rightarrow> ('h, 'u) signals result" where
  "ham_qrz_register_signals S =
     rbind (ham_signals_register_signal ''qrz-fetched'' S) (ham_signals_register_signal ''qrz-registered'')"

definition ham_logbook_register_signals :: "('h, 'u) signals \<Rightarrow> ('h, 'u) signals result" where
  "ham_logbook_register_signals S =
     rbind (ham_signals_register_signal ''logbook-added'' S) (\<lambda>S1.
     rbind (ham_signals_register_signal ''logbook-removed'' S1) (ham_signals_register_signal ''logbook-fetched''))"

definition ham_hamlib_register_signals :: "('h, 'u) signals \<Rightarrow> ('h, 'u) signals result" where
  "ham_hamlib_register_signals S =
     rbind (ham_signals_register_signal ''hamlib-frequency-set'' S)
       (ham_signals_register_signal ''hamlib-frequency-fetched'')"

text \<open>The signals of the connection are registered twice, as in the code.\<close>

definition ham_initialize :: "('h, 'u) signals \<Rightarrow> ('h, 'u) signals result" where
  "ham_initialize S =
     rbind (ham_account_register_signals S) (\<lambda>S.
     rbind (ham_callinfo_register_signals S) (\<lambda>S.
     rbind (ham_connection_register_signals S) (\<lambda>S.
     rbind (ham_dxcc_register_signals S) (\<lambda>S.
     rbind (ham_dxcluster_register_signals S) (\<lambda>S.
     rbind (ham_connection_register_signals S) (\<lambda>S.
     rbind (ham_qrz_register_signals S) (\<lambda>S.
     rbind (ham_logbook_register_signals S) ham_hamlib_register_signals)))))))"

text \<open>The value of \<open>ham_signal_connection_reply_received\<close> in \<open>connection.h\<close>.\<close>

definition ham_signal_connection_reply_received :: string where
  "ham_signal_connection_reply_received = ''connection-reply_received''"

subsection \<open>Registering several signals\<close>

fun register_all :: "string list \<Rightarrow> ('h, 'u) signals \<Rightarrow> ('h, 'u) signals result" where
  "register_all [] S = Inr S"
| "register_all (n # ns) S = rbind (ham_signals_register_signal n S) (register_all ns)"

lemma register_all_append: "register_all (ms @ ns) S = rbind (register_all ms S) (register_all ns)"
  by (induction ms arbitrary: S) (auto simp: rbind_def split: sum.split)

lemma register_all_last: "register_all [n] = ham_signals_register_signal n"
  by (rule ext) (simp add: rbind_def split: sum.split)

text \<open>What \<open>ham_initialize\<close> registers, in its order.\<close>

definition library_signals :: "string list" where
  "library_signals =
     [''account-logged-in'', ''account-registered'', ''callinfo-fetched'', ''connection-request-sent'',
      ''connection-reply-received'', ''connection-connected'', ''connection-disconnected'', ''dxcc-fetched'',
      ''dxcluster-fetched'', ''qrz-fetched'', ''qrz-registered'', ''logbook-added'', ''logbook-removed'',
      ''logbook-fetched'', ''hamlib-frequency-set'', ''hamlib-frequency-fetched'']"

lemma register_all_value:
  assumes "sig_inv S" and "list_all no_nul ns" and "ns \<noteq> []"
  shows "\<exists>S1. register_all ns S = Inr S1 \<and> sig_inv S1 \<and> sig_table S1 \<noteq> None
    \<and> (\<forall>k. sig_abs S1 k = (if k \<in> set ns \<and> sig_abs S k = None then Some [] else sig_abs S k))"
  using assms
proof (induction ns arbitrary: S)
  case (Cons n ns)
  obtain S1 where S1: "ham_signals_register_signal n S = Inr S1" "sig_inv S1" "sig_table S1 \<noteq> None"
    "sig_abs S1 = (case sig_abs S n of None \<Rightarrow> (sig_abs S)(n \<mapsto> []) | Some _ \<Rightarrow> sig_abs S)"
    using register_signal_cases [OF Cons.prems(1), of n] Cons.prems(2) by auto
  show ?case
  proof (cases "ns = []")
    case True
    with S1 show ?thesis by (auto split: option.splits)
  next
    case False
    with Cons.IH [OF S1(2)] Cons.prems(2) S1 show ?thesis by (force split: option.splits)
  qed
qed simp

definition init_order :: "string list" where
  "init_order = take 9 library_signals @ take 4 (drop 3 library_signals) @ drop 9 library_signals"

lemma initialize_all: "ham_initialize S = register_all init_order S"
  by (simp add: init_order_def library_signals_def ham_initialize_def ham_account_register_signals_def
      ham_callinfo_register_signals_def ham_connection_register_signals_def ham_dxcc_register_signals_def
      ham_dxcluster_register_signals_def ham_qrz_register_signals_def ham_logbook_register_signals_def
      ham_hamlib_register_signals_def rbind_def split: sum.split)

lemma init_order_names: "set init_order = set library_signals" "list_all no_nul init_order" "init_order \<noteq> []"
  by (auto simp: init_order_def library_signals_def)

lemma initialize_value:
  "\<exists>S. ham_initialize (signals0 :: ('h, 'u) signals) = Inr S \<and> sig_inv S \<and> sig_table S \<noteq> None
    \<and> (\<forall>k. sig_abs S k = (if k \<in> set library_signals then Some [] else None))"
proof -
  have none: "sig_abs (signals0 :: ('h, 'u) signals) k = None" for k
    by (simp add: sig_abs_def sig_get_def signals0_def)
  show ?thesis
    using register_all_value [of "signals0 :: ('h, 'u) signals", OF sig_inv0 init_order_names(2,3)]
    by (auto simp: initialize_all init_order_names(1) none)
qed

subsection \<open>The properties\<close>

text \<open>
  Once the library is initialised, exactly its sixteen signals are known, each without handlers,
  and registering all the signals again changes nothing; the constant of the header for received
  replies is not one of them: a handler registered with it is ignored and never called.
\<close>

theorem initialised_signals:
  "\<exists>S. ham_initialize (signals0 :: ('h, 'u) signals) = Inr S \<and> sig_inv S
    \<and> (\<forall>name. sig_abs S name = (if name \<in> set library_signals then Some [] else None))
    \<and> (\<exists>S1. ham_initialize S = Inr S1 \<and> sig_abs S1 = sig_abs S)
    \<and> (\<forall>h u. \<exists>S1. ham_signals_register_handler ham_signal_connection_reply_received h u S = Inr S1
        \<and> sig_abs S1 = sig_abs S)"
proof -
  obtain S where S: "ham_initialize (signals0 :: ('h, 'u) signals) = Inr S" "sig_inv S" "sig_table S \<noteq> None"
    "\<And>k. sig_abs S k = (if k \<in> set library_signals then Some [] else None)"
    using initialize_value by blast
  have "\<exists>S1. ham_initialize S = Inr S1 \<and> sig_abs S1 = sig_abs S"
    using register_all_value [OF S(2) init_order_names(2,3)] S(4)
    by (auto simp: initialize_all init_order_names(1) fun_eq_iff)
  moreover have "\<exists>S1. ham_signals_register_handler ham_signal_connection_reply_received h u S = Inr S1
      \<and> sig_abs S1 = sig_abs S" for h u
    using register_handler_value [OF S(2) _ S(3), of ham_signal_connection_reply_received h u]
      S(4) [of ham_signal_connection_reply_received]
    by (auto simp: ham_signal_connection_reply_received_def library_signals_def)
  ultimately show ?thesis using S(1,2,4) by blast
qed

end
