(* ===== verification/Md5.thy ===== *)
theory Md5
  imports Prelude
begin

unbundle bit_operations_syntax

text \<open>
  The MD5 digest: \<open>library/md5.c\<close>.

  A byte is an \<open>8 word\<close>, the registers and the counters are \<open>32 word\<close>s. The 64 macro calls of
  \<open>md5_process\<close> are four lists of their last three arguments: between two calls the registers
  change places, which \<open>md5_step\<close> does with the tuple. The code is compiled with
  \<open>MD5_LITTLE_ENDIAN\<close>, so the words of a block are read from memory with the lowest byte first.

  \<open>md5_spec\<close> is the digest as RFC 1321 describes it: pad the whole message, then process its blocks
  one after the other. The lemmas show that the code, which works with a buffer of 64 bytes and takes
  the message in pieces, computes it.
\<close>

type_synonym byte = "8 word"
type_synonym regs = "32 word \<times> 32 word \<times> 32 word \<times> 32 word"

definition T_MASK :: "32 word" where
  "T_MASK = NOT 0"

definition ROTATE_LEFT :: "32 word \<Rightarrow> nat \<Rightarrow> 32 word" where
  "ROTATE_LEFT x n = (push_bit n x OR drop_bit (32 - n) x)"

definition md5_F :: "32 word \<Rightarrow> 32 word \<Rightarrow> 32 word \<Rightarrow> 32 word" where
  "md5_F x y z = ((x AND y) OR (NOT x AND z))"

definition md5_G :: "32 word \<Rightarrow> 32 word \<Rightarrow> 32 word \<Rightarrow> 32 word" where
  "md5_G x y z = ((x AND z) OR (y AND NOT z))"

definition md5_H :: "32 word \<Rightarrow> 32 word \<Rightarrow> 32 word \<Rightarrow> 32 word" where
  "md5_H x y z = (x XOR y XOR z)"

definition md5_I :: "32 word \<Rightarrow> 32 word \<Rightarrow> 32 word \<Rightarrow> 32 word" where
  "md5_I x y z = (y XOR (x OR NOT z))"

definition md5_step ::
  "(32 word \<Rightarrow> 32 word \<Rightarrow> 32 word \<Rightarrow> 32 word) \<Rightarrow> 32 word list \<Rightarrow> nat \<times> nat \<times> 32 word \<Rightarrow> regs \<Rightarrow> regs" where
  "md5_step f X = (\<lambda>(k, s, ti) (a, b, c, d).
     (d, ROTATE_LEFT (a + f b c d + X ! k + ti) s + b, b, c))"

definition md5_ops_1 :: "(nat \<times> nat \<times> 32 word) list" where
  "md5_ops_1 = [
      (0, 7, T_MASK XOR 0x28955b87), (1, 12, T_MASK XOR 0x173848a9),
      (2, 17, 0x242070db), (3, 22, T_MASK XOR 0x3e423111),
      (4, 7, T_MASK XOR 0x0a83f050), (5, 12, 0x4787c62a),
      (6, 17, T_MASK XOR 0x57cfb9ec), (7, 22, T_MASK XOR 0x02b96afe),
      (8, 7, 0x698098d8), (9, 12, T_MASK XOR 0x74bb0850),
      (10, 17, T_MASK XOR 0x0000a44e), (11, 22, T_MASK XOR 0x76a32841),
      (12, 7, 0x6b901122), (13, 12, T_MASK XOR 0x02678e6c),
      (14, 17, T_MASK XOR 0x5986bc71), (15, 22, 0x49b40821)]"

definition md5_ops_2 :: "(nat \<times> nat \<times> 32 word) list" where
  "md5_ops_2 = [
      (1, 5, T_MASK XOR 0x09e1da9d), (6, 9, T_MASK XOR 0x3fbf4cbf),
      (11, 14, 0x265e5a51), (0, 20, T_MASK XOR 0x16493855),
      (5, 5, T_MASK XOR 0x29d0efa2), (10, 9, 0x02441453),
      (15, 14, T_MASK XOR 0x275e197e), (4, 20, T_MASK XOR 0x182c0437),
      (9, 5, 0x21e1cde6), (14, 9, T_MASK XOR 0x3cc8f829),
      (3, 14, T_MASK XOR 0x0b2af278), (8, 20, 0x455a14ed),
      (13, 5, T_MASK XOR 0x561c16fa), (2, 9, T_MASK XOR 0x03105c07),
      (7, 14, 0x676f02d9), (12, 20, T_MASK XOR 0x72d5b375)]"

definition md5_ops_3 :: "(nat \<times> nat \<times> 32 word) list" where
  "md5_ops_3 = [
      (5, 4, T_MASK XOR 0x0005c6bd), (8, 11, T_MASK XOR 0x788e097e),
      (11, 16, 0x6d9d6122), (14, 23, T_MASK XOR 0x021ac7f3),
      (1, 4, T_MASK XOR 0x5b4115bb), (4, 11, 0x4bdecfa9),
      (7, 16, T_MASK XOR 0x0944b49f), (10, 23, T_MASK XOR 0x4140438f),
      (13, 4, 0x289b7ec6), (0, 11, T_MASK XOR 0x155ed805),
      (3, 16, T_MASK XOR 0x2b10cf7a), (6, 23, 0x04881d05),
      (9, 4, T_MASK XOR 0x262b2fc6), (12, 11, T_MASK XOR 0x1924661a),
      (15, 16, 0x1fa27cf8), (2, 23, T_MASK XOR 0x3b53a99a)]"

definition md5_ops_4 :: "(nat \<times> nat \<times> 32 word) list" where
  "md5_ops_4 = [
      (0, 6, T_MASK XOR 0x0bd6ddbb), (7, 10, 0x432aff97),
      (14, 15, T_MASK XOR 0x546bdc58), (5, 21, T_MASK XOR 0x036c5fc6),
      (12, 6, 0x655b59c3), (3, 10, T_MASK XOR 0x70f3336d),
      (10, 15, T_MASK XOR 0x00100b82), (1, 21, T_MASK XOR 0x7a7ba22e),
      (8, 6, 0x6fa87e4f), (15, 10, T_MASK XOR 0x01d3191f),
      (6, 15, T_MASK XOR 0x5cfebceb), (13, 21, 0x4e0811a1),
      (4, 6, T_MASK XOR 0x08ac817d), (11, 10, T_MASK XOR 0x42c50dca),
      (2, 15, 0x2ad7d2bb), (9, 21, T_MASK XOR 0x14792c6e)]"

definition word_of_bytes :: "byte list \<Rightarrow> 32 word" where
  "word_of_bytes bs = foldr (\<lambda>b w. ucast b + push_bit 8 w) bs 0"

definition block_words :: "byte list \<Rightarrow> 32 word list" where
  "block_words data = map (\<lambda>i. word_of_bytes (take 4 (drop (4 * i) data))) [0..<16]"

definition md5_process :: "regs \<Rightarrow> byte list \<Rightarrow> regs" where
  "md5_process abcd data =
     (let X = block_words data;
          r = fold (md5_step md5_I X) md5_ops_4 (fold (md5_step md5_H X) md5_ops_3
                (fold (md5_step md5_G X) md5_ops_2 (fold (md5_step md5_F X) md5_ops_1 abcd)))
      in case (abcd, r) of ((a0, b0, c0, d0), (a, b, c, d)) \<Rightarrow> (a0 + a, b0 + b, c0 + c, d0 + d))"

record md5_state =
  md5_count0 :: "32 word"
  md5_count1 :: "32 word"
  md5_abcd :: regs
  md5_buf :: "byte list"

definition md5_init :: "byte list \<Rightarrow> md5_state" where
  "md5_init junk = \<lparr>md5_count0 = 0, md5_count1 = 0,
     md5_abcd = (0x67452301, T_MASK XOR 0x10325476, T_MASK XOR 0x67452301, 0x10325476), md5_buf = junk\<rparr>"

text \<open>\<open>memcpy(buf + offset, p, length p)\<close>.\<close>

definition copy_to :: "nat \<Rightarrow> byte list \<Rightarrow> byte list \<Rightarrow> byte list" where
  "copy_to offset p buf = take offset buf @ p @ drop (offset + length p) buf"

text \<open>The loop over full blocks, with what is left.\<close>

function md5_blocks :: "regs \<Rightarrow> byte list \<Rightarrow> regs \<times> byte list" where
  "md5_blocks abcd p =
     (if 64 \<le> length p then md5_blocks (md5_process abcd (take 64 p)) (drop 64 p) else (abcd, p))"
  by pat_completeness auto
termination
  by (relation "measure (\<lambda>(_, p). length p)") auto

declare md5_blocks.simps [simp del]

definition md5_append :: "byte list \<Rightarrow> md5_state \<Rightarrow> md5_state" where
  "md5_append data pms =
     (let nbytes = length data;
          offset = unat (drop_bit 3 (md5_count0 pms) AND 63);
          nbits = (of_nat (8 * nbytes) :: 32 word)
      in if nbytes = 0 then pms
         else
           let count1 = md5_count1 pms + of_nat (nbytes div 2 ^ 29);
               count0 = md5_count0 pms + nbits;
               pms1 = pms\<lparr>md5_count0 := count0,
                 md5_count1 := (if count0 < nbits then count1 + 1 else count1)\<rparr>;
               final = (\<lambda>(abcd, left) s. s\<lparr>md5_abcd := abcd,
                 md5_buf := (if left = [] then md5_buf s else copy_to 0 left (md5_buf s))\<rparr>)
           in if 0 < offset then
                let copy = (if 64 < offset + nbytes then 64 - offset else nbytes);
                    pms2 = pms1\<lparr>md5_buf := copy_to offset (take copy data) (md5_buf pms1)\<rparr>
                in if offset + copy < 64 then pms2
                   else final (md5_blocks (md5_process (md5_abcd pms2) (md5_buf pms2)) (drop copy data)) pms2
              else final (md5_blocks (md5_abcd pms1) data) pms1)"

definition md5_pad :: "byte list" where
  "md5_pad = 0x80 # replicate 63 0"

definition le_byte :: "32 word \<Rightarrow> nat \<Rightarrow> byte" where
  "le_byte w i = ucast (drop_bit (8 * i) w)"

definition md5_finish :: "md5_state \<Rightarrow> byte list" where
  "md5_finish pms =
     (let data = map (le_byte (md5_count0 pms)) [0..<4] @ map (le_byte (md5_count1 pms)) [0..<4];
          n = unat ((55 - drop_bit 3 (md5_count0 pms)) AND 63) + 1;
          pms1 = md5_append data (md5_append (take n md5_pad) pms)
      in case md5_abcd pms1 of (a, b, c, d) \<Rightarrow>
           concat (map (\<lambda>w. map (le_byte w) [0..<4]) [a, b, c, d]))"

definition byte_of :: "char \<Rightarrow> byte" where
  "byte_of c = of_char c"

definition md5_get_hash :: "byte list \<Rightarrow> string \<Rightarrow> byte list" where
  "md5_get_hash junk s = md5_finish (md5_append (map byte_of (cstr s)) (md5_init junk))"

definition hex_digit :: "nat \<Rightarrow> char" where
  "hex_digit n = (if n < 10 then char_of (48 + n) else char_of (87 + n))"

definition hex_byte :: "byte \<Rightarrow> string" where
  "hex_byte b = [hex_digit (unat b div 16), hex_digit (unat b mod 16)]"

definition md5_get_hash_hex :: "byte list \<Rightarrow> string \<Rightarrow> string" where
  "md5_get_hash_hex junk s = concat (map hex_byte (md5_get_hash junk s))"


subsection \<open>The digest as a function of the whole message\<close>

text \<open>The message with its padding: a bit 1, zeros, and the length in bits as 64 bits.\<close>

definition md5_padded :: "byte list \<Rightarrow> byte list" where
  "md5_padded m = m @ 0x80 # replicate ((119 - length m mod 64) mod 64) 0
     @ map (\<lambda>i. ucast (drop_bit (8 * i) (of_nat (8 * length m) :: 64 word))) [0..<8]"

fun blocks_of :: "nat \<Rightarrow> 'a list \<Rightarrow> 'a list list" where
  "blocks_of 0 xs = []"
| "blocks_of (Suc n) xs = take 64 xs # blocks_of n (drop 64 xs)"

definition md5_start :: regs where
  "md5_start = (0x67452301, T_MASK XOR 0x10325476, T_MASK XOR 0x67452301, 0x10325476)"

definition regs_bytes :: "regs \<Rightarrow> byte list" where
  "regs_bytes = (\<lambda>(a, b, c, d). concat (map (\<lambda>w. map (le_byte w) [0..<4]) [a, b, c, d]))"

definition md5_spec :: "byte list \<Rightarrow> byte list" where
  "md5_spec m = (let p = md5_padded m in
     regs_bytes (fold (\<lambda>b r. md5_process r b) (blocks_of (length p div 64) p) md5_start))"

subsection \<open>The loop over blocks\<close>

lemma md5_blocks_short: "length p < 64 \<Longrightarrow> md5_blocks r p = (r, p)"
  by (subst md5_blocks.simps) simp

lemma md5_blocks_long: "64 \<le> length p \<Longrightarrow> md5_blocks r p = md5_blocks (md5_process r (take 64 p)) (drop 64 p)"
  by (subst md5_blocks.simps) simp

lemma md5_blocks_left: "length (snd (md5_blocks r p)) = length p mod 64"
proof (induction r p rule: md5_blocks.induct)
  case (1 r p)
  show ?case
  proof (cases "64 \<le> length p")
    case True
    then show ?thesis using 1 by (simp add: md5_blocks_long le_mod_geq)
  next
    case False
    then show ?thesis by (simp add: md5_blocks_short)
  qed
qed

lemma md5_blocks_append:
  "md5_blocks r (m @ d) = (case md5_blocks r m of (r1, left) \<Rightarrow> md5_blocks r1 (left @ d))"
proof (induction r m rule: md5_blocks.induct)
  case (1 r m)
  show ?case
  proof (cases "64 \<le> length m")
    case True
    then show ?thesis using 1 by (simp add: md5_blocks_long)
  next
    case False
    then show ?thesis by (simp add: md5_blocks_short)
  qed
qed

lemma md5_blocks_fold:
  "length p = 64 * n \<Longrightarrow> md5_blocks r p = (fold (\<lambda>b r. md5_process r b) (blocks_of n p) r, [])"
  by (induction n arbitrary: r p) (simp_all add: md5_blocks_short md5_blocks_long)

subsection \<open>The counters\<close>

lemma and_63:
  fixes w :: "32 word"
  shows "unat (w AND 63) = unat w mod 64"
proof -
  have "w AND 63 = take_bit 6 w"
    by (simp add: take_bit_eq_mask mask_eq_exp_minus_1)
  then show ?thesis
    by (simp only: unsigned_take_bit_eq) (simp add: take_bit_eq_mod)
qed

lemma unat_drop_bit:
  fixes w :: "'a::len word"
  shows "unat (drop_bit n w) = unat w div 2 ^ n"
  by (simp only: unat_drop_bit_eq) (simp only: drop_bit_eq_div)

lemma offset_value:
  fixes w :: "32 word"
  shows "unat (drop_bit 3 w AND 63) = unat w div 8 mod 64"
  by (simp add: and_63 unat_drop_bit)

lemma bits_mod: "8 * n mod 2 ^ 32 div 8 mod 64 = n mod (64 :: nat)"
proof -
  have "8 * n mod 2 ^ 32 = 8 * (n mod 2 ^ 29)" by (simp add: mult_mod_right)
  then show ?thesis by (simp add: mod_mod_cancel)
qed

text \<open>The two counters as one number of 64 bits.\<close>

definition md5_count :: "md5_state \<Rightarrow> nat" where
  "md5_count s = unat (md5_count0 s) + 2 ^ 32 * unat (md5_count1 s)"

definition md5_inv :: "byte list \<Rightarrow> md5_state \<Rightarrow> bool" where
  "md5_inv m s \<longleftrightarrow> md5_count s = 8 * length m mod 2 ^ 64 \<and> length (md5_buf s) = 64
     \<and> md5_blocks md5_start m = (md5_abcd s, take (length m mod 64) (md5_buf s))"

lemma md5_inv_count0: "md5_inv m s \<Longrightarrow> unat (md5_count0 s) = 8 * length m mod 2 ^ 32"
proof -
  assume "md5_inv m s"
  then have "(unat (md5_count0 s) + 2 ^ 32 * unat (md5_count1 s)) mod 2 ^ 32 = (8 * length m mod 2 ^ 64) mod 2 ^ 32"
    by (simp add: md5_inv_def md5_count_def)
  moreover have "unat (md5_count0 s) < 2 ^ 32" using unsigned_less [of "md5_count0 s"] by simp
  ultimately show ?thesis by (simp add: mod_mod_cancel)
qed

lemma md5_inv_offset:
  "md5_inv m s \<Longrightarrow> unat (drop_bit 3 (md5_count0 s) AND 63) = length m mod 64"
  by (simp only: offset_value md5_inv_count0 bits_mod)

lemma md5_inv_init: "length junk = 64 \<Longrightarrow> md5_inv [] (md5_init junk)"
  by (simp add: md5_inv_def md5_init_def md5_count_def md5_start_def md5_blocks_short)


lemma count_step:
  fixes c0 c1 nbits :: "32 word"
  assumes "unat nbits = b"
  shows "unat (c0 + nbits) + 2 ^ 32 * unat (if c0 + nbits < nbits then c1 + 1 else c1)
    = (unat c0 + 2 ^ 32 * unat c1 + b) mod 2 ^ 64"
proof -
  have x: "unat c0 < 2 ^ 32" and y: "unat c1 < 2 ^ 32" and z: "b < 2 ^ 32"
    using unsigned_less [where 'a = nat, of c0] unsigned_less [where 'a = nat, of c1]
      unsigned_less [where 'a = nat, of nbits] assms by simp_all
  show ?thesis
  proof (cases "unat c0 + b < 2 ^ 32")
    case True
    then have s: "unat (c0 + nbits) = unat c0 + b" using assms by (simp add: unat_plus_if')
    then have "\<not> c0 + nbits < nbits" using assms by (simp add: word_less_nat_alt)
    moreover have "unat c0 + 2 ^ 32 * unat c1 + b < 2 ^ 64" using True y by simp
    ultimately show ?thesis using s by simp
  next
    case False
    then have s: "unat (c0 + nbits) = unat c0 + b - 2 ^ 32" using assms x z by (simp add: unat_plus_if')
    with x False have "c0 + nbits < nbits" using assms by (simp add: word_less_nat_alt)
    moreover have "unat c0 + b - 2 ^ 32 + 2 ^ 32 * unat (c1 + 1) = (unat c0 + 2 ^ 32 * unat c1 + b) mod 2 ^ 64"
    proof (cases "unat c1 + 1 < 2 ^ 32")
      case True
      then have "unat (c1 + 1) = unat c1 + 1" by (simp add: unat_plus_if')
      moreover have "unat c0 + 2 ^ 32 * unat c1 + b < 2 ^ 64" using True x z by simp
      ultimately show ?thesis using False by simp
    next
      case top: False
      with y have c: "unat c1 = 2 ^ 32 - 1" by simp
      then have "unat (c1 + 1) = 0" by (simp add: unat_plus_if')
      moreover have "unat c0 + 2 ^ 32 * unat c1 + b = (unat c0 + b - 2 ^ 32) + 2 ^ 64"
        using c False by simp
      moreover have "unat c0 + b - 2 ^ 32 < 2 ^ 64" using x z by simp
      ultimately show ?thesis by (simp only: mod_add_self2 mod_less mult_0_right add_0_right)
    qed
    ultimately show ?thesis using s by simp
  qed
qed


subsection \<open>Appending\<close>

lemma md5_append_counts:
  assumes "d \<noteq> []" and "length d < 2 ^ 28"
  shows "md5_count (md5_append d s) = (md5_count s + 8 * length d) mod 2 ^ 64"
proof -
  let ?b = "of_nat (8 * length d) :: 32 word"
  have hi: "length d div 2 ^ 29 = 0" using assms(2) by simp
  have b: "unat ?b = 8 * length d" using assms(2) by (subst unat_of_nat) simp
  have "md5_count0 (md5_append d s) = md5_count0 s + ?b"
    and "md5_count1 (md5_append d s)
      = (if md5_count0 s + ?b < ?b then md5_count1 s + 1 else md5_count1 s)"
    using assms(1) hi by (simp_all add: md5_append_def Let_def split: prod.split)
  then show ?thesis
    using count_step [OF b, of "md5_count0 s" "md5_count1 s"] by (simp only: md5_count_def)
qed

lemma keep_left:
  assumes "length b = 64" and "length rest = n mod 64"
  shows "length (if rest = [] then b else copy_to 0 rest b) = 64
    \<and> take (n mod 64) (if rest = [] then b else copy_to 0 rest b) = rest"
proof -
  have "n mod 64 < 64" by simp
  with assms show ?thesis by (auto simp: copy_to_def)
qed

text \<open>The buffer and the registers, with what is in the buffer written out as \<open>left\<close>.\<close>

lemma md5_append_blocks:
  assumes off: "unat (drop_bit 3 (md5_count0 s) AND 63) = length left" "length left < 64"
    and left: "left = take (length left) (md5_buf s)" and buf: "length (md5_buf s) = 64"
  shows "length (md5_buf (md5_append d s)) = 64 \<and>
    md5_blocks (md5_abcd s) (left @ d)
      = (md5_abcd (md5_append d s), take (length (left @ d) mod 64) (md5_buf (md5_append d s)))"
proof (cases "d = []")
  case True
  then show ?thesis using left off(2) buf by (simp add: md5_append_def md5_blocks_short)
next
  case False
  show ?thesis
  proof (cases "left = []")
    case True
    obtain r1 rest where r: "md5_blocks (md5_abcd s) d = (r1, rest)" by fastforce
    with md5_blocks_left [of "md5_abcd s" d] have "length rest = length d mod 64" by simp
    with True False off r buf show ?thesis
      using keep_left [of "md5_buf s" rest "length d"]
      by (auto simp: md5_append_def Let_def split: if_splits)
  next
    case part: False
    show ?thesis
    proof (cases "length left + length d < 64")
      case True
      then have "md5_abcd (md5_append d s) = md5_abcd s"
        and "md5_buf (md5_append d s) = copy_to (length left) d (md5_buf s)"
        using False part off by (simp_all add: md5_append_def Let_def)
      moreover have "copy_to (length left) d (md5_buf s)
          = left @ d @ drop (length left + length d) (md5_buf s)"
        unfolding copy_to_def by (subst (1) left [symmetric]) (rule refl)
      ultimately have "md5_abcd (md5_append d s) = md5_abcd s"
        and "md5_buf (md5_append d s) = left @ d @ drop (length left + length d) (md5_buf s)"
        by simp_all
      then show ?thesis using True buf by (simp add: md5_blocks_short)
    next
      case full: False
      define copy where "copy = 64 - length left"
      let ?b = "left @ take copy d"
      have b: "length ?b = 64" "copy \<le> length d" using full off(2) by (simp_all add: copy_def)
      have c: "copy_to (length left) (take copy d) (md5_buf s) = ?b"
        using left b buf by (simp add: copy_to_def)
      obtain r1 rest where r: "md5_blocks (md5_process (md5_abcd s) ?b) (drop copy d) = (r1, rest)"
        by fastforce
      have same: "md5_blocks (md5_abcd s) (left @ d) = (r1, rest)"
        using full b r off(2) by (simp add: md5_blocks_long copy_def)
      have "length rest = length (left @ d) mod 64"
        using md5_blocks_left [of "md5_abcd s" "left @ d"] same by simp
      moreover have "(if 64 < length left + length d then 64 - length left else length d) = copy"
        using full by (auto simp: copy_def)
      then have "md5_abcd (md5_append d s) = r1
          \<and> md5_buf (md5_append d s) = (if rest = [] then ?b else copy_to 0 rest ?b)"
        using False part off b c r by (simp add: md5_append_def Let_def copy_def)
      ultimately show ?thesis using same keep_left [of ?b rest] b by simp
    qed
  qed
qed

lemma md5_append_inv:
  assumes inv: "md5_inv m s" and small: "length d < 2 ^ 28"
  shows "md5_inv (m @ d) (md5_append d s)"
proof (cases "d = []")
  case True
  with inv show ?thesis by (simp add: md5_append_def)
next
  case False
  define left where "left = take (length m mod 64) (md5_buf s)"
  have buf: "length (md5_buf s) = 64" and cnt: "md5_count s = 8 * length m mod 2 ^ 64"
    and blocks: "md5_blocks md5_start m = (md5_abcd s, left)"
    using inv by (simp_all add: md5_inv_def left_def)
  have len: "length left = length m mod 64" using buf by (simp add: left_def)
  then have off: "unat (drop_bit 3 (md5_count0 s) AND 63) = length left" "length left < 64"
    using md5_inv_offset [OF inv] by simp_all
  have left: "left = take (length left) (md5_buf s)" by (simp add: len) (simp add: left_def)
  have mods: "length (m @ d) mod 64 = length (left @ d) mod 64" by (simp add: len mod_add_left_eq)
  have all: "md5_blocks md5_start (m @ d) = md5_blocks (md5_abcd s) (left @ d)"
    by (subst md5_blocks_append) (simp add: blocks)
  show ?thesis
    unfolding md5_inv_def mods all
    using md5_append_blocks [OF off left buf, of d] md5_append_counts [OF False small, of s] cnt
    by (simp add: mod_add_left_eq distrib_left)
qed


subsection \<open>Finishing\<close>

lemma pad_arith:
  fixes k :: nat
  assumes "k < 2 ^ 29"
  shows "(if k \<le> 55 then 55 - k else 55 + 2 ^ 32 - k) mod 64 = (119 - k mod 64) mod 64"
proof -
  define q r where "q = k div 64" and "r = k mod 64"
  have k: "k = 64 * q + r" "r < 64" "q < 2 ^ 23"
    using assms by (simp_all add: q_def r_def)
  show ?thesis
  proof (cases "k \<le> 55")
    case True
    then have "119 - k mod 64 = 55 - k + 64" by simp
    with True show ?thesis by (simp only: mod_add_self2 if_True)
  next
    case False
    have "55 + 2 ^ 32 - k = (119 - r) + 64 * (2 ^ 26 - 1 - q)"
      using k by simp
    with False show ?thesis by (simp only: mod_mult_self2 if_False r_def)
  qed
qed

lemma pad_count:
  assumes "unat w = 8 * n mod 2 ^ 32"
  shows "unat ((55 - drop_bit 3 w) AND 63 :: 32 word) = (119 - n mod 64) mod 64"
proof -
  have "8 * n mod 2 ^ 32 = 8 * (n mod 2 ^ 29)" by (simp add: mult_mod_right)
  then have d: "unat (drop_bit 3 w) = n mod 2 ^ 29"
    using assms by (simp add: unat_drop_bit)
  have "unat (55 - drop_bit 3 w :: 32 word)
      = (if n mod 2 ^ 29 \<le> 55 then 55 - n mod 2 ^ 29 else 55 + 2 ^ 32 - n mod 2 ^ 29)"
    by (simp add: unat_sub_if' d word_le_nat_alt)
  moreover have "n mod 2 ^ 29 < 2 ^ 29" and "n mod 2 ^ 29 mod 64 = n mod 64"
    by (simp_all add: mod_mod_cancel)
  ultimately show ?thesis using pad_arith [of "n mod 2 ^ 29"] by (simp only: and_63)
qed

lemma low_byte:
  fixes c0 :: "32 word" and w :: "64 word"
  assumes "unat w = unat c0 + 2 ^ 32 * y" and "i < 4"
  shows "le_byte c0 i = ucast (drop_bit (8 * i) w)"
proof -
  define e where "e = 8 * i"
  have e: "32 = e + 8 + (24 - e)" using assms(2) by (simp add: e_def)
  have "(unat c0 + 2 ^ 32 * y) div 2 ^ e = unat c0 div 2 ^ e + 2 ^ 8 * (2 ^ (24 - e) * y)"
    by (subst e) (simp add: power_add mult.assoc)
  then have "(unat c0 + 2 ^ 32 * y) div 2 ^ e mod 2 ^ 8 = unat c0 div 2 ^ e mod 2 ^ 8"
    by (simp only: mod_mult_self2)
  then show ?thesis
    by (simp add: word_unat_eq_iff le_byte_def unsigned_ucast_eq unat_drop_bit take_bit_eq_mod
        assms(1) flip: e_def)
qed

lemma high_byte:
  fixes c0 c1 :: "32 word" and w :: "64 word"
  assumes "unat w = unat c0 + 2 ^ 32 * unat c1"
  shows "le_byte c1 i = ucast (drop_bit (8 * (4 + i)) w)"
proof -
  have "unat c0 div 2 ^ 32 = 0" using unsigned_less [where 'a = nat, of c0] by simp
  then have "unat w div 2 ^ 32 = unat c1" by (simp add: assms)
  then have "unat w div 2 ^ (8 * (4 + i)) = unat c1 div 2 ^ (8 * i)"
    by (simp add: power_add div_mult2_eq)
  then show ?thesis
    by (simp add: word_unat_eq_iff le_byte_def unsigned_ucast_eq unat_drop_bit take_bit_eq_mod)
qed

lemma length_bytes:
  assumes "unat c0 + 2 ^ 32 * unat c1 = 8 * n mod 2 ^ 64"
  shows "map (le_byte c0) [0..<4] @ map (le_byte c1) [0..<4]
    = map (\<lambda>i. ucast (drop_bit (8 * i) (of_nat (8 * n) :: 64 word))) [0..<8]"
proof -
  have w: "unat (of_nat (8 * n) :: 64 word) = unat c0 + 2 ^ 32 * unat c1"
    using assms by (subst unat_of_nat) simp
  have split: "[0..<8] = [0..<4] @ map (\<lambda>i. 4 + i) [0..<4]"
    by (simp add: upt_rec)
  show ?thesis
    unfolding split by (simp add: low_byte [OF w] high_byte [OF w] comp_def del: of_nat_mult)
qed

lemma take_md5_pad: "k < 64 \<Longrightarrow> take (Suc k) md5_pad = 0x80 # replicate k 0"
  by (simp add: md5_pad_def)

lemma padded_length: "(n + (119 - n mod 64) mod 64 + 9) mod 64 = (0 :: nat)"
proof -
  have r: "n mod 64 < 64" by simp
  have "(n + (119 - n mod 64) mod 64 + 9) mod 64 = (n mod 64 + (119 - n mod 64) + 9) mod 64"
    by (metis mod_add_left_eq mod_add_right_eq)
  also have "n mod 64 + (119 - n mod 64) + 9 = 128" using r by simp
  finally show ?thesis by simp
qed

lemma length_md5_padded: "length (md5_padded m) mod 64 = 0"
proof -
  have "length (md5_padded m) = length m + (119 - length m mod 64) mod 64 + 9"
    by (simp add: md5_padded_def)
  then show ?thesis by (simp only: padded_length)
qed

lemma md5_finish_inv:
  assumes inv: "md5_inv m s"
  shows "md5_finish s = md5_spec m"
proof -
  define k where "k = (119 - length m mod 64) mod 64"
  define pad :: "byte list" where "pad = 0x80 # replicate k 0"
  define len where "len = map (le_byte (md5_count0 s)) [0..<4] @ map (le_byte (md5_count1 s)) [0..<4]"
  have k: "k < 64" by (simp add: k_def)
  have n: "take (Suc (unat ((55 - drop_bit 3 (md5_count0 s)) AND 63))) md5_pad = pad"
    using take_md5_pad [OF k] by (simp add: pad_def k_def pad_count [OF md5_inv_count0 [OF inv]])
  have "length pad < 2 ^ 28" and "length len < 2 ^ 28"
    using k by (simp_all add: pad_def len_def)
  then have "md5_inv ((m @ pad) @ len) (md5_append len (md5_append pad s))" (is "md5_inv _ ?s")
    using inv by (intro md5_append_inv)
  moreover have padded: "(m @ pad) @ len = md5_padded m"
    using inv length_bytes [of "md5_count0 s" "md5_count1 s" "length m"]
    by (simp add: md5_inv_def md5_count_def len_def pad_def md5_padded_def k_def)
  ultimately have "md5_inv (md5_padded m) ?s" by simp
  moreover have "length (md5_padded m) = 64 * (length (md5_padded m) div 64)"
    using mult_div_mod_eq [of 64 "length (md5_padded m)"] length_md5_padded [of m] by simp
  ultimately have "md5_abcd ?s = fold (\<lambda>b r. md5_process r b)
      (blocks_of (length (md5_padded m) div 64) (md5_padded m)) md5_start"
    using md5_blocks_fold by (simp add: md5_inv_def)
  then show ?thesis
    by (simp add: md5_finish_def n Let_def md5_spec_def regs_bytes_def flip: len_def)
qed
lemma md5_append_all:
  assumes "md5_inv m s" and "\<forall>d \<in> set ds. length d < 2 ^ 28"
  shows "md5_inv (m @ concat ds) (fold md5_append ds s)"
  using assms
proof (induction ds arbitrary: m s)
  case (Cons d ds)
  then have "md5_inv (m @ d) (md5_append d s)" by (intro md5_append_inv) simp_all
  with Cons show ?case by fastforce
qed simp

lemma md5_pieces:
  assumes "length junk = 64" and "\<forall>d \<in> set ds. length d < 2 ^ 28"
  shows "md5_finish (fold md5_append ds (md5_init junk)) = md5_spec (concat ds)"
  using md5_append_all [OF md5_inv_init [OF assms(1)] assms(2)] by (simp add: md5_finish_inv)

lemma md5_get_hash_spec:
  assumes "length junk = 64" and "length (cstr s) < 2 ^ 28"
  shows "md5_get_hash junk s = md5_spec (map byte_of (cstr s))"
  using md5_pieces [of junk "[map byte_of (cstr s)]"] assms by (simp add: md5_get_hash_def)

subsection \<open>Hexadecimal digits\<close>

definition HEX_DIGITS :: string where
  "HEX_DIGITS = ''0123456789abcdef''"

lemma hex_digit_char: "n < 16 \<Longrightarrow> hex_digit n \<in> set HEX_DIGITS"
proof -
  have "\<forall>n \<in> set [0..<16]. hex_digit n \<in> set HEX_DIGITS" by code_simp
  then show "n < 16 \<Longrightarrow> hex_digit n \<in> set HEX_DIGITS" by simp
qed

lemma unat_byte: "unat (b :: byte) < 256"
  using unsigned_less [where 'a = nat, of b] by simp

lemma hex_byte_digits: "set (hex_byte b) \<subseteq> set HEX_DIGITS"
proof -
  have "unat b div 16 < 16" using unat_byte [of b] by simp
  then show ?thesis by (simp add: hex_byte_def hex_digit_char)
qed

lemma length_hex: "length (concat (map hex_byte bs)) = 2 * length bs"
  by (induction bs) (simp_all add: hex_byte_def)

lemma length_md5_spec: "length (md5_spec m) = 16"
  by (simp add: md5_spec_def regs_bytes_def Let_def split: prod.split)

lemma md5_hex_spec:
  assumes "length junk = 64" and "length (cstr s) < 2 ^ 28"
  shows "md5_get_hash_hex junk s = concat (map hex_byte (md5_spec (map byte_of (cstr s))))"
  by (simp add: md5_get_hash_hex_def md5_get_hash_spec [OF assms])

lemma md5_ahoj:
  "concat (map hex_byte (md5_spec (map byte_of (cstr ''ahoj'')))) = ''79c2b46ce2594ecbcb5b73e928345492''"
  by code_simp

subsection \<open>The properties\<close>



text \<open>
  \<open>md5_get_hash_hex\<close> gives the digest of the string as 32 lower case hexadecimal digits,
  whatever the uninitialised buffer of the state held. The witness is the example of the program's
  own test: the digest of \<open>ahoj\<close>.
\<close>

theorem md5_hex_digest:
  assumes "length junk = 64" and "length (cstr s) < 2 ^ 28"
  shows "md5_get_hash_hex junk s = concat (map hex_byte (md5_spec (map byte_of (cstr s))))
    \<and> length (md5_get_hash_hex junk s) = 32 \<and> set (md5_get_hash_hex junk s) \<subseteq> set HEX_DIGITS"
  unfolding md5_hex_spec [OF assms] using hex_byte_digits
  by (auto simp: length_hex length_md5_spec)

theorem md5_hex_digest_witness:
  "md5_get_hash_hex (replicate 64 0) ''ahoj'' = ''79c2b46ce2594ecbcb5b73e928345492''"
  using md5_hex_digest [of "replicate 64 0" "''ahoj''"] unfolding md5_ahoj
  by (simp add: cstr_def)

end
