(* ===== verification/Modules.thy ===== *)
theory Modules
  imports ServerParser
begin

text \<open>
  The server's dispatch of requests to its modules: \<open>server/modulemanager.cpp\<close> and
  \<open>server/requesthandler.cpp\<close>, and the list of modules as the client receives it.

  The map of modules is an association list in the order of the URIs. A module is loaded from a
  shared library: what its responder does is a component of the model, a function of the session,
  the request and the reply that returns whether it handled the request.
\<close>

record session =
  sess_authenticated :: bool
  sess_id :: nat
  sess_username :: string

type_synonym responder = "session \<Rightarrow> server_request \<Rightarrow> server_reply \<Rightarrow> bool \<times> session \<times> server_reply"

record module_info =
  mi_name :: string
  mi_description :: string
  mi_type :: nat
  mi_auth :: bool
  mi_handle :: responder

type_synonym module_map = "(string \<times> module_info) list"

text \<open>\<open>uri.substr(0, uri.find("/", 1))\<close>: the part of the URI before its second slash.\<close>

fun module_uri :: "string \<Rightarrow> string" where
  "module_uri [] = []"
| "module_uri (c # s) = c # takeWhile (\<lambda>d. d \<noteq> CHR ''/'') s"

definition module_line :: "string \<times> module_info \<Rightarrow> string" where
  "module_line = (\<lambda>(uri, m). uri @ '';'' @ mi_name m @ '';'' @ mi_description m @ '';'' @
     dec (mi_type m) @ '';'' @ (if mi_auth m then ''1;'' else ''0;'') @ [LF])"

definition sendModulesList :: "module_map \<Rightarrow> server_reply \<Rightarrow> server_reply" where
  "sendModulesList mods reply =
     (let data = ''uri;name;desc;type;need_auth'' @ [LF] @ concat (map module_line mods)
      in setContent (butlast data) reply)"

definition module_manager_handle ::
  "module_map \<Rightarrow> session \<Rightarrow> server_request \<Rightarrow> server_reply \<Rightarrow> bool \<times> session \<times> server_reply" where
  "module_manager_handle mods session req reply =
     (let uri = module_uri (s_uri req)
      in if uri = ''/modules'' then (True, session, sendModulesList mods reply)
         else case map_of mods uri of
           Some info \<Rightarrow>
             (if mi_auth info \<and> \<not> sess_authenticated session then (False, session, reply)
              else mi_handle info session req reply)
         | None \<Rightarrow> (False, session, reply))"

definition handleRequest :: "module_map \<Rightarrow> session \<Rightarrow> server_request \<Rightarrow> session \<times> server_reply" where
  "handleRequest mods session req =
     (case module_manager_handle mods session req (server_reply_new 200 ''text/hamlog'') of
        (handled, session1, reply) \<Rightarrow>
          (if handled then (session1, reply)
           else (session1, setContent ''Bad request'' (setStatus 400 reply))))"

subsection \<open>The list of modules\<close>

definition entry_of :: "string \<times> module_info \<Rightarrow> module_entry" where
  "entry_of = (\<lambda>(uri, m). (uri, mi_name m, mi_description m, mi_type m, mi_auth m))"

lemma entry_uri_entry [simp]: "entry_uri (entry_of m) = fst m"
  by (cases m) (simp add: entry_of_def)

lemma module_line_row: "module_line m = line_text (trailing (module_row (entry_of m))) @ [LF]"
  by (cases m) (simp add: module_line_def entry_of_def module_row_def line_text_trailing)

lemma modules_list_text:
  "''uri;name;desc;type;need_auth'' @ [LF] @ concat (map module_line mods) =
   csv_text (modules_csv (map entry_of mods))"
proof -
  have "concat (map module_line mods) = csv_text (map (trailing \<circ> module_row) (map entry_of mods))"
    by (induction mods) (simp_all add: csv_text_def module_line_row)
  then show ?thesis
    by (simp add: modules_csv_def csv_text_def module_header_def field_text_def)
qed

lemma seps_text_row: "seps_text (map (\<lambda>f. (f, False)) l) = concat (map (\<lambda>f. f @ '';'') l)"
  by (simp add: seps_text_def field_text_def comp_def)

lemma csv_text_snoc: "csv_text (ls @ [l]) = csv_text ls @ line_text l @ [LF]"
  by (simp add: csv_text_def)

text \<open>The list without its last line feed: the last line is not ended.\<close>

lemma modules_content:
  assumes "mods = ms @ [m]"
  shows "sr_content (sendModulesList mods reply) = csv_text (modules_csv (map entry_of ms))
    @ seps_text (map (\<lambda>f. (f, False)) (module_row (entry_of m)))"
proof -
  have "csv_text (modules_csv (map entry_of mods)) = (csv_text (modules_csv (map entry_of ms))
      @ seps_text (map (\<lambda>f. (f, False)) (module_row (entry_of m)))) @ [LF]"
    using assms
    by (simp add: modules_csv_def csv_text_snoc [of "_ # _", simplified] seps_text_row line_text_trailing
        flip: csv_text_snoc)
  moreover have "sr_content (sendModulesList mods reply) = butlast (csv_text (modules_csv (map entry_of mods)))"
    unfolding sendModulesList_def Let_def modules_list_text setContent_def by simp
  ultimately show ?thesis by (metis butlast_snoc)
qed

text \<open>No carriage return in the list, and its size.\<close>

lemma plain_no_cr: "field_ok g \<Longrightarrow> \<not> snd g \<Longrightarrow> CR \<notin> set (field_text g)"
  by (cases g) (auto simp: field_ok_def field_text_def plain_char_def list_all_iff)

lemma line_no_cr: "list_all (\<lambda>g. field_ok g \<and> \<not> snd g) l \<Longrightarrow> CR \<notin> set (line_text l)"
  by (induction l rule: line_text.induct) (auto simp: plain_no_cr)

lemma csv_no_cr: "list_all (list_all (\<lambda>g. field_ok g \<and> \<not> snd g)) ls \<Longrightarrow> CR \<notin> set (csv_text ls)"
  by (induction ls) (auto simp: csv_text_def line_no_cr)

lemma modules_no_cr:
  assumes "list_all entry_ok es"
  shows "CR \<notin> set (csv_text (modules_csv es))"
proof (rule csv_no_cr)
  let ?P = "\<lambda>g :: string \<times> bool. field_ok g \<and> \<not> snd g"
  have "list_all ?P (trailing (module_row e))" if "entry_ok e" for e
    using row_fields_ok [OF that] small_fields_ok(1) by (auto simp: trailing_def list_all_iff)
  then have "list_all (\<lambda>e. list_all ?P (trailing (module_row e))) es"
    using assms unfolding list_all_iff by blast
  moreover have "list_all ?P (map (\<lambda>f. (f, False)) module_header)"
    using header_fields_ok by (simp add: list_all_iff)
  ultimately show "list_all (list_all ?P) (modules_csv es)"
    by (simp add: modules_csv_def list.pred_map comp_def)
qed

abbreviation list_reply :: "string \<Rightarrow> server_reply" where
  "list_reply content \<equiv> setContent content (server_reply_new 200 ''text/hamlog'')"

lemma list_reply_length:
  assumes "length content < 65000"
  shows "length (fst (toString (list_reply content))) < READ_SIZE"
proof -
  have "length (dec (length content)) \<le> 5" using assms by (intro length_dec_le) simp_all
  moreover have "length (strip_cr content) \<le> length content" by (rule strip_cr_props)
  ultimately show ?thesis
    using assms
    by (auto simp: toString_def setContent_def server_reply_new_def print_header_def
        status_text_of_def READ_SIZE_def Let_def)
qed

text \<open>A client that has asked for the list reads a reply with some content.\<close>

lemma client_reads_list:
  assumes "no_nul content" and "CR \<notin> set content" and "length content < 65000"
    and "polite react" and "c_fd c \<noteq> -1" and "p_state (c_parser c) = http_version_h"
    and "fresh_reply (c_reply c)" and "c_handlers c = (Some Connect_response, u) # hs"
    and "ham_connection_parse_modules junk_field (c_modules c) content = Inr t"
  shows "\<exists>c'. ham_connection_read_data react junk_field junk (Recv (fst (toString (list_reply content)))) c
      = Inr c' \<and> c_fd c' = c_fd c \<and> c_modules c' = t"
proof -
  let ?r = "list_reply content"
  have strip: "strip_cr content = content"
    using assms(2) by (auto simp: strip_cr_def filter_id_conv)
  have inv: "server_reply_inv ?r" by (intro server_reply_inv_ops)
  have hs: "headers_ok (sr_headers ?r)" "sr_content ?r = content" "sr_status ?r = 200"
    by (simp_all add: setContent_def server_reply_new_def sample_defs)
  have "length (sr_content ?r) < MAX_REPLY_SIZE" using hs(2) assms(3) by (simp add: MAX_REPLY_SIZE_def)
  then obtain w where w: "wire_ok w" "server_wire ?r w"
    using server_wire_ok [OF inv hs(1)] assms(1) hs(2) strip by auto
  then have sent: "wire_text w = fst (toString ?r)" by (simp add: server_wire_def split: prod.splits)
  have "length (wire_text w) < READ_SIZE" using list_reply_length [OF assms(3)] sent by simp
  from read_one_reply [OF w(1) assms(5) this assms(6,7)] obtain p q where q: "reply_of w q"
    "ham_connection_read_data react junk_field junk (Recv (wire_text w)) c =
      reply_done react junk_field (junk (length (wire_text w) - 1)) (c\<lparr>c_parser := p, c_reply := q\<rparr>)"
    by blast
  have "ham_reply_get_status q = 200" "ham_reply_get_content q = Inr content"
    using q(1) w(2) hs strip
    by (auto simp: reply_of_def server_wire_def sent_status_def split: prod.splits)
  with reply_done_modules [OF assms(4) w(1), of "c\<lparr>c_parser := p, c_reply := q\<rparr>" u hs content
      junk_field t] q assms(8,9) sent show ?thesis by auto
qed

subsection \<open>The properties\<close>

text \<open>
  C13. A session that is not authenticated cannot reach the responder of a module that needs
  authentication: whatever such responders do, the result of every request is the same.
\<close>

theorem unauthenticated_never_reaches_protected:
  assumes "\<not> sess_authenticated session"
  shows "handleRequest (map (\<lambda>(uri, m). (uri, if mi_auth m then m\<lparr>mi_handle := h uri\<rparr> else m)) mods)
      session req = handleRequest mods session req"
proof -
  let ?f = "\<lambda>(uri, m). (uri, if mi_auth m then m\<lparr>mi_handle := h uri\<rparr> else m)"
  have lookup: "map_of (map ?f mods) u =
      map_option (\<lambda>m. if mi_auth m then m\<lparr>mi_handle := h u\<rparr> else m) (map_of mods u)" for u
    by (induction mods) auto
  have "sendModulesList (map ?f mods) reply = sendModulesList mods reply" for reply
  proof -
    have "map module_line (map ?f mods) = map module_line mods"
      by (induction mods) (auto simp: module_line_def)
    then show ?thesis by (simp only: sendModulesList_def)
  qed
  then have "module_manager_handle (map ?f mods) session req reply =
      module_manager_handle mods session req reply" for reply
    using assms lookup [of "module_uri (s_uri req)"]
    by (auto simp: module_manager_handle_def Let_def split: option.splits)
  then show ?thesis by (simp add: handleRequest_def)
qed

definition guest :: session where
  "guest = \<lparr>sess_authenticated = False, sess_id = 0, sess_username = []\<rparr>"

definition qrz_module :: "string \<times> module_info" where
  "qrz_module = (''/qrz'', \<lparr>mi_name = ''QRZ'', mi_description = ''callsigns'', mi_type = 1, mi_auth = True,
     mi_handle = (\<lambda>s q r. (True, s, r))\<rparr>)"

theorem unauthenticated_never_reaches_protected_witness:
  "handleRequest (map (\<lambda>(uri, m). (uri, if mi_auth m then m\<lparr>mi_handle := \<lambda>s q r. (False, s, r)\<rparr> else m))
     [qrz_module]) guest (new_request\<lparr>s_uri := ''/qrz/x''\<rparr>)
   = handleRequest [qrz_module] guest (new_request\<lparr>s_uri := ''/qrz/x''\<rparr>)"
  using unauthenticated_never_reaches_protected [of guest "\<lambda>_ s q r. (False, s, r)" "[qrz_module]"]
  by (simp add: guest_def)

text \<open>
  C39. The client never learns of the server's last module. The server removes the last line feed of
  its list, the client's CSV parser drops a last line that ends with a separator, and so the client
  that has asked for the list ends up with all modules but the last one, and nothing under its URI.
\<close>

theorem last_module_is_lost:
  assumes "mods = ms @ [m]" and "entries_ok (c_modules c) (map entry_of mods)"
    and "length (sr_content (sendModulesList mods (server_reply_new 200 ''text/hamlog''))) < 65000"
    and "polite react" and "c_fd c \<noteq> -1" and "p_state (c_parser c) = http_version_h"
    and "fresh_reply (c_reply c)" and "c_handlers c = (Some Connect_response, u) # hs"
    and "module_uri (s_uri req) = ''/modules''"
  shows "\<exists>c'. ham_connection_read_data react junk_field junk
      (Recv (fst (toString (snd (handleRequest mods session req))))) c = Inr c' \<and> c_fd c' = c_fd c
    \<and> (\<forall>e \<in> set (map entry_of ms). ham_connection_get_module c' (entry_uri e) = Inr (Some (module_of e)))
    \<and> ham_connection_get_module c' (fst m) = Inr None"
proof -
  let ?es = "map entry_of ms" and ?e = "entry_of m"
  let ?content = "sr_content (sendModulesList mods (server_reply_new 200 ''text/hamlog''))"
  have sent: "snd (handleRequest mods session req) = list_reply ?content"
    using assms(9) by (simp add: handleRequest_def module_manager_handle_def sendModulesList_def
        setContent_def Let_def)
  have entries: "entries_ok (c_modules c) ?es" and e: "entry_ok ?e" and all_ok: "list_all entry_ok (map entry_of mods)"
    and fresh: "table_get (c_modules c) (fst m) = None" "fst m \<notin> entry_uri ` set ?es"
    using assms(1,2) by (simp_all add: entries_ok_def image_image)
  obtain l g where row: "map (\<lambda>f. (f, False)) (module_row ?e) = l @ [g]"
    by (cases "map (\<lambda>f. (f, False)) (module_row ?e)" rule: rev_cases) (auto simp: module_row_def split: prod.splits)
  have content: "?content = csv_text (modules_csv ?es) @ seps_text (l @ [g])"
    using modules_content [OF assms(1)] row by simp
  have fields: "list_all field_ok (l @ [g])" using row_fields_ok [OF e] row by simp
  have list_ok: "csv_ok (modules_csv ?es)" using entries by (intro modules_csv_ok) (simp add: entries_ok_def)
  have "?content = butlast (csv_text (modules_csv (map entry_of mods)))"
    unfolding sendModulesList_def Let_def modules_list_text setContent_def by simp
  then have no_cr: "CR \<notin> set ?content" using modules_no_cr [OF all_ok] by (auto dest: in_set_butlastD)
  have no_nul: "no_nul ?content" using no_nul_text [OF list_ok] no_nul_seps [OF fields] content by simp
  have "ham_csv_parse junk_field ?content = Inr (map (map fst) (modules_csv ?es))"
    using parse_unterminated [OF list_ok fields small_fields_ok(1), of junk_field] content by simp
  from parse_modules_table [OF entries this] obtain t where
    t: "ham_connection_parse_modules junk_field (c_modules c) ?content = Inr t"
    and get: "\<And>k. table_get t k = (case map_of (map (\<lambda>e. (entry_uri e, module_of e)) ?es) k of
            None \<Rightarrow> table_get (c_modules c) k | Some m \<Rightarrow> Some m)" by blast
  obtain c' where c': "ham_connection_read_data react junk_field junk (Recv (fst (toString (list_reply ?content)))) c
      = Inr c'" "c_fd c' = c_fd c" "c_modules c' = t"
    using client_reads_list [OF no_nul no_cr assms(3-8) t] by blast
  have "ham_connection_get_module c' (entry_uri e) = Inr (Some (module_of e))" if e_in: "e \<in> set ?es" for e
  proof -
    have "distinct (map entry_uri ?es)" "entry_ok e"
      using entries e_in unfolding entries_ok_def list_all_iff by blast+
    from map_of_entry [OF this(1) e_in, of module_of] this(2) show ?thesis
      using get [of "entry_uri e"] entry_ok_uri [of e] c'(3)
      by (simp add: ham_connection_get_module_def lookup_str)
  qed
  moreover have "ham_connection_get_module c' (fst m) = Inr None"
    using get [of "fst m"] fresh map_of_other_uri [OF fresh(2), of module_of] c'(3) entry_ok_uri [OF e]
    by (simp add: ham_connection_get_module_def lookup_str)
  ultimately show ?thesis unfolding sent using c'(1,2) by blast
qed


definition waiting_client :: "(nat, nat) connection" where
  "waiting_client = connection0\<lparr>c_handlers := [(Some Connect_response, 0)]\<rparr>"

definition dxcc_module :: "string \<times> module_info" where
  "dxcc_module = (''/dxcc'', \<lparr>mi_name = ''DXCC'', mi_description = ''zones'', mi_type = 1, mi_auth = False,
     mi_handle = (\<lambda>s q r. (True, s, r))\<rparr>)"

theorem last_module_is_lost_witness:
  "\<exists>c'. ham_connection_read_data (\<lambda>_ c. c) (\<lambda>_. NUL) (\<lambda>_ _. NUL) (Recv (fst (toString (snd
      (handleRequest [dxcc_module, qrz_module] guest (new_request\<lparr>s_uri := ''/modules''\<rparr>)))))) waiting_client = Inr c'
    \<and> ham_connection_get_module c' ''/dxcc'' = Inr (Some (module_of (entry_of dxcc_module)))
    \<and> ham_connection_get_module c' ''/qrz'' = Inr None"
proof -
  have "entries_ok (c_modules waiting_client) (map entry_of [dxcc_module, qrz_module])"
    by (simp add: waiting_client_def connection0_def entries_ok_def table_inv_new table_get_new
        dxcc_module_def qrz_module_def entry_of_def entry_ok_def field_ok_def plain_char_def FIELD_SIZE_def)
  moreover have "length (dec 1) \<le> 1" by (rule length_dec_le) simp_all
  then have "length (sr_content (sendModulesList [dxcc_module, qrz_module]
      (server_reply_new 200 ''text/hamlog''))) < 65000"
    by (simp add: sendModulesList_def setContent_def module_line_def dxcc_module_def qrz_module_def Let_def)
  moreover have "polite (\<lambda>_ c. c :: (nat, nat) connection)" by (simp add: polite_def)
  ultimately show ?thesis
    using last_module_is_lost [of "[dxcc_module, qrz_module]" "[dxcc_module]" qrz_module waiting_client
        "\<lambda>_ c. c" 0 "[]" "new_request\<lparr>s_uri := ''/modules''\<rparr>" "\<lambda>_. NUL" "\<lambda>_ _. NUL" guest] start0
    by (force simp: waiting_client_def connection0_def entry_of_def dxcc_module_def qrz_module_def)
qed

end
