(* ===== verification/Account.thy ===== *)
theory Account
  imports Services Md5 Modules
begin

text \<open>
  Accounts: the client's \<open>library/account.c\<close> and the server's \<open>responders/login.cpp\<close> and
  \<open>responders/register.cpp\<close>.

  Both sides have a copy of the same parser for the fields of a digest challenge; its result is here
  the list of the fields in their order. A pointer variable that may be read before it was assigned
  is a \<open>local_ptr\<close>. The MD5 states are not initialised: \<open>junk n\<close> is what the buffer of the \<open>n\<close>-th
  one holds. The table of users is behind two arguments, \<open>ins\<close> and \<open>sel\<close>: inserting a name and a
  password, which may be refused, and looking up the password and the number of a name.
\<close>

subsection \<open>The fields of a challenge\<close>

definition digest_blank :: "char \<Rightarrow> bool" where
  "digest_blank c \<longleftrightarrow> c = SP \<or> c = TAB \<or> c = CR \<or> c = LF"

text \<open>The end of a token: a comma outside quotes, or the end of the string.\<close>

fun token_end :: "bool \<Rightarrow> string \<Rightarrow> string \<times> string" where
  "token_end in_quotes [] = ([], [])"
| "token_end in_quotes (c # s) =
     (if \<not> in_quotes \<and> c = CHR '','' then ([], c # s)
      else case token_end (if c = DQUOTE then \<not> in_quotes else in_quotes) s of
        (token, cur) \<Rightarrow> (c # token, cur))"

text \<open>
  The name before the first equals sign and the value behind it, without the blanks and quotes at
  its ends. The comma, or the NUL, after the token is the first character the loop from the right
  drops.
\<close>

definition token_value :: "string \<Rightarrow> string" where
  "token_value v =
     rev (dropWhile (\<lambda>c. digest_blank c \<or> c = CHR '','' \<or> c = DQUOTE)
       (rev (dropWhile (\<lambda>c. digest_blank c \<or> c = DQUOTE) v)))"

definition token_field :: "string \<Rightarrow> (string \<times> string option) list" where
  "token_field token =
     (let name = takeWhile (\<lambda>c. c \<noteq> CHR ''='') token;
          rest = dropWhile (\<lambda>c. c \<noteq> CHR ''='') token
      in if name = [] then []
         else [(name, (case rest of [] \<Rightarrow> None | _ # v \<Rightarrow> Some (token_value v)))])"

lemma token_end_length: "length (fst (token_end q s)) + length (snd (token_end q s)) = length s"
  by (induction q s rule: token_end.induct) (auto split: prod.split)

lemma digest_rest_shorter:
  assumes "(token, cur) = token_end False s" and "cur \<noteq> []"
  shows "length (dropWhile P (tl cur)) < length s"
proof -
  have "length (dropWhile P (tl cur)) \<le> length (tl cur)" by (rule length_dropWhile_le)
  moreover have "length (tl cur) < length cur" using assms(2) by simp
  moreover have "length cur \<le> length s" using token_end_length [of False s] assms(1) [symmetric] by simp
  ultimately show ?thesis by simp
qed

function digest_fields :: "string \<Rightarrow> (string \<times> string option) list" where
  "digest_fields s =
     (if s = [] then []
      else case token_end False s of (token, cur) \<Rightarrow>
        token_field token @
        (if cur = [] then []
         else digest_fields (dropWhile (\<lambda>c. digest_blank c \<or> c = CHR '','') (tl cur))))"
  by pat_completeness auto
termination
  by (relation "measure length") (auto intro!: digest_rest_shorter)

declare digest_fields.simps [simp del]

subsection \<open>The client\<close>

definition ham_register_handle_response :: "reply \<Rightarrow> ('g, 'v) services \<Rightarrow> ('g, 'v) services result" where
  "ham_register_handle_response r V =
     (if ham_reply_get_status r = 200 then
        Inr (log_outcomes [Signalled ''account-registered'' (Some []) 0] V)
      else rmap (\<lambda>content. log_outcomes [Signalled ''account-registered'' (Some content) 1] V)
        (ham_reply_get_content r))"

definition ham_account_register :: "reaction' \<Rightarrow> ('g, 'v) services \<Rightarrow> ('g, 'v) services result" where
  "ham_account_register react V =
     send_request react (Some ''/register'') ''GET'' None None
       [(''username'', c_username (v_conn V)), (''password'', c_password (v_conn V))] S_register None V"

definition ham_account_login :: "reaction' \<Rightarrow> ('g, 'v) services \<Rightarrow> ('g, 'v) services result" where
  "ham_account_login react V = send_request react (Some ''/login'') ''GET'' None None [] S_login1 None V"

text \<open>\<open>p\<close>: the address of the closure of the DX cluster's request, \<open>null\<close>: a null user pointer.\<close>

definition ham_login_handle_get_response2 ::
  "reaction' \<Rightarrow> nat \<Rightarrow> 'v \<Rightarrow> reply \<Rightarrow> ('g, 'v) services \<Rightarrow> ('g, 'v) services result" where
  "ham_login_handle_get_response2 react p null r V =
     (if ham_reply_get_status r = 401 then
        Inr (log_outcomes [Signalled ''account-logged-in'' (Some ''Bad username or password'') 1] V)
      else
        rbind (rbind (has_module V ''/qrz'') (\<lambda>found.
            if found then ham_qrz_fetch_username react V else Inr V)) (\<lambda>V1.
          rmap (log_outcomes [Signalled ''account-logged-in'' (Some []) 0])
            (ham_dxcluster_fetch react p None null V1)))"

text \<open>The list: value and name of each field are inserted at its beginning, the last field is first.\<close>

definition ham_login_digest_md5_parse :: "string \<Rightarrow> string option list" where
  "ham_login_digest_md5_parse digest =
     fold (\<lambda>(name, v) ret. Some name # v # ret) (digest_fields digest) []"

datatype local_ptr = Uninit | Ptr "string option"

record challenge =
  ch_qop :: local_ptr
  ch_realm :: local_ptr
  ch_nonce :: local_ptr
  ch_opaque :: local_ptr

definition challenge_start :: challenge where
  "challenge_start = \<lparr>ch_qop = Uninit, ch_realm = Uninit, ch_nonce = Uninit, ch_opaque = Ptr None\<rparr>"

definition challenge_set :: "string \<Rightarrow> string \<Rightarrow> challenge \<Rightarrow> challenge" where
  "challenge_set name v c =
     (if name = ''qop'' then c\<lparr>ch_qop := Ptr (Some v)\<rparr>
      else if name = ''realm'' then c\<lparr>ch_realm := Ptr (Some v)\<rparr>
      else if name = ''nonce'' then c\<lparr>ch_nonce := Ptr (Some v)\<rparr>
      else if name = ''opaque'' then c\<lparr>ch_opaque := Ptr (Some v)\<rparr>
      else c)"

text \<open>The loop that pops names and values; a null value ends it.\<close>

fun pop_fields :: "string option list \<Rightarrow> challenge \<Rightarrow> challenge" where
  "pop_fields (Some name # Some v # l) c = pop_fields l (challenge_set name v c)"
| "pop_fields l c = c"

text \<open>\<open>!qop || !realm || !nonce || !opaque\<close>\<close>

fun any_null :: "local_ptr list \<Rightarrow> bool result" where
  "any_null [] = Inr False"
| "any_null (Uninit # l) = Inl Uninitialised"
| "any_null (Ptr None # l) = Inr True"
| "any_null (Ptr (Some v) # l) = any_null l"

fun ptr_str :: "local_ptr \<Rightarrow> string" where
  "ptr_str (Ptr (Some v)) = v"
| "ptr_str _ = []"

definition digest_response :: "(nat \<Rightarrow> byte list) \<Rightarrow> string \<Rightarrow> string \<Rightarrow> string \<Rightarrow> string \<Rightarrow> string" where
  "digest_response junk username password realm nonce =
     (let ha1 = md5_get_hash_hex (junk 1) (username @ '':'' @ realm @ '':'' @ password);
          ha2 = md5_get_hash_hex (junk 2) ''GET:/login''
      in md5_get_hash_hex (junk 3) (ha1 @ '':'' @ nonce @ '':'' @ ha2))"

definition authorization_text :: "string \<Rightarrow> string \<Rightarrow> string \<Rightarrow> string \<Rightarrow> string" where
  "authorization_text username realm response opaque =
     ''Digest username='' @ [DQUOTE] @ username @ [DQUOTE] @ '',''
     @ ''realm='' @ [DQUOTE] @ realm @ [DQUOTE] @ '',''
     @ ''nonce='' @ [DQUOTE] @ ''dcd98b7102dd2f0e8b11d0f600bfb0c093'' @ [DQUOTE] @ '',''
     @ ''uri='' @ [DQUOTE] @ ''/login'' @ [DQUOTE] @ '',''
     @ ''qop=auth,''
     @ ''response='' @ [DQUOTE] @ response @ [DQUOTE] @ '',''
     @ ''opaque='' @ [DQUOTE] @ opaque @ [DQUOTE] @ '')''"

text \<open>\<open>snprintf\<close> writes at most 511 characters. \<open>auth + 7\<close> is read without a check.\<close>

definition ham_login_handle_get_response1 ::
  "reaction' \<Rightarrow> (nat \<Rightarrow> byte list) \<Rightarrow> reply \<Rightarrow> ('g, 'v) services \<Rightarrow> ('g, 'v) services result" where
  "ham_login_handle_get_response1 react junk r V =
     (if ham_reply_get_status r = 401 then
        (case ham_reply_get_header r ''WWW-Authenticate'' of
           None \<Rightarrow> Inl Null_deref
         | Some auth \<Rightarrow>
             if length auth < 7 then Inl Unterminated
             else let c = pop_fields (ham_login_digest_md5_parse (drop 7 auth)) challenge_start
               in rbind (any_null [ch_qop c, ch_realm c, ch_nonce c, ch_opaque c]) (\<lambda>stop.
                 if stop then Inr V
                 else
                   let realm = ptr_str (ch_realm c);
                       response = digest_response junk (c_username (v_conn V)) (c_password (v_conn V))
                         realm (ptr_str (ch_nonce c));
                       authorization = take 511 (authorization_text (c_username (v_conn V)) realm response
                         (ptr_str (ch_opaque c)))
                   in send_request react (Some ''/login'') ''GET'' None None
                        [(''Authorization'', authorization)] S_login2 None V))
      else Inr (log_outcomes [Signalled ''account-logged-in'' (Some []) 0] V))"

subsection \<open>The server\<close>

definition getHashHEX :: "byte list \<Rightarrow> string \<Rightarrow> string" where
  "getHashHEX junk s = concat (map hex_byte (md5_finish (md5_append (map byte_of s) (md5_init junk))))"

definition SERVER_NONCE :: string where
  "SERVER_NONCE = ''dcd98b7102dd2f0e8b11d0f600bfb0c093''"

definition SERVER_OPAQUE :: string where
  "SERVER_OPAQUE = ''5ccc069c403ebaf9f0171e9517f40e41''"

definition challenge_text :: string where
  "challenge_text = ''Digest realm='' @ [DQUOTE] @ ''realm@hamlog'' @ [DQUOTE] @ '',qop='' @ [DQUOTE]
     @ ''auth,auth-int'' @ [DQUOTE] @ '',nonce='' @ [DQUOTE] @ SERVER_NONCE @ [DQUOTE]
     @ '',opaque='' @ [DQUOTE] @ SERVER_OPAQUE @ [DQUOTE]"

definition createAuthorizationRequest :: "server_reply \<Rightarrow> server_reply" where
  "createAuthorizationRequest reply =
     setContentType ''text/html'' (setStatus 401 (setContent ''Authentication''
       (addHeader \<lparr>hname = ''WWW-Authenticate'', hvalue = challenge_text\<rparr> reply)))"

text \<open>\<open>ret[name] = value\<close>: a string made from a null pointer throws.\<close>

definition digest_md5_parse :: "string \<Rightarrow> (string \<rightharpoonup> string) result" where
  "digest_md5_parse digest =
     fold (\<lambda>(name, v) ret. rbind ret (\<lambda>m. case v of None \<Rightarrow> Inl Uncaught | Some w \<Rightarrow> Inr (m(name \<mapsto> w))))
       (digest_fields digest) (Inr Map.empty)"

definition login_fields :: "string list" where
  "login_fields = [''username'', ''realm'', ''nonce'', ''uri'', ''qop'', ''response'', ''opaque'']"

definition setAuthenticated :: "bool \<Rightarrow> nat \<Rightarrow> string \<Rightarrow> session \<Rightarrow> session" where
  "setAuthenticated authenticated i username s =
     s\<lparr>sess_authenticated := authenticated, sess_id := i, sess_username := username\<rparr>"

definition login_handle ::
  "(string \<Rightarrow> (string \<times> nat) option) \<Rightarrow> (nat \<Rightarrow> byte list) \<Rightarrow> session \<Rightarrow> server_request \<Rightarrow> server_reply
   \<Rightarrow> (bool \<times> session \<times> server_reply) result" where
  "login_handle sel junk session req reply =
     (if \<not> hasHeader (s_headers req) ''Authorization'' then
        Inr (True, session, createAuthorizationRequest reply)
      else
        let auth = getHeader (s_headers req) ''Authorization''
        in if length auth < 7 then Inl Uncaught
           else rbind (digest_md5_parse (cstr (drop 7 auth))) (\<lambda>fields.
             if \<not> list_all (\<lambda>n. fields n \<noteq> None) login_fields then
               Inr (True, session, createAuthorizationRequest reply)
             else
               let username = the (fields ''username'')
               in case sel username of
                 None \<Rightarrow> Inr (True, setAuthenticated False 0 [] session, createAuthorizationRequest reply)
               | Some (ha1, i) \<Rightarrow>
                   let ha2 = getHashHEX (junk 1) ''GET:/login'';
                       a3 = ha1 @ '':'' @ SERVER_NONCE @ '':'' @ ha2;
                       response = getHashHEX (junk 2) a3
                   in if response = the (fields ''response'') then
                        Inr (True, setAuthenticated True i username session,
                          setContentType ''text/html'' (setContent ''Authorized'' reply))
                      else Inr (True, setAuthenticated False 0 [] session, createAuthorizationRequest reply)))"

definition register_handle ::
  "('st \<Rightarrow> string \<Rightarrow> string \<Rightarrow> bool \<times> 'st) \<Rightarrow> byte list \<Rightarrow> 'st \<Rightarrow> server_request \<Rightarrow> server_reply
   \<Rightarrow> bool \<times> 'st \<times> server_reply" where
  "register_handle ins junk st req reply =
     (if s_method req \<noteq> ''GET'' then (False, st, reply)
      else
        let username = getHeader (s_headers req) ''username'';
            password = getHashHEX junk (username @ '':realm@hamlog:'' @ getHeader (s_headers req) ''password'')
        in case ins st username password of (accepted, st1) \<Rightarrow>
             (if accepted then (True, st1, setContent ''Registered'' reply)
              else (True, st1, setContent ''This username is already taken.'' (setStatus 400 reply))))"


subsection \<open>Reading a list of fields\<close>

lemma token_end_plain:
  "list_all (\<lambda>c. c \<noteq> CHR '','' \<and> c \<noteq> DQUOTE) a \<Longrightarrow>
   token_end False (a @ s) = (a @ fst (token_end False s), snd (token_end False s))"
  by (induction a) (auto split: prod.split)

lemma token_end_quoted:
  "DQUOTE \<notin> set a \<Longrightarrow> token_end True (a @ s) = (a @ fst (token_end True s), snd (token_end True s))"
  by (induction a) (auto split: prod.split)

definition trimmed :: "string \<Rightarrow> bool" where
  "trimmed v \<longleftrightarrow> v \<noteq> [] \<and> \<not> digest_blank (hd v) \<and> \<not> digest_blank (last v) \<and> last v \<noteq> CHR '',''
     \<and> DQUOTE \<notin> set v"

lemma token_value_quoted: "trimmed v \<Longrightarrow> token_value (DQUOTE # v @ [DQUOTE]) = v"
proof -
  assume t: "trimmed v"
  then obtain x xs where v: "v = x # xs" by (cases v) (auto simp: trimmed_def)
  have "hd v \<noteq> DQUOTE" "last v \<noteq> DQUOTE"
    using t hd_in_set [of v] last_in_set [of v] by (auto simp: trimmed_def simp del: hd_in_set last_in_set)
  then have "dropWhile (\<lambda>c. digest_blank c \<or> c = DQUOTE) (DQUOTE # v @ [DQUOTE]) = v @ [DQUOTE]"
    using t v by (auto simp: trimmed_def)
  moreover obtain ys y where "v = ys @ [y]" using v by (metis rev_exhaust list.distinct(1))
  moreover from this have "dropWhile (\<lambda>c. digest_blank c \<or> c = CHR '','' \<or> c = DQUOTE) (rev (v @ [DQUOTE])) = rev v"
    using t by (auto simp: trimmed_def)
  ultimately show ?thesis by (simp add: token_value_def)
qed

definition field_name :: "string \<Rightarrow> bool" where
  "field_name n \<longleftrightarrow> n \<noteq> [] \<and> list_all (\<lambda>c. c \<noteq> CHR '','' \<and> c \<noteq> DQUOTE \<and> c \<noteq> CHR ''='') n"

definition quoted_field :: "string \<Rightarrow> string \<Rightarrow> string" where
  "quoted_field n v = n @ ''='' @ [DQUOTE] @ v @ [DQUOTE]"

lemma quoted_field_end:
  assumes "field_name n" and "DQUOTE \<notin> set v"
  shows "token_end False (quoted_field n v @ CHR '','' # s) = (quoted_field n v, CHR '','' # s)"
proof -
  have "list_all (\<lambda>c. c \<noteq> CHR '','' \<and> c \<noteq> DQUOTE) n"
    using assms(1) by (auto simp: field_name_def list_all_iff)
  then show ?thesis
    using assms(2) by (simp add: quoted_field_def token_end_plain token_end_quoted)
qed

lemma quoted_token_field:
  assumes "field_name n" and "trimmed v"
  shows "token_field (quoted_field n v) = [(n, Some v)]"
proof -
  have "\<forall>c \<in> set n. c \<noteq> CHR ''=''" using assms(1) by (auto simp: field_name_def list_all_iff)
  then have "takeWhile (\<lambda>c. c \<noteq> CHR ''='') (quoted_field n v) = n"
    and "dropWhile (\<lambda>c. c \<noteq> CHR ''='') (quoted_field n v) = CHR ''='' # DQUOTE # v @ [DQUOTE]"
    by (simp_all add: quoted_field_def takeWhile_append2 dropWhile_append2)
  then show ?thesis using assms token_value_quoted by (simp add: token_field_def field_name_def)
qed

text \<open>The rest begins with a name.\<close>

lemma digest_fields_quoted:
  assumes "field_name n" and "trimmed v" and "s \<noteq> []" and "\<not> digest_blank (hd s)" and "hd s \<noteq> CHR '',''"
  shows "digest_fields (quoted_field n v @ CHR '','' # s) = (n, Some v) # digest_fields s"
proof -
  have "DQUOTE \<notin> set v" using assms(2) by (simp add: trimmed_def)
  moreover have "dropWhile (\<lambda>c. digest_blank c \<or> c = CHR '','') s = s"
    using assms(3-) by (cases s) auto
  ultimately show ?thesis
    using quoted_field_end [OF assms(1)] quoted_token_field [OF assms(1,2)]
    by (subst digest_fields.simps) (simp add: quoted_field_def)
qed

subsection \<open>The challenge and its answer\<close>

lemma challenge_fields:
  "digest_fields (drop 7 challenge_text) = [(''realm'', Some ''realm@hamlog''), (''qop'', Some ''auth,auth-int''),
     (''nonce'', Some SERVER_NONCE), (''opaque'', Some SERVER_OPAQUE)]"
  by code_simp

lemma challenge_read:
  "pop_fields (ham_login_digest_md5_parse (drop 7 challenge_text)) challenge_start =
     \<lparr>ch_qop = Ptr (Some ''auth,auth-int''), ch_realm = Ptr (Some ''realm@hamlog''),
      ch_nonce = Ptr (Some SERVER_NONCE), ch_opaque = Ptr (Some SERVER_OPAQUE)\<rparr>"
  by (simp add: ham_login_digest_md5_parse_def challenge_fields challenge_start_def challenge_set_def)

text \<open>The fields behind the user name; the closing parenthesis becomes part of the last one.\<close>

lemma answer_end_fields:
  "digest_fields (''opaque='' @ [DQUOTE] @ SERVER_OPAQUE @ [DQUOTE] @ '')'') =
     [(''opaque'', Some (SERVER_OPAQUE @ [DQUOTE] @ '')''))]"
  by code_simp

lemma answer_middle_fields:
  assumes "s \<noteq> []" and "\<not> digest_blank (hd s)" and "hd s \<noteq> CHR '',''"
  shows "digest_fields (''qop=auth,'' @ s) = (''qop'', Some ''auth'') # digest_fields s"
proof -
  have "token_end False (''qop=auth,'' @ s) = (''qop=auth'', CHR '','' # s)" by simp
  moreover have "token_field ''qop=auth'' = [(''qop'', Some ''auth'')]" by code_simp
  moreover have "dropWhile (\<lambda>c. digest_blank c \<or> c = CHR '','') s = s"
    using assms by (cases s) auto
  ultimately show ?thesis by (subst digest_fields.simps) simp
qed

lemma answer_shape:
  "drop 7 (authorization_text u realm response opaque) =
     quoted_field ''username'' u @ CHR '','' # quoted_field ''realm'' realm @ CHR '','' #
     quoted_field ''nonce'' SERVER_NONCE @ CHR '','' # quoted_field ''uri'' ''/login'' @ CHR '','' #
     ''qop=auth,'' @ quoted_field ''response'' response @ CHR '','' #
     ''opaque='' @ [DQUOTE] @ opaque @ [DQUOTE] @ '')''"
  by (simp add: authorization_text_def quoted_field_def SERVER_NONCE_def)

lemma field_names:
  "field_name ''username''" "field_name ''realm''" "field_name ''nonce''" "field_name ''uri''"
  "field_name ''response''"
  by (simp_all add: field_name_def)

lemma trimmed_values: "trimmed ''realm@hamlog''" "trimmed SERVER_NONCE" "trimmed ''/login''"
  by (simp_all add: trimmed_def digest_blank_def SERVER_NONCE_def)

lemma quoted_field_hd:
  "field_name n \<Longrightarrow> hd (quoted_field n v @ s) = hd n \<and> quoted_field n v \<noteq> []"
  by (cases n) (auto simp: quoted_field_def field_name_def)

lemma not_blank_letters:
  "\<not> digest_blank (hd ''realm'')" "\<not> digest_blank (hd ''nonce'')" "\<not> digest_blank (hd ''uri'')"
  "\<not> digest_blank (hd ''response'')" "\<not> digest_blank CHR ''q''" "\<not> digest_blank CHR ''o''"
  by (simp_all add: digest_blank_def)

lemma answer_fields:
  assumes "trimmed u" and "trimmed response"
  shows "digest_fields (drop 7 (authorization_text u ''realm@hamlog'' response SERVER_OPAQUE)) =
    [(''username'', Some u), (''realm'', Some ''realm@hamlog''), (''nonce'', Some SERVER_NONCE),
     (''uri'', Some ''/login''), (''qop'', Some ''auth''), (''response'', Some response),
     (''opaque'', Some (SERVER_OPAQUE @ [DQUOTE] @ '')''))]"
proof -
  have 1: "digest_fields (quoted_field ''response'' response @ CHR '','' # ''opaque='' @ [DQUOTE] @ SERVER_OPAQUE @ [DQUOTE] @ '')'')
      = [(''response'', Some response), (''opaque'', Some (SERVER_OPAQUE @ [DQUOTE] @ '')''))]"
    (is "digest_fields ?r = _")
    using digest_fields_quoted [OF field_names(5) assms(2), of "''opaque='' @ [DQUOTE] @ SERVER_OPAQUE @ [DQUOTE] @ '')''"]
      answer_end_fields not_blank_letters(6) by simp
  have r: "?r \<noteq> []" "hd ?r = CHR ''r''" "\<not> digest_blank (hd ?r)"
    using quoted_field_hd [OF field_names(5)] by (simp_all add: digest_blank_def)
  have 2: "digest_fields (''qop=auth,'' @ ?r) = (''qop'', Some ''auth'') # digest_fields ?r"
    using r by (intro answer_middle_fields) simp_all
  have 3: "digest_fields (quoted_field ''uri'' ''/login'' @ CHR '','' # ''qop=auth,'' @ ?r)
      = (''uri'', Some ''/login'') # digest_fields (''qop=auth,'' @ ?r)" (is "digest_fields ?s = _")
    by (rule digest_fields_quoted [OF field_names(4) trimmed_values(3)]) (simp_all add: digest_blank_def)
  have 4: "digest_fields (quoted_field ''nonce'' SERVER_NONCE @ CHR '','' # ?s)
      = (''nonce'', Some SERVER_NONCE) # digest_fields ?s" (is "digest_fields ?t = _")
    using quoted_field_hd [OF field_names(4)]
    by (intro digest_fields_quoted [OF field_names(3) trimmed_values(2)]) (simp_all add: digest_blank_def)
  have 5: "digest_fields (quoted_field ''realm'' ''realm@hamlog'' @ CHR '','' # ?t)
      = (''realm'', Some ''realm@hamlog'') # digest_fields ?t" (is "digest_fields ?w = _")
    using quoted_field_hd [OF field_names(3)]
    by (intro digest_fields_quoted [OF field_names(2) trimmed_values(1)]) (simp_all add: digest_blank_def)
  have "digest_fields (quoted_field ''username'' u @ CHR '','' # ?w)
      = (''username'', Some u) # digest_fields ?w"
    using quoted_field_hd [OF field_names(2)]
    by (intro digest_fields_quoted [OF field_names(1) assms(1)]) (simp_all add: digest_blank_def)
  then show ?thesis unfolding answer_shape 5 4 3 2 1 by simp
qed

subsection \<open>The digest of the credentials\<close>

definition stored_password :: "byte list \<Rightarrow> string \<Rightarrow> string \<Rightarrow> string" where
  "stored_password junk username password = getHashHEX junk (username @ '':realm@hamlog:'' @ password)"

text \<open>The digest as a text, whatever the buffer held.\<close>

definition hex_digest :: "string \<Rightarrow> string" where
  "hex_digest s = concat (map hex_byte (md5_spec (map byte_of s)))"

lemma getHashHEX_digest:
  "length junk = 64 \<Longrightarrow> length s < 2 ^ 28 \<Longrightarrow> getHashHEX junk s = hex_digest s"
  using md5_pieces [of junk "[map byte_of s]"] by (simp add: getHashHEX_def hex_digest_def)

lemma md5_hex_digest_text:
  "length junk = 64 \<Longrightarrow> length s < 2 ^ 28 \<Longrightarrow> no_nul s \<Longrightarrow> md5_get_hash_hex junk s = hex_digest s"
  by (simp add: hex_digest_def md5_hex_spec)

lemma hex_digest_digits: "set (hex_digest s) \<subseteq> set HEX_DIGITS"
  using hex_byte_digits by (auto simp: hex_digest_def)

lemma length_hex_digest [simp]: "length (hex_digest s) = 32"
  by (simp add: hex_digest_def length_hex length_md5_spec)

lemma digit_facts:
  assumes "c \<in> set HEX_DIGITS"
  shows "\<not> digest_blank c \<and> c \<noteq> CHR '','' \<and> c \<noteq> DQUOTE \<and> c \<noteq> NUL \<and> \<not> isControl c"
proof -
  have "\<forall>c \<in> set HEX_DIGITS.
      \<not> digest_blank c \<and> c \<noteq> CHR '','' \<and> c \<noteq> DQUOTE \<and> c \<noteq> NUL \<and> \<not> isControl c"
    by code_simp
  with assms show ?thesis by blast
qed

lemma digest_text_facts:
  "trimmed (hex_digest s)" "no_nul (hex_digest s)" "list_all (\<lambda>c. \<not> isControl c) (hex_digest s)"
proof -
  have ne: "hex_digest s \<noteq> []" using length_hex_digest [of s] by (metis list.size(3) zero_neq_numeral)
  have all: "c \<in> set (hex_digest s) \<Longrightarrow>
      \<not> digest_blank c \<and> c \<noteq> CHR '','' \<and> c \<noteq> DQUOTE \<and> c \<noteq> NUL \<and> \<not> isControl c" for c
    using hex_digest_digits digit_facts by blast
  then show "no_nul (hex_digest s)" and "list_all (\<lambda>c. \<not> isControl c) (hex_digest s)"
    by (auto simp: no_nul_def list_all_iff)
  show "trimmed (hex_digest s)"
    using ne all [OF hd_in_set [OF ne]] all [OF last_in_set [OF ne]] all by (auto simp: trimmed_def)
qed

definition credentials_ok :: "string \<Rightarrow> string \<Rightarrow> bool" where
  "credentials_ok u p \<longleftrightarrow> trimmed u \<and> list_all (\<lambda>c. \<not> isControl c) u \<and> length u \<le> 320
     \<and> no_nul p \<and> length p < 2 ^ 27"

lemma printable_no_nul: "list_all (\<lambda>c. \<not> isControl c) s \<Longrightarrow> no_nul s"
  using value_not_end by (auto simp: list_all_iff no_nul_def)

definition digest_answer :: "string \<Rightarrow> string \<Rightarrow> string" where
  "digest_answer u p = hex_digest (hex_digest (u @ '':realm@hamlog:'' @ p) @ '':'' @ SERVER_NONCE @ '':''
     @ hex_digest ''GET:/login'')"

lemma length_digest_answer [simp]: "length (digest_answer u p) = 32"
  by (simp add: digest_answer_def)

lemma digest_response_digest:
  assumes "\<forall>n. length (junk n) = 64" and "credentials_ok u p"
  shows "digest_response junk u p ''realm@hamlog'' SERVER_NONCE
    = digest_answer u p"
proof -
  have "no_nul u" "no_nul p" "length u + length p + 16 < 2 ^ 28"
    using assms(2) printable_no_nul by (auto simp: credentials_ok_def)
  then show ?thesis
    using assms(1) digest_text_facts
    by (simp add: digest_response_def md5_hex_digest_text SERVER_NONCE_def digest_answer_def)
qed

lemma authorization_length: "length (authorization_text u ''realm@hamlog'' response SERVER_OPAQUE)
    = length u + length response + 159"
  by (simp add: authorization_text_def SERVER_OPAQUE_def)

lemma authorization_printable:
  assumes "list_all (\<lambda>c. \<not> isControl c) u" and "list_all (\<lambda>c. \<not> isControl c) response"
  shows "list_all (\<lambda>c. \<not> isControl c) (authorization_text u ''realm@hamlog'' response SERVER_OPAQUE)"
  using assms by (simp add: authorization_text_def SERVER_OPAQUE_def isControl_def schar_def)

lemma answer_parsed:
  assumes "trimmed u" and "trimmed response"
  shows "\<exists>m. digest_md5_parse (drop 7 (authorization_text u ''realm@hamlog'' response SERVER_OPAQUE)) = Inr m
    \<and> m ''username'' = Some u \<and> m ''response'' = Some response
    \<and> list_all (\<lambda>n. m n \<noteq> None) login_fields"
  unfolding digest_md5_parse_def answer_fields [OF assms] by (simp add: login_fields_def)

subsection \<open>The server's check of the answer\<close>

lemma login_answer:
  assumes "credentials_ok u p" and "\<forall>n. length (sjunk n) = 64" and "length rjunk = 64"
    and "sel u = Some (stored_password rjunk u p, i)"
    and "s_headers q = [\<lparr>hname = ''Authorization'',
      hvalue = authorization_text u ''realm@hamlog'' (digest_answer u p) SERVER_OPAQUE\<rparr>]"
  shows "login_handle sel sjunk session q reply =
    Inr (True, setAuthenticated True i u session, setContentType ''text/html'' (setContent ''Authorized'' reply))"
proof -
  let ?stored = "hex_digest (u @ '':realm@hamlog:'' @ p)"
  let ?auth = "authorization_text u ''realm@hamlog'' (digest_answer u p) SERVER_OPAQUE"
  have u: "trimmed u" "list_all (\<lambda>c. \<not> isControl c) u" "length u \<le> 320" "length p < 2 ^ 27"
    using assms(1) by (simp_all add: credentials_ok_def)
  have resp: "trimmed (digest_answer u p)" "list_all (\<lambda>c. \<not> isControl c) (digest_answer u p)"
    unfolding digest_answer_def by (rule digest_text_facts)+
  obtain m where m: "digest_md5_parse (drop 7 ?auth) = Inr m" "m ''username'' = Some u"
    "m ''response'' = Some (digest_answer u p)" "list_all (\<lambda>n. m n \<noteq> None) login_fields"
    using answer_parsed [OF u(1) resp(1)] by blast
  have "no_nul (drop 7 ?auth)"
    using printable_no_nul [OF authorization_printable [OF u(2) resp(2)]] in_set_dropD
    by (fastforce simp: no_nul_def)
  then have c: "cstr (drop 7 ?auth) = drop 7 ?auth" by simp
  have "stored_password rjunk u p = ?stored"
    using assms(3) u(3,4) by (simp add: stored_password_def getHashHEX_digest)
  moreover have "getHashHEX (sjunk 2) (?stored @ '':'' @ SERVER_NONCE @ '':'' @ getHashHEX (sjunk 1) ''GET:/login'')
      = digest_answer u p"
    using assms(2) by (simp add: getHashHEX_digest SERVER_NONCE_def digest_answer_def)
  moreover have "\<not> length ?auth < 7" by (simp add: authorization_length)
  ultimately show ?thesis
    using assms(4,5) m c by (simp add: login_handle_def hasHeader_def getHeader_def Let_def)
qed

subsection \<open>Incomplete challenges\<close>

lemma digest_list: "ham_login_digest_md5_parse s = concat (map (\<lambda>(n, v). [Some n, v]) (rev (digest_fields s)))"
proof -
  have "fold (\<lambda>(name, v) ret. Some name # v # ret) fs l
      = concat (map (\<lambda>(n, v). [Some n, v]) (rev fs)) @ l"
    for fs :: "(string \<times> string option) list" and l
    by (induction fs arbitrary: l) auto
  then show ?thesis by (simp add: ham_login_digest_md5_parse_def)
qed

lemma pop_all:
  "\<forall>(n, v) \<in> set fs. v \<noteq> None \<Longrightarrow> pop_fields (concat (map (\<lambda>(n, v). [Some n, v]) fs)) c
     = fold (\<lambda>(n, v). challenge_set n (the v)) fs c"
  by (induction fs arbitrary: c) auto

lemma challenge_set_uninit:
  "ch_qop (challenge_set n v c) = Uninit \<longleftrightarrow> n \<noteq> ''qop'' \<and> ch_qop c = Uninit"
  "ch_realm (challenge_set n v c) = Uninit \<longleftrightarrow> n \<noteq> ''realm'' \<and> ch_realm c = Uninit"
  "ch_nonce (challenge_set n v c) = Uninit \<longleftrightarrow> n \<noteq> ''nonce'' \<and> ch_nonce c = Uninit"
  "n \<noteq> ''opaque'' \<Longrightarrow> ch_opaque (challenge_set n v c) = ch_opaque c"
  by (auto simp: challenge_set_def)

lemma challenge_set_fold:
  "ch_qop (fold (\<lambda>(n, v). challenge_set n (the v)) fs c) = Uninit
     \<longleftrightarrow> ch_qop c = Uninit \<and> ''qop'' \<notin> fst ` set fs"
  "ch_realm (fold (\<lambda>(n, v). challenge_set n (the v)) fs c) = Uninit
     \<longleftrightarrow> ch_realm c = Uninit \<and> ''realm'' \<notin> fst ` set fs"
  "ch_nonce (fold (\<lambda>(n, v). challenge_set n (the v)) fs c) = Uninit
     \<longleftrightarrow> ch_nonce c = Uninit \<and> ''nonce'' \<notin> fst ` set fs"
  "''opaque'' \<notin> fst ` set fs \<Longrightarrow> ch_opaque (fold (\<lambda>(n, v). challenge_set n (the v)) fs c) = ch_opaque c"
  by (induction fs arbitrary: c) (auto simp: challenge_set_uninit)

lemma challenge_set_not_null:
  "ch_qop c \<noteq> Ptr None \<Longrightarrow> ch_qop (challenge_set n v c) \<noteq> Ptr None"
  "ch_realm c \<noteq> Ptr None \<Longrightarrow> ch_realm (challenge_set n v c) \<noteq> Ptr None"
  "ch_nonce c \<noteq> Ptr None \<Longrightarrow> ch_nonce (challenge_set n v c) \<noteq> Ptr None"
  by (auto simp: challenge_set_def)

lemma challenge_not_null:
  "ch_qop c \<noteq> Ptr None \<Longrightarrow> ch_qop (fold (\<lambda>(n, v). challenge_set n (the v)) fs c) \<noteq> Ptr None"
  "ch_realm c \<noteq> Ptr None \<Longrightarrow> ch_realm (fold (\<lambda>(n, v). challenge_set n (the v)) fs c) \<noteq> Ptr None"
  "ch_nonce c \<noteq> Ptr None \<Longrightarrow> ch_nonce (fold (\<lambda>(n, v). challenge_set n (the v)) fs c) \<noteq> Ptr None"
  by (induction fs arbitrary: c) (simp_all add: challenge_set_not_null case_prod_beta)

lemma any_null_cases:
  assumes "\<forall>p \<in> set ps. p \<noteq> Ptr None"
  shows "any_null (ps @ qs) = (if Uninit \<in> set ps then Inl Uninitialised else any_null qs)"
  using assms
proof (induction ps)
  case Nil
  show ?case by simp
next
  case (Cons p ps)
  consider "p = Uninit" | v where "p = Ptr (Some v)"
    using Cons.prems by (cases p) fastforce+
  then show ?case
  proof cases
    case 1
    then show ?thesis by simp
  next
    case 2
    then show ?thesis using Cons by simp
  qed
qed

subsection \<open>The properties\<close>

text \<open>
  C6. Logging in succeeds: a client with an open connection that gets the server's challenge sends
  an answer that arrives at the server as one request, and the server, if it stored for the user
  the digest that \<open>Register::handleRequest\<close> computes, authenticates the session. The name may have
  at most 320 characters, for a longer one \<open>snprintf\<close> cuts the answer.
\<close>

theorem login_succeeds:
  assumes "c_fd (v_conn V) \<noteq> -1" and "credentials_ok (c_username (v_conn V)) (c_password (v_conn V))"
    and "ham_reply_get_status r = 401" and "ham_reply_get_header r ''WWW-Authenticate'' = Some challenge_text"
    and "\<forall>n. length (junk n) = 64" and "\<forall>n. length (sjunk n) = 64" and "length rjunk = 64"
    and "sel (c_username (v_conn V))
      = Some (stored_password rjunk (c_username (v_conn V)) (c_password (v_conn V)), i)"
  shows "\<exists>V' bytes q. ham_login_handle_get_response1 quiet junk r V = Inr V'
    \<and> last (c_events (v_conn V')) = Wrote (c_fd (v_conn V)) bytes
    \<and> c_handlers (v_conn V') = c_handlers (v_conn V) @ [(Some (Client_handler S_login2), None)]
    \<and> rq_parse rq_method_start new_request bytes = Inr (length bytes, rq_method_start, q)
    \<and> s_finished q \<and> s_method q = ''GET'' \<and> s_uri q = ''/login''
    \<and> login_handle sel sjunk session q reply =
        Inr (True, setAuthenticated True i (c_username (v_conn V)) session,
          setContentType ''text/html'' (setContent ''Authorized'' reply))"
proof -
  let ?u = "c_username (v_conn V)" and ?p = "c_password (v_conn V)"
  let ?resp = "digest_answer ?u ?p"
  let ?auth = "authorization_text ?u ''realm@hamlog'' ?resp SERVER_OPAQUE"
  let ?h = "[(''Authorization'', ?auth)]"
  have u: "trimmed ?u" "list_all (\<lambda>c. \<not> isControl c) ?u" "length ?u \<le> 320" "length ?p < 2 ^ 27"
    using assms(2) by (simp_all add: credentials_ok_def)
  have short: "length ?auth \<le> 511" using u(3) by (simp add: authorization_length)
  have printable: "list_all (\<lambda>c. \<not> isControl c) ?auth"
    using authorization_printable [OF u(2)] digest_text_facts(3) by (simp add: digest_answer_def)
  have "7 \<le> length challenge_text" by (simp add: challenge_text_def)
  then have sent: "ham_login_handle_get_response1 quiet junk r V =
      send_request quiet (Some ''/login'') ''GET'' None None ?h S_login2 None V"
    using assms(3,4) short
    by (simp add: ham_login_handle_get_response1_def challenge_read Let_def
        digest_response_digest [OF assms(5,2)])
  have "request_ok (service_request ''/login'' ''GET'' None None ?h)"
    using printable short
    by (simp add: service_request_def request_ok_def method_ok_def uri_ok_def sample_defs)
  from send_request_arrives [OF assms(1) _ this, of S_login2 None]
  obtain V' bytes q where arrived: "send_request quiet (Some ''/login'') ''GET'' None None ?h S_login2 None V = Inr V'"
    "last (c_events (v_conn V')) = Wrote (c_fd (v_conn V)) bytes"
    "c_handlers (v_conn V') = c_handlers (v_conn V) @ [(Some (Client_handler S_login2), None)]"
    "rq_parse rq_method_start new_request bytes = Inr (length bytes, rq_method_start, q)"
    and q: "q = (parsed_request (service_request ''/login'' ''GET'' None None ?h) [])\<lparr>s_finished := True\<rparr>"
    by (auto simp: sendable_def hasHeader_def)
  have head: "s_headers q = [\<lparr>hname = ''Authorization'', hvalue = ?auth\<rparr>]" "s_finished q" "s_method q = ''GET''"
    "s_uri q = ''/login''"
    by (simp_all add: q parsed_request_def service_request_def wire_headers_def)
  have "login_handle sel sjunk session q reply =
      Inr (True, setAuthenticated True i ?u session, setContentType ''text/html'' (setContent ''Authorized'' reply))"
    using assms(2,6,7,8) head(1) by (intro login_answer) simp_all
  then show ?thesis using sent arrived head by auto
qed

definition challenge_reply :: "string \<Rightarrow> reply" where
  "challenge_reply t = \<lparr>r_status = 401, r_content = (\<lambda>_. NUL),
     r_headers = [\<lparr>hname = ''WWW-Authenticate'', hvalue = t\<rparr>], r_finished = True\<rparr>"

lemma challenge_reply_simps:
  "ham_reply_get_status (challenge_reply t) = 401"
  "ham_reply_get_header (challenge_reply t) ''WWW-Authenticate'' = Some t"
  by (simp_all add: challenge_reply_def ham_reply_get_status_def ham_reply_get_header_def)

definition one_user :: "string \<Rightarrow> (string \<times> nat) option" where
  "one_user name = (if name = ''u'' then Some (stored_password (replicate 64 1) ''u'' ''p'', 7) else None)"

definition session0 :: session where
  "session0 = \<lparr>sess_authenticated = False, sess_id = 0, sess_username = []\<rparr>"

theorem login_succeeds_witness:
  "\<exists>V' bytes q. ham_login_handle_get_response1 quiet (\<lambda>_. replicate 64 0) (challenge_reply challenge_text) services0
      = Inr V'
    \<and> last (c_events (v_conn V')) = Wrote 3 bytes
    \<and> rq_parse rq_method_start new_request bytes = Inr (length bytes, rq_method_start, q)
    \<and> login_handle one_user (\<lambda>_. replicate 64 2) session0 q (server_reply_new 200 ''text/hamlog'') =
        Inr (True, setAuthenticated True 7 ''u'' session0,
          setContentType ''text/html'' (setContent ''Authorized'' (server_reply_new 200 ''text/hamlog'')))"
proof -
  have "credentials_ok ''u'' ''p''"
    by (simp add: credentials_ok_def trimmed_def digest_blank_def isControl_def schar_def)
  then show ?thesis
    using login_succeeds [OF _ _ challenge_reply_simps, of services0 "\<lambda>_. replicate 64 0"
        "\<lambda>_. replicate 64 2" "replicate 64 1" one_user 7]
    by (fastforce simp: services0_def one_user_def)
qed

text \<open>
  C14. Only the digest authenticates: when \<open>Login::handleRequest\<close> turns a session into an
  authenticated one, the request's \<open>Authorization\<close> header has all the fields, its user is known, the
  session gets this user's name and number, and the \<open>response\<close> field is the digest of the stored
  password, the nonce and the digest of the request line.
\<close>

theorem login_needs_digest:
  assumes "login_handle sel junk s q reply = Inr (b, s1, reply1)"
    and "sess_authenticated s1" and "\<not> sess_authenticated s"
  shows "\<exists>fields ha1. digest_md5_parse (cstr (drop 7 (getHeader (s_headers q) ''Authorization''))) = Inr fields
    \<and> list_all (\<lambda>n. fields n \<noteq> None) login_fields
    \<and> fields ''username'' = Some (sess_username s1) \<and> sel (sess_username s1) = Some (ha1, sess_id s1)
    \<and> fields ''response''
        = Some (getHashHEX (junk 2) (ha1 @ '':'' @ SERVER_NONCE @ '':'' @ getHashHEX (junk 1) ''GET:/login''))"
  using assms
  by (auto simp: login_handle_def Let_def rbind_Inr_iff setAuthenticated_def login_fields_def
      split: if_splits option.splits)

definition answer_request :: server_request where
  "answer_request = new_request\<lparr>s_headers := [\<lparr>hname = ''Authorization'',
     hvalue = authorization_text ''u'' ''realm@hamlog'' (digest_answer ''u'' ''p'') SERVER_OPAQUE\<rparr>]\<rparr>"

theorem login_needs_digest_witness:
  "\<exists>s1 fields. login_handle one_user (\<lambda>_. replicate 64 2)
        session0 answer_request
        (server_reply_new 200 ''text/hamlog'') = Inr (True, s1,
          setContentType ''text/html'' (setContent ''Authorized'' (server_reply_new 200 ''text/hamlog'')))
    \<and> digest_md5_parse (cstr (drop 7 (getHeader (s_headers answer_request) ''Authorization''))) = Inr fields
    \<and> fields ''username'' = Some (sess_username s1) \<and> sess_id s1 = 7"
proof -
  have "credentials_ok ''u'' ''p''"
    by (simp add: credentials_ok_def trimmed_def digest_blank_def isControl_def schar_def)
  note run = login_answer [OF this, of "\<lambda>_. replicate 64 2" "replicate 64 1" one_user 7 answer_request
      "session0" "server_reply_new 200 ''text/hamlog''"]
  show ?thesis
    using login_needs_digest [OF run] run
    by (auto simp: one_user_def answer_request_def setAuthenticated_def session0_def)
qed

text \<open>
  A challenge that is not complete: when a field \<open>qop\<close>, \<open>realm\<close> or \<open>nonce\<close> is missing the client
  reads an uninitialised variable; when only \<open>opaque\<close> is missing it stops without sending anything
  and without telling anyone.
\<close>

theorem challenge_incomplete:
  assumes "ham_reply_get_status r = 401" and "ham_reply_get_header r ''WWW-Authenticate'' = Some auth"
    and "7 \<le> length auth" and "\<forall>(n, v) \<in> set (digest_fields (drop 7 auth)). v \<noteq> None"
    and "names = fst ` set (digest_fields (drop 7 auth))" and "''opaque'' \<notin> names"
  shows "ham_login_handle_get_response1 react junk r V =
    (if {''qop'', ''realm'', ''nonce''} \<subseteq> names then Inr V else Inl Uninitialised)"
proof -
  let ?fs = "rev (digest_fields (drop 7 auth))"
  let ?c = "fold (\<lambda>(n, v). challenge_set n (the v)) ?fs challenge_start"
  have c: "pop_fields (ham_login_digest_md5_parse (drop 7 auth)) challenge_start = ?c"
    unfolding digest_list using assms(4) by (intro pop_all) auto
  have "ch_opaque ?c = Ptr None"
    using assms(5,6) by (subst challenge_set_fold(4)) (simp_all add: challenge_start_def)
  moreover have "\<forall>p \<in> set [ch_qop ?c, ch_realm ?c, ch_nonce ?c]. p \<noteq> Ptr None"
    by (simp add: challenge_not_null challenge_start_def)
  ultimately have "any_null [ch_qop ?c, ch_realm ?c, ch_nonce ?c, ch_opaque ?c]
      = (if Uninit \<in> {ch_qop ?c, ch_realm ?c, ch_nonce ?c} then Inl Uninitialised else Inr True)"
    using any_null_cases [of "[ch_qop ?c, ch_realm ?c, ch_nonce ?c]" "[ch_opaque ?c]"] by simp
  moreover have "Uninit \<in> {ch_qop ?c, ch_realm ?c, ch_nonce ?c} \<longleftrightarrow> \<not> {''qop'', ''realm'', ''nonce''} \<subseteq> names"
    using challenge_set_fold [of ?fs challenge_start] assms(5) by (auto simp: challenge_start_def)
  ultimately show ?thesis
    using assms(1-3) c by (simp add: ham_login_handle_get_response1_def Let_def)
qed

theorem challenge_incomplete_witness:
  "ham_login_handle_get_response1 quiet (\<lambda>_. []) (challenge_reply ''Digest qop=auth,realm=r'') services0
    = Inl Uninitialised"
proof -
  have "digest_fields ''qop=auth,realm=r'' = [(''qop'', Some ''auth''), (''realm'', Some ''r'')]"
    by code_simp
  then show ?thesis
    using challenge_incomplete [OF challenge_reply_simps, of "''Digest qop=auth,realm=r''" "{''qop'', ''realm''}"
        quiet "\<lambda>_. []" services0]
    by simp
qed

end
