(* ===== verification/StdMap.thy ===== *)
theory StdMap
  imports Prelude "HOL-Library.List_Lexorder"
begin

text \<open>
  \<open>std::map\<close> with strings as keys, as the server uses it: an association list in the
  order of the keys, which is the order of iteration. The interface \<open>string_map\<close> states what the
  clients of the map rely on.
\<close>

type_synonym 'v std_map = "(string \<times> 'v) list"

type_synonym smap = "string std_map"

text \<open>\<open>m[k] = v\<close>\<close>

fun smap_set :: "string \<Rightarrow> 'v \<Rightarrow> 'v std_map \<Rightarrow> 'v std_map" where
  "smap_set k v [] = [(k, v)]"
| "smap_set k v ((a, w) # m) =
     (if k = a then (k, v) # m
      else if k < a then (k, v) # (a, w) # m
      else (a, w) # smap_set k v m)"

definition smap_get :: "'v std_map \<Rightarrow> string \<Rightarrow> 'v option" where
  "smap_get m k = map_of m k"

definition smap_erase :: "string \<Rightarrow> 'v std_map \<Rightarrow> 'v std_map" where
  "smap_erase k m = filter (\<lambda>(a, _). a \<noteq> k) m"

text \<open>Reading \<open>m[k]\<close>, which adds an empty string for a key that is not there.\<close>

definition smap_at :: "string \<Rightarrow> smap \<Rightarrow> string \<times> smap" where
  "smap_at k m = (case smap_get m k of Some v \<Rightarrow> (v, m) | None \<Rightarrow> ([], smap_set k [] m))"

definition smap_inv :: "'v std_map \<Rightarrow> bool" where
  "smap_inv m \<longleftrightarrow> sorted_wrt (<) (map fst m)"

text \<open>The interface: the map as a function, and what the operations do to it.\<close>

locale string_map =
  fixes inv :: "'m \<Rightarrow> bool"
    and get :: "'m \<Rightarrow> string \<Rightarrow> 'v option"
    and put :: "string \<Rightarrow> 'v \<Rightarrow> 'm \<Rightarrow> 'm"
    and del :: "string \<Rightarrow> 'm \<Rightarrow> 'm"
    and entries :: "'m \<Rightarrow> (string \<times> 'v) list"
  assumes get_put: "get (put k v m) = (get m)(k \<mapsto> v)"
    and get_del: "get (del k m) = (get m)(k := None)"
    and inv_put: "inv m \<Longrightarrow> inv (put k v m)"
    and inv_del: "inv m \<Longrightarrow> inv (del k m)"
    and entries_get: "inv m \<Longrightarrow> (k, v) \<in> set (entries m) \<longleftrightarrow> get m k = Some v"
    and entries_keys: "inv m \<Longrightarrow> distinct (map fst (entries m))"
begin

lemma get_put_same: "get (put k v m) k = Some v"
  by (simp add: get_put)

lemma get_put_other: "a \<noteq> k \<Longrightarrow> get (put k v m) a = get m a"
  by (simp add: get_put)

lemma put_in_entries: "inv m \<Longrightarrow> (k, v) \<in> set (entries (put k v m))"
  by (simp add: entries_get inv_put get_put_same)

lemma put_other_in_entries:
  "inv m \<Longrightarrow> a \<noteq> k \<Longrightarrow> (a, w) \<in> set (entries (put k v m)) \<longleftrightarrow> (a, w) \<in> set (entries m)"
  by (simp add: entries_get inv_put get_put_other)

lemma del_keys: "inv m \<Longrightarrow> k \<notin> fst ` set (entries (del k m))"
  using entries_get [OF inv_del, of m k] by (auto simp: get_del)

lemma put_put: "get (put a v (put b w m)) = (if a = b then get (put a v m) else get (put b w (put a v m)))"
  by (auto simp: get_put fun_eq_iff)

end

lemma map_of_smap_set: "map_of (smap_set k v m) = (map_of m)(k \<mapsto> v)"
  by (induction k v m rule: smap_set.induct) (auto simp: fun_eq_iff)

lemma smap_set_keys: "fst ` set (smap_set k v m) = insert k (fst ` set m)"
  by (induction k v m rule: smap_set.induct) auto

lemma smap_inv_set: "smap_inv m \<Longrightarrow> smap_inv (smap_set k v m)"
proof (induction k v m rule: smap_set.induct)
  case (2 k v a w m)
  have keys: "set (map fst (smap_set k v m)) = insert k (fst ` set m)"
    using smap_set_keys [of k v m] by simp
  have low: "\<forall>b \<in> fst ` set m. a < b" and m: "smap_inv m"
    using 2(2) by (auto simp: smap_inv_def)
  consider "k = a" | "k < a" | "a < k" by fastforce
  then show ?case
  proof cases
    case 1
    with 2(2) show ?thesis by (simp add: smap_inv_def)
  next
    case 2
    with low m show ?thesis by (auto simp: smap_inv_def intro: order.strict_trans)
  next
    case 3
    then have n: "k \<noteq> a" "\<not> k < a" by auto
    with 2(1) m have "smap_inv (smap_set k v m)" by blast
    with n 3 low keys show ?thesis by (auto simp: smap_inv_def)
  qed
qed (simp add: smap_inv_def)

lemma smap_inv_erase: "smap_inv m \<Longrightarrow> smap_inv (smap_erase k m)"
  by (induction m) (auto simp: smap_inv_def smap_erase_def)

lemma smap_distinct: "smap_inv m \<Longrightarrow> distinct (map fst m)"
  by (simp add: smap_inv_def strict_sorted_iff)

lemma smap_get_erase: "smap_get (smap_erase k m) = (smap_get m)(k := None)"
  by (induction m) (auto simp: smap_get_def smap_erase_def fun_eq_iff)

interpretation sm: string_map "smap_inv :: 'v std_map \<Rightarrow> bool" smap_get smap_set smap_erase "\<lambda>m. m"
proof unfold_locales
  fix k :: string and v :: 'v and m :: "'v std_map"
  show "smap_get (smap_set k v m) = (smap_get m)(k \<mapsto> v)"
    by (rule ext) (simp add: smap_get_def map_of_smap_set)
  show "smap_get (smap_erase k m) = (smap_get m)(k := None)"
    by (rule smap_get_erase)
  show "smap_inv m \<Longrightarrow> smap_inv (smap_set k v m)" by (rule smap_inv_set)
  show "smap_inv m \<Longrightarrow> smap_inv (smap_erase k m)" by (rule smap_inv_erase)
  show "smap_inv m \<Longrightarrow> (k, v) \<in> set m \<longleftrightarrow> smap_get m k = Some v"
    by (simp add: smap_get_def smap_distinct)
  show "smap_inv m \<Longrightarrow> distinct (map fst m)" by (rule smap_distinct)
qed

lemma smap_inv_Nil [simp]: "smap_inv []"
  by (simp add: smap_inv_def)

lemma smap_get_Nil [simp]: "smap_get [] k = None"
  by (simp add: smap_get_def)

lemmas smap_simps = sm.get_put sm.get_del sm.inv_put sm.inv_del

lemma smap_at_value: "fst (smap_at k m) = (case smap_get m k of Some v \<Rightarrow> v | None \<Rightarrow> [])"
  by (simp add: smap_at_def split: option.splits)

lemma smap_at_inv: "smap_inv m \<Longrightarrow> smap_inv (snd (smap_at k m))"
  by (simp add: smap_at_def smap_simps split: option.splits)

end
