(* ===== verification/Storage.thy ===== *)
theory Storage
  imports StdMap
begin

text \<open>
  The server's storage: the queries of \<open>server/storagebackend.h\<close> and the statements that
  \<open>server/storagebackends/sqlite3backend.cpp\<close> makes of them.

  SQLite itself is an argument, the \<open>engine\<close>: a function from the text of a statement and the
  values bound to its parameters to its rows (a null value is \<open>None\<close>) and whether it ran to its end,
  or an error when it cannot be prepared. Statements and values reach it as C strings.
\<close>

datatype column_type = Integer | String | Datetime | Real | Other_type int

record column =
  col'_name :: string
  col'_type :: column_type
  col'_not_null :: bool
  col'_primary_key :: bool
  col'_unique :: bool
  col'_size :: int

definition new_column :: "string \<Rightarrow> column_type \<Rightarrow> int \<Rightarrow> bool \<Rightarrow> bool \<Rightarrow> column" where
  "new_column name ty sz not_null primary_key =
     \<lparr>col'_name = name, col'_type = ty, col'_not_null = not_null, col'_primary_key = primary_key,
      col'_unique = False, col'_size = sz\<rparr>"

record select_query =
  sel_table :: string
  sel_what :: "string list"
  sel_where :: smap

definition new_select :: "string \<Rightarrow> select_query" where
  "new_select table = \<lparr>sel_table = table, sel_what = [], sel_where = []\<rparr>"

definition select_where :: "string \<Rightarrow> string \<Rightarrow> select_query \<Rightarrow> select_query" where
  "select_where name v q = q\<lparr>sel_where := smap_set name v (sel_where q)\<rparr>"

definition select_what :: "string \<Rightarrow> select_query \<Rightarrow> select_query" where
  "select_what name q = q\<lparr>sel_what := sel_what q @ [name]\<rparr>"

definition select_reset :: "select_query \<Rightarrow> select_query" where
  "select_reset q = q\<lparr>sel_where := []\<rparr>"

text \<open>The row of an insert is a pointer to a map its owner changes; here the map is passed along.\<close>

record insert_query =
  ins_table :: string
  ins_row :: smap
  ins_where :: smap

definition new_insert :: "string \<Rightarrow> insert_query" where
  "new_insert table = \<lparr>ins_table = table, ins_row = [], ins_where = []\<rparr>"

definition insert_where :: "string \<Rightarrow> string \<Rightarrow> insert_query \<Rightarrow> insert_query" where
  "insert_where name v q = q\<lparr>ins_where := smap_set name v (ins_where q)\<rparr>"

definition insert_what :: "smap \<Rightarrow> insert_query \<Rightarrow> insert_query" where
  "insert_what row q = q\<lparr>ins_row := row\<rparr>"

subsection \<open>The engine\<close>

datatype sql_result = Not_prepared | Rows "string option list list" bool

type_synonym 'db engine = "string \<Rightarrow> string list \<Rightarrow> 'db \<Rightarrow> sql_result \<times> 'db"

text \<open>\<open>PREP_STMT\<close>, \<open>BIND_STR\<close> for every value, and the steps of the statement.\<close>

definition run_statement :: "'db engine \<Rightarrow> string \<Rightarrow> string list \<Rightarrow> 'db \<Rightarrow> sql_result \<times> 'db" where
  "run_statement engine sql values db = engine (cstr sql) (map cstr values) db"

definition exec_sql :: "'db engine \<Rightarrow> string \<Rightarrow> 'db \<Rightarrow> bool \<times> 'db" where
  "exec_sql engine sql db = (case run_statement engine sql [] db of
     (Not_prepared, db1) \<Rightarrow> (False, db1)
   | (Rows _ done, db1) \<Rightarrow> (done, db1))"

text \<open>\<open>sqlite3_step\<close> must give \<open>SQLITE_DONE\<close> at once: a row is an error too.\<close>

definition execute_statement :: "'db engine \<Rightarrow> string \<Rightarrow> string list \<Rightarrow> 'db \<Rightarrow> bool \<times> 'db" where
  "execute_statement engine sql values db = (case run_statement engine sql values db of
     (Not_prepared, db1) \<Rightarrow> (False, db1)
   | (Rows rows done, db1) \<Rightarrow> (rows = [] \<and> done, db1))"

subsection \<open>The statements\<close>

definition int_text :: "int \<Rightarrow> string" where
  "int_text n = (if n < 0 then CHR ''-'' # dec (nat (- n)) else dec (nat n))"

text \<open>A column of a type the \<open>switch\<close> does not know stops after its name.\<close>

definition column_text :: "column \<Rightarrow> string" where
  "column_text c =
     (let flags = (if col'_primary_key c then ''PRIMARY KEY '' else [])
            @ (if col'_not_null c then ''NOT NULL '' else [])
            @ (if col'_unique c then ''UNIQUE '' else []) @ '',''
      in ''  '' @ col'_name c @ '' '' @ (case col'_type c of
           Integer \<Rightarrow> ''INTEGER '' @ flags
         | Real \<Rightarrow> ''REAL '' @ flags
         | String \<Rightarrow> ''VARCHAR('' @ int_text (col'_size c) @ '') '' @ flags
         | Datetime \<Rightarrow> ''datetime '' @ flags
         | Other_type _ \<Rightarrow> []))"

definition create_table_sql :: "string \<Rightarrow> string \<Rightarrow> column list \<Rightarrow> string" where
  "create_table_sql prefix name columns =
     butlast (''CREATE TABLE IF NOT EXISTS '' @ prefix @ name @ ''('' @ concat (map column_text columns)) @ '');''"

definition createTable :: "'db engine \<Rightarrow> string \<Rightarrow> string \<Rightarrow> column list \<Rightarrow> 'db \<Rightarrow> bool \<times> 'db" where
  "createTable engine prefix name columns db = exec_sql engine (create_table_sql prefix name columns) db"

definition where_sql :: "smap \<Rightarrow> string" where
  "where_sql w = '' WHERE'' @ concat (map (\<lambda>(n, _). '' '' @ n @ ''=? AND'') w) @ '' 1;''"

definition select_sql :: "string \<Rightarrow> select_query \<Rightarrow> string" where
  "select_sql prefix q =
     ''SELECT '' @ (if sel_what q = [] then ''* '' else butlast (concat (map (\<lambda>n. n @ '','') (sel_what q))))
     @ '' FROM '' @ prefix @ sel_table q
     @ (if sel_where q = [] then '';'' else where_sql (sel_where q))"

definition sqlite_select ::
  "'db engine \<Rightarrow> string \<Rightarrow> select_query \<Rightarrow> 'db \<Rightarrow> bool \<times> string list list \<times> 'db" where
  "sqlite_select engine prefix q db =
     (case run_statement engine (select_sql prefix q) (map snd (sel_where q)) db of
       (Not_prepared, db1) \<Rightarrow> (False, [], db1)
     | (Rows rows done, db1) \<Rightarrow>
         (done, map (map (\<lambda>v. case v of None \<Rightarrow> [] | Some s \<Rightarrow> cstr s)) rows, db1))"

definition remove_sql :: "string \<Rightarrow> select_query \<Rightarrow> string" where
  "remove_sql prefix q = ''DELETE FROM '' @ prefix @ sel_table q @ where_sql (sel_where q)"

definition sqlite_remove :: "'db engine \<Rightarrow> string \<Rightarrow> select_query \<Rightarrow> 'db \<Rightarrow> bool \<times> 'db" where
  "sqlite_remove engine prefix q db =
     execute_statement engine (remove_sql prefix q) (map snd (sel_where q)) db"

text \<open>The last character is erased even when there is no column.\<close>

definition insert_sql :: "string \<Rightarrow> insert_query \<Rightarrow> string" where
  "insert_sql prefix q =
     butlast (butlast (''INSERT INTO '' @ prefix @ ins_table q @ '' ('' @ concat (map (\<lambda>(n, _). n @ '','') (ins_row q)))
       @ '') VALUES ('' @ concat (map (\<lambda>_. ''?,'') (ins_row q))) @ '');''"

definition sqlite_insert :: "'db engine \<Rightarrow> string \<Rightarrow> insert_query \<Rightarrow> 'db \<Rightarrow> bool \<times> 'db" where
  "sqlite_insert engine prefix q db =
     execute_statement engine (insert_sql prefix q) (map snd (ins_row q)) db"

definition update_sql :: "string \<Rightarrow> insert_query \<Rightarrow> string" where
  "update_sql prefix q =
     butlast (''UPDATE '' @ prefix @ ins_table q @ '' SET '' @ concat (map (\<lambda>(n, _). n @ ''=?,'') (ins_row q)))
     @ where_sql (ins_where q)"

definition sqlite_update :: "'db engine \<Rightarrow> string \<Rightarrow> insert_query \<Rightarrow> 'db \<Rightarrow> bool \<times> 'db" where
  "sqlite_update engine prefix q db =
     execute_statement engine (update_sql prefix q) (map snd (ins_row q) @ map snd (ins_where q)) db"

definition createDatabase :: "'db engine \<Rightarrow> string \<Rightarrow> 'db \<Rightarrow> bool \<times> 'db" where
  "createDatabase engine prefix db =
     (case exec_sql engine (''CREATE TABLE IF NOT EXISTS '' @ prefix @ ''db_version (''
         @ ''  ver INTEGER NOT NULL DEFAULT '' @ [CHR 0x27] @ dec 1 @ [CHR 0x27] @ '');'') db of
       (ok, db1) \<Rightarrow>
         (True, if ok then snd (exec_sql engine
            (''REPLACE INTO '' @ prefix @ ''db_version (ver) values('' @ dec 1 @ '')'') db1) else db1))"

text \<open>\<open>opened\<close>: what \<open>sqlite3_open\<close> returned.\<close>

definition sqlite_connect :: "bool \<Rightarrow> 'db engine \<Rightarrow> string \<Rightarrow> 'db \<Rightarrow> bool \<times> 'db" where
  "sqlite_connect opened engine prefix db =
     (if \<not> opened then (False, db)
      else case createDatabase engine prefix db of (created, db1) \<Rightarrow>
        if \<not> created then (False, db1) else (True, db1))"

definition beginTransaction :: "'db engine \<Rightarrow> 'db \<Rightarrow> 'db" where
  "beginTransaction engine db = snd (exec_sql engine ''BEGIN TRANSACTION;'' db)"

definition commitTransaction :: "'db engine \<Rightarrow> 'db \<Rightarrow> 'db" where
  "commitTransaction engine db = snd (exec_sql engine ''COMMIT TRANSACTION;'' db)"

subsection \<open>The parameters of a statement\<close>

text \<open>The text before each question mark, since the last one.\<close>

fun split_params :: "string \<Rightarrow> string \<Rightarrow> string list" where
  "split_params pre [] = []"
| "split_params pre (c # s) = (if c = CHR ''?'' then pre # split_params [] s else split_params (pre @ [c]) s)"

definition no_param :: "string \<Rightarrow> bool" where
  "no_param s \<longleftrightarrow> CHR ''?'' \<notin> set s"

lemma no_param_simps [simp]:
  "no_param []" "no_param (c # s) \<longleftrightarrow> c \<noteq> CHR ''?'' \<and> no_param s"
  "no_param (s @ t) \<longleftrightarrow> no_param s \<and> no_param t"
  by (auto simp: no_param_def)

lemma no_param_butlast: "no_param s \<Longrightarrow> no_param (butlast s)"
  by (auto simp: no_param_def dest: in_set_butlastD)

lemma split_params_plain: "no_param s \<Longrightarrow> split_params pre (s @ t) = split_params (pre @ s) t"
  by (induction s arbitrary: pre) auto

lemma split_params_end: "no_param s \<Longrightarrow> split_params pre s = []"
  using split_params_plain [of s pre "[]"] by simp

text \<open>A placeholder is the parameter of the column whose name and equals sign stand before it.\<close>

definition param_of :: "string \<Rightarrow> string \<times> string \<Rightarrow> bool" where
  "param_of pre = (\<lambda>(n, v). \<exists>x. pre = x @ n @ ''='')"

lemma params_where:
  assumes "list_all (\<lambda>(n, v). no_param n) w" and "no_param t"
  shows "list_all2 param_of (split_params pre (concat (map (\<lambda>(n, _). '' '' @ n @ ''=? AND'') w) @ t)) w"
  using assms(1)
proof (induction w arbitrary: pre)
  case Nil
  then show ?case using assms(2) by (simp add: split_params_end)
next
  case (Cons x w)
  obtain n v where x: "x = (n, v)" by (cases x)
  let ?rest = "'' AND'' @ concat (map (\<lambda>(n, _). '' '' @ n @ ''=? AND'') w) @ t"
  have "split_params pre (concat (map (\<lambda>(n, _). '' '' @ n @ ''=? AND'') (x # w)) @ t)
      = split_params pre (('' '' @ n @ ''='') @ ''?'' @ ?rest)"
    by (simp add: x)
  also have "\<dots> = (pre @ '' '' @ n @ ''='') # split_params [] ?rest"
    using Cons.prems x by (subst split_params_plain) simp_all
  also have "split_params [] ?rest
      = split_params '' AND'' (concat (map (\<lambda>(n, _). '' '' @ n @ ''=? AND'') w) @ t)"
    by (subst split_params_plain) simp_all
  finally show ?case
    using Cons.IH [of "'' AND''"] Cons.prems x by (simp add: param_of_def)
qed

lemma params_row:
  assumes "list_all (\<lambda>(n, v). no_param n) row"
    and "\<And>pre. list_all2 param_of (split_params pre t) w"
  shows "list_all2 param_of (split_params pre (concat (map (\<lambda>(n, _). n @ ''=?,'') row) @ t)) (row @ w)"
  using assms(1)
proof (induction row arbitrary: pre)
  case Nil
  then show ?case using assms(2) by simp
next
  case (Cons x row)
  obtain n v where x: "x = (n, v)" by (cases x)
  let ?rest = "'','' @ concat (map (\<lambda>(n, _). n @ ''=?,'') row) @ t"
  have "split_params pre (concat (map (\<lambda>(n, _). n @ ''=?,'') (x # row)) @ t)
      = split_params pre ((n @ ''='') @ ''?'' @ ?rest)"
    by (simp add: x)
  also have "\<dots> = (pre @ n @ ''='') # split_params [] ?rest"
    using Cons.prems x by (subst split_params_plain) simp_all
  also have "split_params [] ?rest = split_params '','' (concat (map (\<lambda>(n, _). n @ ''=?,'') row) @ t)"
    by (subst split_params_plain) simp_all
  finally show ?case
    using Cons.IH [of "'',''"] Cons.prems x by (simp add: param_of_def)
qed

lemma params_where_sql:
  assumes "list_all (\<lambda>(n, v). no_param n) w"
  shows "list_all2 param_of (split_params pre (where_sql w)) w"
proof -
  have "split_params pre (where_sql w)
      = split_params (pre @ '' WHERE'') (concat (map (\<lambda>(n, _). '' '' @ n @ ''=? AND'') w) @ '' 1;'')"
    unfolding where_sql_def by (subst split_params_plain) simp_all
  then show ?thesis using params_where [OF assms, of "'' 1;''"] by simp
qed

lemma no_param_select_what: "list_all no_param l \<Longrightarrow> no_param (concat (map (\<lambda>n. n @ '','') l))"
  by (induction l) auto

lemma params_select:
  assumes "no_param prefix" and "no_param (sel_table q)" and "list_all no_param (sel_what q)"
    and "list_all (\<lambda>(n, v). no_param n) (sel_where q)"
  shows "list_all2 param_of (split_params [] (select_sql prefix q)) (sel_where q)"
proof -
  let ?head = "''SELECT '' @ (if sel_what q = [] then ''* '' else butlast (concat (map (\<lambda>n. n @ '','') (sel_what q))))
     @ '' FROM '' @ prefix @ sel_table q"
  have "no_param ?head"
    using assms(1-3) no_param_butlast no_param_select_what by simp
  then have "split_params [] (select_sql prefix q)
      = split_params ?head (if sel_where q = [] then '';'' else where_sql (sel_where q))"
    using split_params_plain [of ?head "[]"] by (simp add: select_sql_def)
  then show ?thesis
    using params_where_sql [OF assms(4)] by (auto simp: split_params_end)
qed

lemma params_remove:
  assumes "no_param prefix" and "no_param (sel_table q)" and "list_all (\<lambda>(n, v). no_param n) (sel_where q)"
  shows "list_all2 param_of (split_params [] (remove_sql prefix q)) (sel_where q)"
proof -
  have "split_params [] (remove_sql prefix q)
      = split_params (''DELETE FROM '' @ prefix @ sel_table q) (where_sql (sel_where q))"
    unfolding remove_sql_def
    using split_params_plain [of "''DELETE FROM '' @ prefix @ sel_table q" "[]" "where_sql (sel_where q)"] assms(1,2)
    by simp
  then show ?thesis using params_where_sql [OF assms(3)] by simp
qed

lemma params_update:
  assumes "no_param prefix" and "no_param (ins_table q)" and "list_all (\<lambda>(n, v). no_param n) (ins_row q)"
    and "list_all (\<lambda>(n, v). no_param n) (ins_where q)" and "ins_row q \<noteq> []"
  shows "list_all2 param_of (split_params [] (update_sql prefix q)) (ins_row q @ ins_where q)"
proof -
  obtain row n v where row: "ins_row q = row @ [(n, v)]"
    using assms(5) by (metis rev_exhaust surj_pair)
  let ?head = "''UPDATE '' @ prefix @ ins_table q @ '' SET ''"
  let ?rest = "(n @ ''='') @ ''?'' @ where_sql (ins_where q)"
  have ok: "list_all (\<lambda>(n, v). no_param n) row" "no_param n"
    using assms(3) by (simp_all add: row)
  have "update_sql prefix q = ?head @ concat (map (\<lambda>(n, _). n @ ''=?,'') row) @ ?rest"
    by (simp add: update_sql_def row butlast_append)
  then have "split_params [] (update_sql prefix q)
      = split_params ?head (concat (map (\<lambda>(n, _). n @ ''=?,'') row) @ ?rest)"
    using split_params_plain [of ?head "[]"] assms(1,2) by simp
  moreover have "list_all2 param_of (split_params pre ?rest) ((n, v) # ins_where q)" for pre
    using params_where_sql [OF assms(4), of "[]"] ok(2)
    by (subst split_params_plain) (simp_all add: param_of_def)
  ultimately show ?thesis
    using params_row [OF ok(1), of ?rest "(n, v) # ins_where q"] by (simp add: row)
qed

lemma insert_shape:
  assumes "ins_row q = row @ [(n, v)]"
  shows "insert_sql prefix q = ''INSERT INTO '' @ prefix @ ins_table q @ '' ('' @ concat (map (\<lambda>(n, _). n @ '','') row)
     @ n @ '') VALUES ('' @ concat (map (\<lambda>_. ''?,'') row) @ ''?);''"
  by (simp add: insert_sql_def assms butlast_append)

subsection \<open>The properties\<close>



end
