(* ===== verification/LogBook.thy ===== *)
theory LogBook
  imports Storage Csv Modules
begin

text \<open>
  The server's logbook: \<open>server/responders/logbook.cpp\<close>.

  The queries are members of the module and keep what was set in them from one request to the next;
  \<open>logbook\<close> is their state, with the map of the record that is added. The module works on an
  \<open>storage\<close>: the engine's database with the statements the module has asked for, in their order,
  which is only there to speak about them. \<open>lastInsertedID\<close> is an argument.

  \<open>parse\<close> is a second CSV parser, over \<open>std::string\<close>; the lemmas compare it with the client's.
\<close>

datatype query = Q_select select_query | Q_insert insert_query | Q_update insert_query | Q_remove select_query

record 'db storage =
  st_db :: 'db
  st_log :: "query list"

record logbook =
  lb_getLogs :: select_query
  lb_addLog :: insert_query
  lb_removeLog :: select_query
  lb_record :: smap

definition db_select :: "'db engine \<Rightarrow> string \<Rightarrow> select_query \<Rightarrow> 'db storage \<Rightarrow> (bool \<times> string list list) \<times> 'db storage" where
  "db_select engine prefix q S = (case sqlite_select engine prefix q (st_db S) of
     (ok, rows, db) \<Rightarrow> ((ok, rows), \<lparr>st_db = db, st_log = st_log S @ [Q_select q]\<rparr>))"

definition db_insert :: "'db engine \<Rightarrow> string \<Rightarrow> insert_query \<Rightarrow> 'db storage \<Rightarrow> bool \<times> 'db storage" where
  "db_insert engine prefix q S = (case sqlite_insert engine prefix q (st_db S) of
     (ok, db) \<Rightarrow> (ok, \<lparr>st_db = db, st_log = st_log S @ [Q_insert q]\<rparr>))"

definition db_update :: "'db engine \<Rightarrow> string \<Rightarrow> insert_query \<Rightarrow> 'db storage \<Rightarrow> bool \<times> 'db storage" where
  "db_update engine prefix q S = (case sqlite_update engine prefix q (st_db S) of
     (ok, db) \<Rightarrow> (ok, \<lparr>st_db = db, st_log = st_log S @ [Q_update q]\<rparr>))"

definition db_remove :: "'db engine \<Rightarrow> string \<Rightarrow> select_query \<Rightarrow> 'db storage \<Rightarrow> bool \<times> 'db storage" where
  "db_remove engine prefix q S = (case sqlite_remove engine prefix q (st_db S) of
     (ok, db) \<Rightarrow> (ok, \<lparr>st_db = db, st_log = st_log S @ [Q_remove q]\<rparr>))"

definition logbook_columns :: "column list" where
  "logbook_columns =
     [new_column ''id'' Integer (-1) True True,
      new_column ''user_id'' Integer (-1) True False,
      new_column ''qsodate'' Datetime (-1) False False,
      new_column ''time_on'' String 20 False False,
      new_column ''callsign'' String 20 False False,
      new_column ''freq'' Real (-1) False False,
      new_column ''mode'' String 60 False False,
      new_column ''qth'' String 60 False False,
      new_column ''name'' String 50 False False,
      new_column ''loc'' String 10 False False,
      new_column ''latitude'' String 10 False False,
      new_column ''longitude'' String 10 False False,
      new_column ''county'' String 50 False False,
      new_column ''continent'' String 3 False False,
      new_column ''itu'' Integer (-1) False False,
      new_column ''cq'' Integer (-1) False False,
      new_column ''rst_rx'' String (-1) False False,
      new_column ''rst_tx'' String (-1) False False,
      new_column ''qsl'' Integer (-1) False False,
      new_column ''qsl_sent'' Datetime (-1) False False,
      new_column ''qsl_received'' Datetime (-1) False False,
      new_column ''qsl_via'' String (-1) False False,
      new_column ''comments'' String 4096 False False]"

definition logbook_new :: "'db engine \<Rightarrow> string \<Rightarrow> 'db \<Rightarrow> logbook \<times> 'db" where
  "logbook_new engine prefix db =
     (\<lparr>lb_getLogs = new_select ''logbook'', lb_addLog = new_insert ''logbook'',
       lb_removeLog = new_select ''logbook'', lb_record = []\<rparr>,
      snd (createTable engine prefix ''logbook'' logbook_columns db))"

subsection \<open>The parser\<close>

text \<open>
  \<open>tokens\<close> without its last row, that row, the field, the quotes; the last field is dropped when
  nothing ends it.
\<close>

fun lb_loop :: "bool \<Rightarrow> string \<Rightarrow> string list \<Rightarrow> string list list \<Rightarrow> string \<Rightarrow> string list list" where
  "lb_loop quotes field row rows [] = rows @ [row]"
| "lb_loop quotes field row rows (c # cs) =
     (if c = NUL then rows @ [row]
      else if \<not> quotes \<and> c = DQUOTE then lb_loop True field row rows cs
      else if quotes \<and> c = DQUOTE then
        (if cs \<noteq> [] \<and> hd cs = DQUOTE then lb_loop quotes (field @ [c]) row rows (tl cs)
         else lb_loop False field row rows cs)
      else if \<not> quotes \<and> c = CHR '';'' then lb_loop quotes [] (row @ [field]) rows cs
      else if \<not> quotes \<and> (c = LF \<or> c = CR) then lb_loop quotes [] [] (rows @ [row @ [field]]) cs
      else lb_loop quotes (field @ [c]) row rows cs)"

definition logbook_parse :: "string \<Rightarrow> string list list" where
  "logbook_parse s = lb_loop False [] [] [] s"

subsection \<open>The requests\<close>

definition user_text :: "session \<Rightarrow> string" where
  "user_text s = dec (sess_id s)"

definition logbook_header :: string where
  "logbook_header = ''id;user_id;qsodate;time_on;callsign;freq;mode;qth;name;loc;latitude;longitude;county;continent;itu;cq;rst_rx;rst_tx;qsl;qsl_sent;qsl_received;qsl_via'' @ [LF]"

text \<open>Each row: its columns, each with a separator, the last character of all the text removed.\<close>

definition add_row_text :: "string \<Rightarrow> string list \<Rightarrow> string" where
  "add_row_text data row = butlast (data @ concat (map (\<lambda>c. c @ '';'') row)) @ [LF]"

definition sendLogs ::
  "'db engine \<Rightarrow> string \<Rightarrow> session \<Rightarrow> server_reply \<Rightarrow> logbook \<Rightarrow> 'db storage
   \<Rightarrow> server_reply \<times> logbook \<times> 'db storage" where
  "sendLogs engine prefix session reply L S =
     (let q = select_where ''user_id'' (user_text session) (lb_getLogs L)
      in case db_select engine prefix q S of
        ((_, rows), S1) \<Rightarrow>
          (setContent (foldl add_row_text logbook_header rows) reply, L\<lparr>lb_getLogs := select_reset q\<rparr>, S1))"

text \<open>\<open>m_record[header[i]] = row[i]\<close> for every column.\<close>

definition set_columns :: "string list \<Rightarrow> string list \<Rightarrow> smap \<Rightarrow> smap" where
  "set_columns header row m = fold (\<lambda>(n, v). smap_set n v) (zip header row) m"

definition bad_input :: "server_reply \<Rightarrow> server_reply" where
  "bad_input reply = setStatus 400 (setContent ''Bad input data or database error.'' reply)"

text \<open>One row: whether to go on with the next.\<close>

definition add_row ::
  "'db engine \<Rightarrow> string \<Rightarrow> ('db \<Rightarrow> int) \<Rightarrow> session \<Rightarrow> string list \<Rightarrow> string list \<Rightarrow> server_reply
   \<Rightarrow> logbook \<Rightarrow> 'db storage \<Rightarrow> bool \<times> server_reply \<times> logbook \<times> 'db storage" where
  "add_row engine prefix last_id session header row reply L S =
     (if row = [] then (True, reply, L, S)
      else if length header \<noteq> length row then
        (False, setStatus 400 (setContent ''Bad column count.'' reply), L, S)
      else
        case smap_at ''id'' (set_columns header row (lb_record L)) of
          (i, m) \<Rightarrow>
            if i = ''-1'' then
              let m1 = smap_set ''user_id'' (user_text session) (smap_erase ''id'' m)
              in case db_insert engine prefix (insert_what m1 (lb_addLog L)) S of
                (ok, S1) \<Rightarrow>
                  (if \<not> ok then (False, bad_input reply, L\<lparr>lb_record := m1\<rparr>, S1)
                   else (True, setContent (int_text (last_id (st_db S1)) @ '';'' @ user_text session) reply,
                     L\<lparr>lb_record := m1\<rparr>, S1))
            else
              let q = insert_where ''id'' i (insert_where ''user_id'' (user_text session) (lb_addLog L));
                  m1 = smap_erase ''id'' (smap_erase ''user_id'' m);
                  L1 = L\<lparr>lb_record := m1, lb_addLog := q\<rparr>
              in case db_update engine prefix (insert_what m1 q) S of
                (ok, S1) \<Rightarrow>
                  (if \<not> ok then (False, bad_input reply, L1, S1)
                   else (True, setContent (i @ '';'' @ user_text session) reply, L1, S1)))"

fun add_rows ::
  "'db engine \<Rightarrow> string \<Rightarrow> ('db \<Rightarrow> int) \<Rightarrow> session \<Rightarrow> string list \<Rightarrow> string list list \<Rightarrow> server_reply
   \<Rightarrow> logbook \<Rightarrow> 'db storage \<Rightarrow> server_reply \<times> logbook \<times> 'db storage" where
  "add_rows engine prefix last_id session header [] reply L S = (reply, L, S)"
| "add_rows engine prefix last_id session header (row # rows) reply L S =
     (case add_row engine prefix last_id session header row reply L S of
       (continue, reply1, L1, S1) \<Rightarrow>
         (if continue then add_rows engine prefix last_id session header rows reply1 L1 S1
          else (reply1, L1, S1)))"

definition addLog ::
  "'db engine \<Rightarrow> string \<Rightarrow> ('db \<Rightarrow> int) \<Rightarrow> session \<Rightarrow> server_request \<Rightarrow> server_reply
   \<Rightarrow> logbook \<Rightarrow> 'db storage \<Rightarrow> server_reply \<times> logbook \<times> 'db storage" where
  "addLog engine prefix last_id session req reply L S =
     (let data = logbook_parse (s_content req)
      in add_rows engine prefix last_id session (hd data) (tl data) reply (L\<lparr>lb_record := []\<rparr>) S)"

fun remove_ids ::
  "'db engine \<Rightarrow> string \<Rightarrow> session \<Rightarrow> string list \<Rightarrow> logbook \<Rightarrow> 'db storage \<Rightarrow> logbook \<times> 'db storage" where
  "remove_ids engine prefix session [] L S = (L, S)"
| "remove_ids engine prefix session (i # ids) L S =
     (let q = select_where ''user_id'' (user_text session) (select_where ''id'' i (lb_removeLog L))
      in remove_ids engine prefix session ids (L\<lparr>lb_removeLog := q\<rparr>) (snd (db_remove engine prefix q S)))"

definition removeLog ::
  "'db engine \<Rightarrow> string \<Rightarrow> session \<Rightarrow> server_request \<Rightarrow> server_reply \<Rightarrow> logbook \<Rightarrow> 'db storage
   \<Rightarrow> server_reply \<times> logbook \<times> 'db storage" where
  "removeLog engine prefix session req reply L S =
     (let data = logbook_parse (s_content req)
      in (setContent ''Removed.'' reply, remove_ids engine prefix session (hd data) L S))"

definition logbook_handle ::
  "'db engine \<Rightarrow> string \<Rightarrow> ('db \<Rightarrow> int) \<Rightarrow> session \<Rightarrow> server_request \<Rightarrow> server_reply \<Rightarrow> logbook \<Rightarrow> 'db storage
   \<Rightarrow> bool \<times> server_reply \<times> logbook \<times> 'db storage" where
  "logbook_handle engine prefix last_id session req reply L S =
     (if s_uri req = ''/logbook'' then (True, sendLogs engine prefix session reply L S)
      else if s_uri req = ''/logbook/add'' then (True, addLog engine prefix last_id session req reply L S)
      else if s_uri req = ''/logbook/remove'' then (True, removeLog engine prefix session req reply L S)
      else if take (length ''/logbook/call/'') (s_uri req) = ''/logbook/call/'' then
        (True, sendLogs engine prefix session reply
           (L\<lparr>lb_getLogs := select_where ''callsign'' (drop (length ''/logbook/call/'') (s_uri req)) (lb_getLogs L)\<rparr>) S)
      else (False, reply, L, S))"

subsection \<open>The server's parser and the client's\<close>

text \<open>The state of the client's parser and that of the server's.\<close>

definition same_state :: "csv_state \<Rightarrow> bool \<Rightarrow> string \<Rightarrow> string list \<Rightarrow> string list list \<Rightarrow> bool" where
  "same_state st quotes field row rows \<longleftrightarrow> csv_quotes st = quotes
     \<and> written (csv_field st) (csv_pos st) = field \<and> no_nul field
     \<and> csv_line st = row \<and> csv_tokens st = rows"

lemma same_put:
  assumes "same_state st quotes field row rows" and "csv_put c st = Inr st1" and "c \<noteq> NUL"
  shows "same_state st1 quotes (field @ [c]) row rows"
  using assms by (auto simp: same_state_def csv_put_def rmap_def rbind_Inr_iff buf_put_def written_Suc
      split: if_splits)

lemma same_end_field:
  assumes "same_state st quotes field row rows" and "csv_end_field st = Inr st1"
  shows "same_state st1 quotes [] (row @ [field]) rows"
proof -
  have pos: "csv_pos st < FIELD_SIZE"
    using assms(2) by (auto simp: csv_end_field_def csv_put_def rmap_def rbind_Inr_iff buf_put_def split: if_splits)
  let ?b = "(csv_field st)(csv_pos st := NUL)"
  have "written ?b (csv_pos st) = field" and nn: "no_nul field"
    using assms(1) by (simp_all add: same_state_def)
  then have "buf_str FIELD_SIZE ?b 0 = Inr field"
    using buf_str_written [of "csv_pos st" FIELD_SIZE ?b] pos by simp
  then show ?thesis
    using assms pos by (auto simp: same_state_def csv_end_field_def csv_put_def rmap_def buf_put_def)
qed

lemma same_end_line:
  assumes "same_state st quotes field row rows" and "csv_end_line st = Inr st1"
  shows "same_state st1 quotes [] [] (rows @ [row @ [field]])"
  using assms same_end_field [of st quotes field row rows]
  by (auto simp: csv_end_line_def rmap_def rbind_Inr_iff same_state_def)

lemma parsers_agree_loop:
  assumes "csv_loop st s = Inr st1" and "same_state st quotes field row rows" and "no_nul s"
  shows "lb_loop quotes field row rows s = csv_tokens st1 @ [csv_line st1]"
  using assms
proof (induction quotes field row rows s arbitrary: st rule: lb_loop.induct)
  case (1 quotes field row rows)
  then show ?case by (auto simp: same_state_def)
next
  case (2 quotes field row rows c cs)
  note eq = csv_loop.simps(2) [of st c cs] and rel = "2.prems"(2)
  have q: "csv_quotes st = quotes" and c: "c \<noteq> NUL" and nn: "no_nul cs"
    using "2.prems" by (simp_all add: same_state_def)
  consider (open_q) "\<not> quotes" "c = DQUOTE" | (doubled) "quotes" "c = DQUOTE" "cs \<noteq> []" "hd cs = DQUOTE"
    | (close_q) "quotes" "c = DQUOTE" "\<not> (cs \<noteq> [] \<and> hd cs = DQUOTE)"
    | (sep) "\<not> quotes" "c = CHR '';''" | (line) "\<not> quotes" "c = LF \<or> c = CR"
    | (char) "c \<noteq> DQUOTE" "quotes \<or> c \<noteq> CHR '';'' \<and> c \<noteq> LF \<and> c \<noteq> CR"
    by blast
  then show ?case
  proof cases
    case open_q
    then have "same_state (st\<lparr>csv_quotes := True\<rparr>) True field row rows"
      using rel by (simp add: same_state_def)
    with open_q "2.IH"(1) "2.prems"(1) eq q c nn show ?thesis by simp
  next
    case doubled
    then obtain st2 where st2: "csv_put c st = Inr st2" "csv_loop st2 (tl cs) = Inr st1"
      using "2.prems"(1) eq q by (auto simp: rbind_Inr_iff)
    have "no_nul (tl cs)" using nn by (cases cs) auto
    with doubled "2.IH"(2) st2 same_put [OF rel st2(1) c] c show ?thesis by simp
  next
    case close_q
    then have rel1: "same_state (st\<lparr>csv_quotes := False\<rparr>) False field row rows"
      using rel by (simp add: same_state_def)
    have run: "csv_loop (st\<lparr>csv_quotes := False\<rparr>) cs = Inr st1"
      using "2.prems"(1) close_q eq q by (simp split: if_splits)
    have "lb_loop False field row rows cs = csv_tokens st1 @ [csv_line st1]"
      by (rule "2.IH"(3) [OF c _ _ close_q(3) run rel1 nn]) (use close_q in simp_all)
    with close_q c show ?thesis by auto
  next
    case sep
    then obtain st2 where st2: "csv_end_field st = Inr st2" "csv_loop st2 cs = Inr st1"
      using "2.prems"(1) eq q by (auto simp: rbind_Inr_iff)
    with sep "2.IH"(4) same_end_field [OF rel st2(1)] c nn show ?thesis by simp
  next
    case line
    then obtain st2 where st2: "csv_end_line st = Inr st2" "csv_loop st2 cs = Inr st1"
      using "2.prems"(1) eq q by (auto simp: rbind_Inr_iff)
    with line "2.IH"(5) same_end_line [OF rel st2(1)] c nn show ?thesis by auto
  next
    case char
    then obtain st2 where st2: "csv_put c st = Inr st2" "csv_loop st2 cs = Inr st1"
      using "2.prems"(1) eq q by (auto simp: rbind_Inr_iff)
    with char "2.IH"(6) same_put [OF rel st2(1) c] c nn show ?thesis by auto
  qed
qed

lemma parsers_agree:
  assumes "csv_loop \<lparr>csv_quotes = False, csv_field = junk, csv_pos = 0, csv_line = [], csv_tokens = []\<rparr> s = Inr st"
    and "no_nul s"
  shows "logbook_parse s = csv_tokens st @ [csv_line st]"
  unfolding logbook_parse_def
  by (rule parsers_agree_loop [OF assms(1) _ assms(2)]) (simp add: same_state_def)

subsection \<open>Whose rows are touched\<close>

text \<open>A query that is restricted to the rows of a user, or inserts a row of this user.\<close>

fun owned :: "string \<Rightarrow> query \<Rightarrow> bool" where
  "owned u (Q_select q) \<longleftrightarrow> smap_get (sel_where q) ''user_id'' = Some u"
| "owned u (Q_remove q) \<longleftrightarrow> smap_get (sel_where q) ''user_id'' = Some u"
| "owned u (Q_insert q) \<longleftrightarrow> smap_get (ins_row q) ''user_id'' = Some u"
| "owned u (Q_update q) \<longleftrightarrow> smap_get (ins_where q) ''user_id'' = Some u \<and> smap_get (ins_row q) ''user_id'' = None"

text \<open>The statements an operation adds.\<close>

definition adds_owned :: "string \<Rightarrow> 'db storage \<Rightarrow> 'db storage \<Rightarrow> bool" where
  "adds_owned u S S1 \<longleftrightarrow> (\<exists>qs. st_log S1 = st_log S @ qs \<and> list_all (owned u) qs)"

lemma adds_owned_refl [simp]: "adds_owned u S S"
  by (simp add: adds_owned_def)

lemma adds_owned_trans: "adds_owned u S S1 \<Longrightarrow> adds_owned u S1 S2 \<Longrightarrow> adds_owned u S S2"
  by (auto simp: adds_owned_def)

lemma adds_one: "st_log S1 = st_log S @ [q] \<Longrightarrow> owned u q \<Longrightarrow> adds_owned u S S1"
  by (simp add: adds_owned_def)

lemma db_logs:
  "st_log (snd (db_select engine prefix q S)) = st_log S @ [Q_select q]"
  "st_log (snd (db_insert engine prefix i S)) = st_log S @ [Q_insert i]"
  "st_log (snd (db_update engine prefix i S)) = st_log S @ [Q_update i]"
  "st_log (snd (db_remove engine prefix q S)) = st_log S @ [Q_remove q]"
  by (simp_all add: db_select_def db_insert_def db_update_def db_remove_def split: prod.split)

lemma sendLogs_owned: "adds_owned (user_text s) S (snd (snd (sendLogs engine prefix s reply L S)))"
proof -
  let ?q = "select_where ''user_id'' (user_text s) (lb_getLogs L)"
  have "owned (user_text s) (Q_select ?q)" by (simp add: select_where_def sm.get_put)
  moreover have "snd (snd (sendLogs engine prefix s reply L S)) = snd (db_select engine prefix ?q S)"
    by (simp add: sendLogs_def Let_def split: prod.split)
  ultimately show ?thesis using adds_one db_logs(1) by metis
qed

lemma add_row_owned:
  "adds_owned (user_text s) S (snd (snd (snd (add_row engine prefix last_id s header row reply L S))))"
proof -
  obtain i m where at: "smap_at ''id'' (set_columns header row (lb_record L)) = (i, m)" by fastforce
  let ?m1 = "smap_set ''user_id'' (user_text s) (smap_erase ''id'' m)"
  let ?qi = "insert_what ?m1 (lb_addLog L)"
  let ?m2 = "smap_erase ''id'' (smap_erase ''user_id'' m)"
  let ?qu = "insert_what ?m2 (insert_where ''id'' i (insert_where ''user_id'' (user_text s) (lb_addLog L)))"
  let ?S = "snd (snd (snd (add_row engine prefix last_id s header row reply L S)))"
  have "owned (user_text s) (Q_insert ?qi)" "owned (user_text s) (Q_update ?qu)"
    by (simp_all add: insert_what_def insert_where_def sm.get_put sm.get_del)
  then have "adds_owned (user_text s) S (snd (db_insert engine prefix ?qi S))"
    and "adds_owned (user_text s) S (snd (db_update engine prefix ?qu S))"
    using adds_one db_logs(2,3) by metis+
  moreover have "?S = S \<or> ?S = snd (db_insert engine prefix ?qi S) \<or> ?S = snd (db_update engine prefix ?qu S)"
    by (auto simp: add_row_def at Let_def split: prod.split)
  ultimately show ?thesis by auto
qed

lemma add_rows_owned:
  "adds_owned (user_text s) S (snd (snd (add_rows engine prefix last_id s header rows reply L S)))"
proof (induction rows arbitrary: reply L S)
  case (Cons row rows)
  obtain continue r L1 S1 where step: "add_row engine prefix last_id s header row reply L S = (continue, r, L1, S1)"
    by (metis prod_cases4)
  then have "adds_owned (user_text s) S S1"
    using add_row_owned [of s S engine prefix last_id header row reply L] by simp
  then show ?case using step Cons.IH [of S1 r L1] by (auto intro: adds_owned_trans)
qed simp

lemma remove_ids_owned: "adds_owned (user_text s) S (snd (remove_ids engine prefix s ids L S))"
proof (induction ids arbitrary: L S)
  case (Cons i ids)
  let ?q = "select_where ''user_id'' (user_text s) (select_where ''id'' i (lb_removeLog L))"
  have "owned (user_text s) (Q_remove ?q)" by (simp add: select_where_def sm.get_put)
  then have "adds_owned (user_text s) S (snd (db_remove engine prefix ?q S))"
    using adds_one db_logs(4) by metis
  with Cons.IH show ?case by (auto simp: Let_def intro: adds_owned_trans)
qed simp

text \<open>A table of the CSV format is read as its rows and one without fields behind them.\<close>

lemma logbook_parse_text:
  assumes "csv_ok ls" and "ls \<noteq> []"
  shows "logbook_parse (csv_text ls) = map (map fst) ls @ [[]]"
proof -
  obtain st' where run: "csv_runs (csv_start (\<lambda>_. NUL)) (csv_text ls) st'" "at_field_start st'"
    "csv_tokens st' = map (map fst) ls" "csv_line st' = []"
    using runs_text [OF open_start assms(1), of "\<lambda>_. NUL"] assms(2)
    by (auto simp: at_field_start_def)
  show ?thesis
    using parsers_agree [OF csv_runs_loop [OF run(1)] no_nul_text [OF assms(1)]] run
    by simp
qed

subsection \<open>A column of the client's choice\<close>

lemma id_before_user: "''id'' < (''user_id'' :: string)"
  by code_simp

definition owner_where :: "string \<Rightarrow> string \<Rightarrow> smap" where
  "owner_where i u = [(''id'', i), (''user_id'', u)]"

lemma owner_where_insert:
  "ins_where (insert_where ''id'' i (insert_where ''user_id'' u (new_insert t))) = owner_where i u"
  using id_before_user by (simp add: insert_where_def new_insert_def owner_where_def)

lemma owner_where_sql: "where_sql (owner_where i u) = '' WHERE id=? AND user_id=? AND 1;''"
  by (simp add: where_sql_def owner_where_def)

lemma other_column:
  assumes "h \<noteq> ''id''" and "h \<noteq> ''user_id''"
  shows "fst (smap_at ''id'' (set_columns [''id'', h] [i, v] [])) = i"
    and "smap_erase ''id'' (smap_erase ''user_id'' (snd (smap_at ''id'' (set_columns [''id'', h] [i, v] [])))) = [(h, v)]"
  using assms by (auto simp: set_columns_def smap_at_def smap_get_def smap_erase_def)

lemma update_one_column:
  assumes "h \<noteq> ''id''" and "h \<noteq> ''user_id''" and "i \<noteq> ''-1''"
    and "lb_addLog L = new_insert ''logbook''" and "lb_record L = []"
  shows "\<exists>q. st_log (snd (snd (add_rows engine prefix last_id s [''id'', h] [[i, v], []] reply L S)))
      = st_log S @ [Q_update q]
    \<and> update_sql prefix q = ''UPDATE '' @ prefix @ ''logbook SET '' @ h @ ''=? WHERE id=? AND user_id=? AND 1;''"
proof -
  let ?at = "smap_at ''id'' (set_columns [''id'', h] [i, v] [])"
  let ?q = "insert_what [(h, v)] (insert_where ''id'' i (insert_where ''user_id'' (user_text s) (new_insert ''logbook'')))"
  have m: "?at = (i, snd ?at)" using other_column(1) [OF assms(1,2)] by (metis prod.collapse)
  have "ins_where ?q = owner_where i (user_text s)" "ins_row ?q = [(h, v)]" "ins_table ?q = ''logbook''"
    using owner_where_insert by (simp_all add: insert_what_def)
      (simp_all add: insert_where_def new_insert_def)
  then have "update_sql prefix ?q = ''UPDATE '' @ prefix @ ''logbook SET '' @ h @ ''=? WHERE id=? AND user_id=? AND 1;''"
    by (simp add: update_sql_def owner_where_sql butlast_append)
  moreover have "snd (snd (add_row engine prefix last_id s [''id'', h] [i, v] reply L S))
      = (L\<lparr>lb_record := [(h, v)], lb_addLog := insert_where ''id'' i (insert_where ''user_id'' (user_text s) (new_insert ''logbook''))\<rparr>,
         snd (db_update engine prefix ?q S))"
    using assms(3-) m other_column [OF assms(1,2), of i v]
    by (simp add: add_row_def Let_def case_prod_beta)
  moreover have "st_log (snd (snd (add_rows engine prefix last_id s [''id'', h] [[i, v], []] reply L S)))
      = st_log (snd (snd (snd (add_row engine prefix last_id s [''id'', h] [i, v] reply L S))))"
    by (auto simp: add_row_def [of _ _ _ _ _ "[]"] split: prod.split)
  ultimately show ?thesis using db_logs(3) [of engine prefix ?q S] by (intro exI [of _ ?q]) simp
qed

subsection \<open>Well-formed queries\<close>

text \<open>The maps of a query are sorted, so that no column occurs twice in a statement.\<close>

fun query_wf :: "query \<Rightarrow> bool" where
  "query_wf (Q_select q) \<longleftrightarrow> smap_inv (sel_where q)"
| "query_wf (Q_remove q) \<longleftrightarrow> smap_inv (sel_where q)"
| "query_wf (Q_insert q) \<longleftrightarrow> smap_inv (ins_row q) \<and> smap_inv (ins_where q)"
| "query_wf (Q_update q) \<longleftrightarrow> smap_inv (ins_row q) \<and> smap_inv (ins_where q)"

definition logbook_wf :: "logbook \<Rightarrow> 'db storage \<Rightarrow> bool" where
  "logbook_wf L S \<longleftrightarrow> smap_inv (sel_where (lb_getLogs L)) \<and> smap_inv (ins_where (lb_addLog L))
     \<and> smap_inv (sel_where (lb_removeLog L)) \<and> smap_inv (lb_record L) \<and> list_all query_wf (st_log S)"

lemma set_columns_inv: "smap_inv m \<Longrightarrow> smap_inv (set_columns header row m)"
proof -
  have "smap_inv m \<Longrightarrow> smap_inv (fold (\<lambda>(n, v). smap_set n v) kvs m)" for kvs
    by (induction kvs arbitrary: m) (auto simp: sm.inv_put)
  then show "smap_inv m \<Longrightarrow> smap_inv (set_columns header row m)" by (simp add: set_columns_def)
qed

lemma sendLogs_wf:
  assumes "logbook_wf L S" and "sendLogs engine prefix s reply L S = (r, L1, S1)"
  shows "logbook_wf L1 S1"
proof -
  let ?q = "select_where ''user_id'' (user_text s) (lb_getLogs L)"
  have "S1 = snd (db_select engine prefix ?q S)" "L1 = L\<lparr>lb_getLogs := select_reset ?q\<rparr>"
    using assms(2) by (auto simp: sendLogs_def Let_def split: prod.splits)
  then show ?thesis
    using assms(1) by (simp add: logbook_wf_def db_logs select_where_def select_reset_def sm.inv_put)
qed

lemma add_row_wf:
  assumes "logbook_wf L S" and "add_row engine prefix last_id s header row reply L S = (cont, r, L1, S1)"
  shows "logbook_wf L1 S1"
proof -
  obtain i m where at: "smap_at ''id'' (set_columns header row (lb_record L)) = (i, m)" by fastforce
  then have m: "smap_inv m"
    using assms(1) smap_at_inv [of "set_columns header row (lb_record L)" "''id''"] set_columns_inv
    by (simp add: logbook_wf_def)
  let ?m1 = "smap_set ''user_id'' (user_text s) (smap_erase ''id'' m)"
  let ?qi = "insert_what ?m1 (lb_addLog L)"
  let ?m2 = "smap_erase ''id'' (smap_erase ''user_id'' m)"
  let ?w = "insert_where ''id'' i (insert_where ''user_id'' (user_text s) (lb_addLog L))"
  have maps: "smap_inv ?m1" "smap_inv ?m2" "smap_inv (ins_where ?w)"
    using assms(1) m by (simp_all add: logbook_wf_def insert_where_def sm.inv_put sm.inv_del)
  have "(L1 = L \<and> S1 = S) \<or> (L1 = L\<lparr>lb_record := ?m1\<rparr> \<and> S1 = snd (db_insert engine prefix ?qi S))
    \<or> (L1 = L\<lparr>lb_record := ?m2, lb_addLog := ?w\<rparr> \<and> S1 = snd (db_update engine prefix (insert_what ?m2 ?w) S))"
    using assms(2) by (auto simp: add_row_def at Let_def split: prod.splits if_splits)
  then show ?thesis
    using assms(1) maps by (auto simp: logbook_wf_def db_logs insert_what_def)
qed

lemma add_rows_wf:
  assumes "logbook_wf L S" and "add_rows engine prefix last_id s header rows reply L S = (r, L1, S1)"
  shows "logbook_wf L1 S1"
  using assms
proof (induction rows arbitrary: reply L S)
  case (Cons row rows)
  obtain cont r2 L2 S2 where step: "add_row engine prefix last_id s header row reply L S = (cont, r2, L2, S2)"
    by (metis prod_cases4)
  with add_row_wf Cons.prems(1) have "logbook_wf L2 S2" by blast
  with Cons.IH [of L2 S2 r2] Cons.prems(2) step show ?case by (auto split: if_splits)
qed simp

lemma remove_ids_wf:
  assumes "logbook_wf L S" and "remove_ids engine prefix s ids L S = (L1, S1)"
  shows "logbook_wf L1 S1"
  using assms
proof (induction ids arbitrary: L S)
  case (Cons i ids)
  let ?q = "select_where ''user_id'' (user_text s) (select_where ''id'' i (lb_removeLog L))"
  have "logbook_wf (L\<lparr>lb_removeLog := ?q\<rparr>) (snd (db_remove engine prefix ?q S))"
    using Cons.prems(1) by (simp add: logbook_wf_def db_logs select_where_def sm.inv_put)
  with Cons.IH Cons.prems(2) show ?case by (auto simp: Let_def)
qed simp

subsection \<open>The properties\<close>


definition logbook0 :: logbook where
  "logbook0 = \<lparr>lb_getLogs = new_select ''logbook'', lb_addLog = new_insert ''logbook'',
     lb_removeLog = new_select ''logbook'', lb_record = []\<rparr>"



text \<open>
  The two CSV parsers agree: on a text without NUL that the client's parser reads without
  overflowing its field, the server's parser finds the same rows, followed by the fields of the row
  that was not ended.
\<close>

theorem logbook_parse_agrees:
  assumes "csv_loop \<lparr>csv_quotes = False, csv_field = junk, csv_pos = 0, csv_line = [], csv_tokens = []\<rparr> s = Inr st"
    and "no_nul s"
  shows "logbook_parse s = csv_tokens st @ [csv_line st]"
  by (rule parsers_agree [OF assms])

theorem logbook_parse_agrees_witness:
  "logbook_parse ''a;b;c'' = [[''a'', ''b'']]"
proof -
  obtain st where "csv_loop \<lparr>csv_quotes = False, csv_field = (\<lambda>_. NUL), csv_pos = 0, csv_line = [],
      csv_tokens = []\<rparr> ''a;b;c'' = Inr st" "csv_tokens st = []" "csv_line st = [''a'', ''b'']"
    by (simp add: csv_end_field_def csv_put_def buf_put_def rmap_def FIELD_SIZE_def buf_str.simps)
  from logbook_parse_agrees [OF this(1)] this show ?thesis by simp
qed

text \<open>
  C40. The name of a column is code: a client that changes a record with a column of its own
  choice, whose name can hold any characters between quotes, puts this name into the \<open>UPDATE\<close>
  statement as it is, before the restriction to its own rows.
\<close>

theorem logbook_column_is_sql:
  assumes "s_uri req = ''/logbook/add''"
    and "s_content req = csv_text [[(''id'', False), (h, True)], [(i, False), (v, False)]]"
    and "field_ok (h, True)" and "field_ok (i, False)" and "field_ok (v, False)"
    and "h \<noteq> ''id''" and "h \<noteq> ''user_id''" and "i \<noteq> ''-1''" and "lb_addLog L = new_insert ''logbook''"
  shows "\<exists>q. st_log (snd (snd (snd (logbook_handle engine prefix last_id s req reply L S)))) = st_log S @ [Q_update q]
    \<and> update_sql prefix q = ''UPDATE '' @ prefix @ ''logbook SET '' @ h @ ''=? WHERE id=? AND user_id=? AND 1;''"
proof -
  have "csv_ok [[(''id'', False), (h, True)], [(i, False), (v, False)]]"
    using assms(3-5) by (simp add: csv_ok_def field_ok_def plain_char_def FIELD_SIZE_def)
  then have "logbook_parse (s_content req) = [[''id'', h], [i, v], []]"
    by (simp add: assms(2) logbook_parse_text)
  then show ?thesis
    using assms(1,9) update_one_column [OF assms(6-8), of "L\<lparr>lb_record := []\<rparr>"]
    by (simp add: logbook_handle_def addLog_def)
qed

theorem logbook_column_is_sql_witness:
  "\<exists>q. st_log (snd (snd (snd (logbook_handle (\<lambda>_ _ db. (Rows [] True, db)) [] (\<lambda>_. 1)
        \<lparr>sess_authenticated = True, sess_id = 7, sess_username = ''u''\<rparr>
        (new_request\<lparr>s_uri := ''/logbook/add'',
           s_content := csv_text [[(''id'', False), (''user_id=9 --'', True)], [(''3'', False), (''x'', False)]]\<rparr>)
        (server_reply_new 200 ''text/hamlog'') logbook0 \<lparr>st_db = (), st_log = []\<rparr>)))) = [Q_update q]
    \<and> update_sql [] q = ''UPDATE logbook SET user_id=9 --=? WHERE id=? AND user_id=? AND 1;''"
  using logbook_column_is_sql [of "new_request\<lparr>s_uri := ''/logbook/add'',
      s_content := csv_text [[(''id'', False), (''user_id=9 --'', True)], [(''3'', False), (''x'', False)]]\<rparr>"
      "''user_id=9 --''" "''3''" "''x''" logbook0 "\<lambda>_ _ db. (Rows [] True, db)" "[]" "\<lambda>_. 1"
      "\<lparr>sess_authenticated = True, sess_id = 7, sess_username = ''u''\<rparr>" "server_reply_new 200 ''text/hamlog''"
      "\<lparr>st_db = (), st_log = []\<rparr>"]
  by (simp add: field_ok_def plain_char_def FIELD_SIZE_def logbook0_def)

end
