(* ===== verification/Qrz.thy ===== *)
theory Qrz
  imports LogBook
begin

text \<open>
  The module that asks qrz.com about a call: \<open>server/responders/qrz.cpp\<close>.

  A query goes through asynchronous operations on a socket: connect, write, read. The handlers
  return the data of the session with the operations they start, close or answer; the reply, which
  the module and the session share, is in the answer. \<open>resume\<close> is what the rest of
  \<open>sendAsyncReply\<close> does to this data, since the session goes on with the requests in its buffer.

  TinyXML is an argument: \<open>doc\<close> gives, for a text and a path of elements, the text of the element
  there, \<open>None\<close> without such an element and \<open>Some None\<close> when \<open>GetText\<close> is null. \<open>tail\<close> is what lies
  in memory behind the received bytes, which no NUL ends.
\<close>

subsection \<open>The data of a session\<close>

record qrz_data =
  q_key :: string
  q_call :: string
  q_request :: string
  q_response :: string
  q_reply :: "server_reply option"

datatype qrz_op = Qrz_connect | Qrz_write string | Qrz_read | Qrz_close | Qrz_answer server_reply

type_synonym qrz_step = "(qrz_data \<times> qrz_op list) result"
type_synonym qrz_resume = "qrz_data \<Rightarrow> qrz_data \<times> qrz_op list"
type_synonym xml_doc = "string \<Rightarrow> string list \<Rightarrow> string option option"

definition qrz_data_new :: qrz_data where
  "qrz_data_new = \<lparr>q_key = [], q_call = [], q_request = [], q_response = [], q_reply = None\<rparr>"

definition qrz_http :: "string \<Rightarrow> string" where
  "qrz_http query = ''GET http://www.qrz.com/xml?'' @ query @ '' HTTP/1.0'' @ [CR, LF]
     @ ''Host: www.qrz.com'' @ [CR, LF] @ ''Accept: */*'' @ [CR, LF] @ ''Connection: close'' @ [CR, LF, CR, LF]"

definition call_request :: "string \<Rightarrow> string \<Rightarrow> string" where
  "call_request key call = qrz_http (''s='' @ key @ '';callsign='' @ call)"

definition key_request :: "string \<Rightarrow> string \<Rightarrow> string" where
  "key_request username password = qrz_http (''username='' @ username @ '';password='' @ password @ '';agent=hamlog'')"

subsection \<open>The handlers\<close>

text \<open>
  \<open>data->call = ""\<close>, what is set in the reply, \<open>sendAsyncReply\<close>, and the reply is forgotten, whatever
  came of it meanwhile.
\<close>

definition qrz_finish :: "qrz_resume \<Rightarrow> (server_reply \<Rightarrow> server_reply) \<Rightarrow> qrz_data \<Rightarrow> qrz_step" where
  "qrz_finish resume f d = (case q_reply d of
     None \<Rightarrow> Inl Null_deref
   | Some r \<Rightarrow> (case resume (d\<lparr>q_call := [], q_reply := Some (f r)\<rparr>) of
       (d1, ops) \<Rightarrow> Inr (d1\<lparr>q_reply := None\<rparr>, Qrz_answer (f r) # ops)))"

definition qrz_fail :: "qrz_resume \<Rightarrow> string \<Rightarrow> qrz_data \<Rightarrow> qrz_step" where
  "qrz_fail resume msg = qrz_finish resume (\<lambda>r. setContent msg (setStatus 400 r))"

definition handleQRZConnected :: "qrz_resume \<Rightarrow> bool \<Rightarrow> qrz_data \<Rightarrow> qrz_step" where
  "handleQRZConnected resume err d =
     (if err then qrz_fail resume ''Can't connect QRZ.com server'' d
      else Inr (d, [Qrz_write (q_request d)]))"

text \<open>\<open>left\<close>: the bytes of the request that could not be written; the others are consumed.\<close>

definition handleQRZWriteRequest :: "qrz_resume \<Rightarrow> bool \<Rightarrow> string \<Rightarrow> qrz_data \<Rightarrow> qrz_step" where
  "handleQRZWriteRequest resume err left d =
     (let d1 = d\<lparr>q_request := if err then left else []\<rparr>
      in if err then qrz_fail resume ''Can't send data to QRZ.com server'' d1 else Inr (d1, [Qrz_read]))"

text \<open>\<open>xml.substr(xml.find("\r\n\r\n") + 4)\<close>; without an empty line \<open>npos + 4\<close> is 3.\<close>

fun after_header :: "string \<Rightarrow> string option" where
  "after_header (a # b # c # d # s) =
     (if a = CR \<and> b = LF \<and> c = CR \<and> d = LF then Some s else after_header (b # c # d # s))"
| "after_header _ = None"

definition skip_http_header :: "string \<Rightarrow> string result" where
  "skip_http_header s = (case after_header s of
     Some b \<Rightarrow> Inr b
   | None \<Rightarrow> if length s < 3 then Inl Uncaught else Inr (drop 3 s))"

definition qrz_field :: "xml_doc \<Rightarrow> string \<Rightarrow> string \<Rightarrow> string result" where
  "qrz_field doc xml x = (case doc xml [''QRZDatabase'', ''Callsign'', x] of
     None \<Rightarrow> Inr [] | Some None \<Rightarrow> Inl Uncaught | Some (Some t) \<Rightarrow> Inr t)"

definition read_key :: "xml_doc \<Rightarrow> string \<Rightarrow> qrz_data \<Rightarrow> qrz_data result" where
  "read_key doc xml d = (case doc xml [''QRZDatabase'', ''Session'', ''Key''] of
     None \<Rightarrow> Inr d | Some None \<Rightarrow> Inl Null_deref | Some (Some k) \<Rightarrow> Inr (d\<lparr>q_key := k\<rparr>))"

text \<open>The answer of qrz.com, with the operations it leads to.\<close>

definition qrz_answer :: "xml_doc \<Rightarrow> qrz_resume \<Rightarrow> string \<Rightarrow> qrz_data \<Rightarrow> qrz_step" where
  "qrz_answer doc resume xml d =
     (case doc xml [''QRZDatabase'', ''Session'', ''Error''] of
       Some None \<Rightarrow> if q_reply d = None then Inl Null_deref else Inl Uncaught
     | Some (Some t) \<Rightarrow> qrz_finish resume (\<lambda>r. setContent t (setStatus 401 r)) d
     | None \<Rightarrow> rbind (read_key doc xml d) (\<lambda>d1.
         if doc xml [''QRZDatabase'', ''Callsign''] \<noteq> None then
           rbind (qrz_field doc xml ''fname'') (\<lambda>fname. rbind (qrz_field doc xml ''name'') (\<lambda>name.
             qrz_finish resume (setContent (''fname;name'' @ [LF] @ fname @ '';'' @ name)) d1))
         else Inr (d1\<lparr>q_request := q_request d1 @ call_request (q_key d1) (q_call d1)\<rparr>, [Qrz_connect])))"

definition handleQRZReadKey :: "xml_doc \<Rightarrow> string \<Rightarrow> qrz_resume \<Rightarrow> bool \<Rightarrow> string \<Rightarrow> qrz_data \<Rightarrow> qrz_step" where
  "handleQRZReadKey doc tail resume err got d =
     (let d1 = d\<lparr>q_response := q_response d @ got\<rparr>
      in if err then qrz_fail resume ''Error receiving data from QRZ.com server'' d1
         else rbind (skip_http_header (cstr (q_response d1 @ tail))) (\<lambda>xml.
           rmap (\<lambda>(d2, ops). (d2, Qrz_close # ops)) (qrz_answer doc resume xml (d1\<lparr>q_response := []\<rparr>))))"

subsection \<open>The requests\<close>

text \<open>The queries of the module; the map of the new user is the row of \<open>m_addUser\<close>.\<close>

record qrz_module_state =
  qm_addData :: smap
  qm_getUser :: select_query

definition qrz_columns :: "column list" where
  "qrz_columns =
     [(new_column ''user_id'' Integer (-1) True True)\<lparr>col'_unique := True\<rparr>,
      new_column ''name'' String 255 True False,
      new_column ''password'' String 255 True False]"

definition qrz_new :: "'db engine \<Rightarrow> string \<Rightarrow> 'db \<Rightarrow> qrz_module_state \<times> 'db" where
  "qrz_new engine prefix db =
     (\<lparr>qm_addData = [], qm_getUser = select_what ''password'' (select_what ''name'' (new_select ''qrz_users''))\<rparr>,
      snd (createTable engine prefix ''qrz_users'' qrz_columns db))"

definition qrz_users_of ::
  "'db engine \<Rightarrow> string \<Rightarrow> session \<Rightarrow> qrz_module_state \<Rightarrow> 'db storage
   \<Rightarrow> string list list \<times> qrz_module_state \<times> 'db storage" where
  "qrz_users_of engine prefix session M S =
     (let q = select_where ''user_id'' (user_text session) (qm_getUser M)
      in case db_select engine prefix q S of ((_, rows), S1) \<Rightarrow> (rows, M\<lparr>qm_getUser := q\<rparr>, S1))"

text \<open>A query with the key of an earlier one.\<close>

definition ask_with_key :: "server_reply \<Rightarrow> string \<Rightarrow> qrz_data \<Rightarrow> server_reply \<times> qrz_data \<times> qrz_op list" where
  "ask_with_key reply call d =
     (let r = setAsync True reply
      in (r, d\<lparr>q_call := call, q_reply := Some r, q_request := q_request d @ call_request (q_key d) call\<rparr>,
          [Qrz_connect]))"

definition askQRZ ::
  "'db engine \<Rightarrow> string \<Rightarrow> session \<Rightarrow> server_reply \<Rightarrow> string \<Rightarrow> qrz_data option \<Rightarrow> qrz_module_state \<Rightarrow> 'db storage
   \<Rightarrow> (server_reply \<times> qrz_data \<times> qrz_op list \<times> qrz_module_state \<times> 'db storage) result" where
  "askQRZ engine prefix session reply call data M S =
     (let d = (case data of Some d \<Rightarrow> d | None \<Rightarrow> qrz_data_new)
      in if q_key d \<noteq> [] then
           (case ask_with_key reply call d of (r, d1, ops) \<Rightarrow> Inr (r, d1, ops, M, S))
         else case qrz_users_of engine prefix session M S of
           ([], M1, S1) \<Rightarrow>
             Inr (setContent ''Register your QRZ account before querying the database'' (setStatus 401 reply), d, [], M1, S1)
         | (row # _, M1, S1) \<Rightarrow>
             if row = [] then Inl Dangling
             else let r = setAsync True reply
               in Inr (r, d\<lparr>q_request := q_request d @ key_request (hd row) (last row), q_call := call, q_reply := Some r\<rparr>,
                   [Qrz_connect], M1, S1))"

definition qrz_addUser ::
  "'db engine \<Rightarrow> string \<Rightarrow> session \<Rightarrow> server_request \<Rightarrow> server_reply \<Rightarrow> qrz_module_state \<Rightarrow> 'db storage
   \<Rightarrow> server_reply \<times> qrz_module_state \<times> 'db storage" where
  "qrz_addUser engine prefix session req reply M S =
     (let row = smap_set ''user_id'' (user_text session)
            (smap_set ''password'' (getHeader (s_headers req) ''password'')
              (smap_set ''name'' (getHeader (s_headers req) ''username'') (qm_addData M)));
          q = insert_what row (new_insert ''qrz_users'');
          M1 = M\<lparr>qm_addData := row\<rparr>
      in case db_insert engine prefix q S of (inserted, S1) \<Rightarrow>
        if inserted then (setContent ''Registered'' reply, M1, S1)
        else case db_update engine prefix q S1 of (updated, S2) \<Rightarrow>
          if updated then (setContent ''Updated'' reply, M1, S2)
          else (setContent ''Bad data or SQL error'' (setStatus 400 reply), M1, S2))"

definition sendUsername ::
  "'db engine \<Rightarrow> string \<Rightarrow> session \<Rightarrow> server_reply \<Rightarrow> qrz_module_state \<Rightarrow> 'db storage
   \<Rightarrow> (server_reply \<times> qrz_module_state \<times> 'db storage) result" where
  "sendUsername engine prefix session reply M S = (case qrz_users_of engine prefix session M S of
     ([], M1, S1) \<Rightarrow> Inr (setContent [] reply, M1, S1)
   | (row # _, M1, S1) \<Rightarrow> if row = [] then Inl Dangling else Inr (setContent (hd row) reply, M1, S1))"

definition qrz_handle ::
  "'db engine \<Rightarrow> string \<Rightarrow> session \<Rightarrow> server_request \<Rightarrow> server_reply \<Rightarrow> qrz_data option \<Rightarrow> qrz_module_state \<Rightarrow> 'db storage
   \<Rightarrow> (bool \<times> server_reply \<times> qrz_data option \<times> qrz_op list \<times> qrz_module_state \<times> 'db storage) result" where
  "qrz_handle engine prefix session req reply data M S =
     (if s_uri req = ''/qrz'' then
        rmap (\<lambda>(r, d, ops, M1, S1). (True, r, Some d, ops, M1, S1))
          (askQRZ engine prefix session reply (s_content req) data M S)
      else if s_uri req = ''/qrz/register'' then
        (case qrz_addUser engine prefix session req reply M S of (r, M1, S1) \<Rightarrow> Inr (True, r, data, [], M1, S1))
      else if s_uri req = ''/qrz/username'' then
        rmap (\<lambda>(r, M1, S1). (True, r, data, [], M1, S1)) (sendUsername engine prefix session reply M S)
      else Inr (False, reply, data, [], M, S))"

subsection \<open>Runs of a query\<close>

datatype qrz_event = Connected bool | Written bool string | Received bool string string

fun qrz_event_step :: "xml_doc \<Rightarrow> qrz_resume \<Rightarrow> qrz_event \<Rightarrow> qrz_data \<Rightarrow> qrz_step" where
  "qrz_event_step doc resume (Connected err) d = handleQRZConnected resume err d"
| "qrz_event_step doc resume (Written err left) d = handleQRZWriteRequest resume err left d"
| "qrz_event_step doc resume (Received err got tail) d = handleQRZReadKey doc tail resume err got d"

text \<open>The events that complete an operation, and whether they report an error.\<close>

fun completes :: "qrz_op \<Rightarrow> qrz_event \<Rightarrow> bool" where
  "completes Qrz_connect (Connected _) = True"
| "completes (Qrz_write _) (Written _ _) = True"
| "completes Qrz_read (Received _ _ _) = True"
| "completes _ _ = False"

fun failed :: "qrz_event \<Rightarrow> bool" where
  "failed (Connected err) = err"
| "failed (Written err _) = err"
| "failed (Received err _ _) = err"

fun pending :: "qrz_op \<Rightarrow> bool" where
  "pending Qrz_connect = True"
| "pending (Qrz_write _) = True"
| "pending Qrz_read = True"
| "pending _ = False"

fun answers :: "qrz_op list \<Rightarrow> server_reply list" where
  "answers [] = []"
| "answers (Qrz_answer r # ops) = r # answers ops"
| "answers (_ # ops) = answers ops"

lemma answers_append [simp]: "answers (ops @ ops') = answers ops @ answers ops'"
  by (induction ops rule: answers.induct) auto

text \<open>The session has no further request in its buffer.\<close>

definition alone :: qrz_resume where
  "alone d = (d, [])"

inductive qrz_run :: "xml_doc \<Rightarrow> qrz_data \<Rightarrow> qrz_data \<Rightarrow> qrz_op list \<Rightarrow> bool" for doc d0 where
  asked: "qrz_run doc d0 d0 [Qrz_connect]"
| event: "qrz_run doc d0 d ops \<Longrightarrow> completes (last ops) e \<Longrightarrow> qrz_event_step doc alone e d = Inr (d1, new)
    \<Longrightarrow> qrz_run doc d0 d1 (ops @ new)"

text \<open>One event of an unanswered query: the query goes on, or is answered for good.\<close>

lemma finish_alone:
  "q_reply d = Some r \<Longrightarrow> qrz_finish alone f d = Inr (d\<lparr>q_call := [], q_reply := None\<rparr>, [Qrz_answer (f r)])"
  by (simp add: qrz_finish_def alone_def)

lemma read_key_keeps:
  "read_key doc xml d = Inr d1 \<Longrightarrow> q_reply d1 = q_reply d \<and> q_call d1 = q_call d"
  by (auto simp: read_key_def split: option.splits)

definition goes_on :: "qrz_data \<Rightarrow> qrz_data \<Rightarrow> qrz_op list \<Rightarrow> bool" where
  "goes_on d d1 new \<longleftrightarrow> q_reply d1 = q_reply d \<and> q_call d1 = q_call d \<and> new \<noteq> []
     \<and> pending (last new) \<and> answers new = []"

definition is_answered :: "qrz_data \<Rightarrow> qrz_op list \<Rightarrow> bool" where
  "is_answered d1 new \<longleftrightarrow> q_reply d1 = None \<and> q_call d1 = [] \<and> new \<noteq> []
     \<and> (\<exists>r. answers new = [r] \<and> last new = Qrz_answer r)"

lemma answer_steps:
  assumes "q_reply d = Some r" and "qrz_answer doc alone xml d = Inr (d1, new)"
  shows "goes_on d d1 new \<or> is_answered d1 new"
proof (cases "doc xml [''QRZDatabase'', ''Session'', ''Error'']")
  case (Some t)
  with assms show ?thesis
    by (cases t) (auto simp: qrz_answer_def finish_alone is_answered_def)
next
  case None
  with assms(2) obtain d2 where key: "read_key doc xml d = Inr d2" and
    rest: "(if doc xml [''QRZDatabase'', ''Callsign''] \<noteq> None then
        rbind (qrz_field doc xml ''fname'') (\<lambda>fname. rbind (qrz_field doc xml ''name'') (\<lambda>name.
          qrz_finish alone (setContent (''fname;name'' @ [LF] @ fname @ '';'' @ name)) d2))
      else Inr (d2\<lparr>q_request := q_request d2 @ call_request (q_key d2) (q_call d2)\<rparr>, [Qrz_connect])) = Inr (d1, new)"
    by (auto simp: qrz_answer_def rbind_Inr_iff simp del: if_split)
  have d2: "q_reply d2 = Some r" "q_call d2 = q_call d" using read_key_keeps [OF key] assms(1) by simp_all
  from rest show ?thesis
    by (auto simp: rbind_Inr_iff finish_alone [OF d2(1)] goes_on_def is_answered_def d2 assms(1) split: if_splits)
qed

lemma event_steps:
  assumes "q_reply d = Some r" and "qrz_event_step doc alone e d = Inr (d1, new)"
  shows "goes_on d d1 new \<or> is_answered d1 new"
proof (cases e)
  case (Connected err)
  with assms show ?thesis
    by (auto simp: handleQRZConnected_def qrz_fail_def finish_alone is_answered_def goes_on_def split: if_splits)
next
  case (Written err left)
  with assms show ?thesis
    by (auto simp: handleQRZWriteRequest_def qrz_fail_def finish_alone is_answered_def goes_on_def Let_def
        split: if_splits)
next
  case (Received err got tail)
  let ?d = "d\<lparr>q_response := q_response d @ got\<rparr>"
  show ?thesis
  proof (cases err)
    case True
    with assms Received show ?thesis
      by (auto simp: handleQRZReadKey_def qrz_fail_def finish_alone is_answered_def)
  next
    case False
    with assms(2) Received obtain xml d2 ops where "qrz_answer doc alone xml (?d\<lparr>q_response := []\<rparr>) = Inr (d2, ops)"
      and "d1 = d2" "new = Qrz_close # ops"
      by (auto simp: handleQRZReadKey_def rbind_Inr_iff rmap_def Let_def)
    with answer_steps [of "?d\<lparr>q_response := []\<rparr>" r doc xml d2 ops] assms(1) show ?thesis
      by (auto simp: goes_on_def is_answered_def)
  qed
qed

lemma run_invariant:
  assumes "qrz_run doc d0 d ops" and "q_reply d0 = Some r"
  shows "(ops \<noteq> [] \<and> pending (last ops) \<and> answers ops = [] \<and> q_reply d = Some r \<and> q_call d = q_call d0)
    \<or> (ops \<noteq> [] \<and> (\<exists>r1. answers ops = [r1] \<and> last ops = Qrz_answer r1) \<and> q_reply d = None \<and> q_call d = [])"
  using assms
proof (induction rule: qrz_run.induct)
  case (event d ops e d1 new)
  have "pending (last ops)" using event.hyps(2) by (cases "last ops") auto
  with event.IH event.prems have inv: "answers ops = []" "q_reply d = Some r" "q_call d = q_call d0" by auto
  with event_steps [OF inv(2) event.hyps(3)] show ?case by (auto simp: goes_on_def is_answered_def)
qed simp

lemma failed_event:
  "q_reply d = Some r \<Longrightarrow> failed e \<Longrightarrow>
   \<exists>d1 r1. qrz_event_step doc alone e d = Inr (d1, [Qrz_answer r1]) \<and> sr_status r1 = 400"
  by (cases e) (auto simp: handleQRZConnected_def handleQRZWriteRequest_def handleQRZReadKey_def qrz_fail_def
      finish_alone setStatus_def setContent_def Let_def)

text \<open>A query whose reply is forgotten.\<close>

lemma lost_answer:
  assumes "q_reply d = None" and "qrz_answer doc alone xml d = Inr (d1, new)"
  shows "q_reply d1 = None \<and> answers new = []"
  using assms read_key_keeps [of doc xml d]
  by (auto simp: qrz_answer_def qrz_finish_def rbind_Inr_iff split: option.splits if_splits)

lemma lost_event:
  assumes "q_reply d = None" and "qrz_event_step doc alone e d = Inr (d1, new)"
  shows "q_reply d1 = None \<and> answers new = []"
proof (cases e)
  case (Connected err)
  with assms show ?thesis by (auto simp: handleQRZConnected_def qrz_fail_def qrz_finish_def split: if_splits)
next
  case (Written err left)
  with assms show ?thesis
    by (auto simp: handleQRZWriteRequest_def qrz_fail_def qrz_finish_def Let_def split: if_splits)
next
  case (Received err got tail)
  with assms obtain xml d2 ops where "\<not> err" and
    "qrz_answer doc alone xml (d\<lparr>q_response := []\<rparr>) = Inr (d2, ops)" "d1 = d2" "new = Qrz_close # ops"
    by (auto simp: handleQRZReadKey_def qrz_fail_def qrz_finish_def rbind_Inr_iff rmap_def Let_def split: if_splits)
  with lost_answer [of "d\<lparr>q_response := []\<rparr>" doc xml d2 ops] assms(1) show ?thesis by simp
qed

lemma lost_run:
  "qrz_run doc d0 d ops \<Longrightarrow> q_reply d0 = None \<Longrightarrow> q_reply d = None \<and> answers ops = []"
  by (induction rule: qrz_run.induct) (auto dest: lost_event)

text \<open>The session finds one more query in its buffer.\<close>

definition query_in_buffer ::
  "'db engine \<Rightarrow> string \<Rightarrow> session \<Rightarrow> server_reply \<Rightarrow> string \<Rightarrow> qrz_module_state \<Rightarrow> 'db storage \<Rightarrow> qrz_resume" where
  "query_in_buffer engine prefix session reply call M S d =
     (case askQRZ engine prefix session reply call (Some d) M S of
        Inl _ \<Rightarrow> (d, [])
      | Inr (_, d1, ops, _, _) \<Rightarrow> (d1, ops))"

lemma query_in_buffer_key:
  "q_key d \<noteq> [] \<Longrightarrow> \<exists>d1. query_in_buffer engine prefix session reply call M S d = (d1, [Qrz_connect])"
  by (simp add: query_in_buffer_def askQRZ_def ask_with_key_def Let_def)

subsection \<open>The row of a user\<close>

lemma user_row:
  assumes "qm_addData M = [] \<or> map fst (qm_addData M) = [''name'', ''password'', ''user_id'']"
  shows "smap_set ''user_id'' i (smap_set ''password'' p (smap_set ''name'' n (qm_addData M)))
    = [(''name'', n), (''password'', p), (''user_id'', i)]"
proof -
  have less: "''name'' < (''password'' :: string)" "''password'' < (''user_id'' :: string)"
    "''name'' < (''user_id'' :: string)" by code_simp+
  have "\<not> ''password'' < (''name'' :: string)" "\<not> ''user_id'' < (''password'' :: string)"
    "\<not> ''user_id'' < (''name'' :: string)" by code_simp+
  with assms less show ?thesis by auto
qed

lemma user_update_sql:
  "update_sql prefix (insert_what [(''name'', n), (''password'', p), (''user_id'', i)] (new_insert ''qrz_users''))
   = ''UPDATE '' @ prefix @ ''qrz_users SET name=?,password=?,user_id=? WHERE 1;''"
  by (simp add: update_sql_def where_sql_def insert_what_def new_insert_def butlast_append)

subsection \<open>The properties\<close>


definition qrz_asked :: qrz_data where
  "qrz_asked = qrz_data_new\<lparr>q_key := ''k'', q_call := ''OK1'', q_request := call_request ''k'' ''OK1'',
     q_reply := Some (server_reply_new 200 ''text/hamlog'')\<rparr>"


text \<open>
  The answer to a query may cost the next one its reply: when the session finds another query in
  its buffer while it sends the answer, the module starts it and then forgets its reply. It is never
  answered, and a connection that fails is a null pointer.
\<close>

theorem qrz_forgets_next_query:
  assumes "q_reply d = Some r" and "q_key d \<noteq> []"
    and "skip_http_header (cstr (q_response d @ got @ tail)) = Inr xml"
    and "doc xml [''QRZDatabase'', ''Session'', ''Error''] = None"
    and "doc xml [''QRZDatabase'', ''Session'', ''Key''] = None"
    and "doc xml [''QRZDatabase'', ''Callsign''] \<noteq> None"
    and "qrz_field doc xml ''fname'' = Inr fname" and "qrz_field doc xml ''name'' = Inr name"
  shows "\<exists>d1. handleQRZReadKey doc tail (query_in_buffer engine prefix session reply call M S) False got d
      = Inr (d1, [Qrz_close, Qrz_answer (setContent (''fname;name'' @ [LF] @ fname @ '';'' @ name) r), Qrz_connect])
    \<and> (\<forall>d2 ops. qrz_run doc d1 d2 ops \<longrightarrow> answers ops = [])
    \<and> handleQRZConnected resume True d1 = Inl Null_deref"
proof -
  let ?resume = "query_in_buffer engine prefix session reply call M S"
  let ?d = "d\<lparr>q_response := [], q_call := [],
    q_reply := Some (setContent (''fname;name'' @ [LF] @ fname @ '';'' @ name) r)\<rparr>"
  obtain d1 where d1: "?resume ?d = (d1, [Qrz_connect])"
    using query_in_buffer_key [of ?d engine prefix session reply call M S] assms(2) by auto
  then have "handleQRZReadKey doc tail ?resume False got d = Inr (d1\<lparr>q_reply := None\<rparr>,
      [Qrz_close, Qrz_answer (setContent (''fname;name'' @ [LF] @ fname @ '';'' @ name) r), Qrz_connect])"
    using assms(1,3-8)
    by (auto simp: handleQRZReadKey_def qrz_answer_def read_key_def qrz_finish_def Let_def)
  moreover have "answers ops = []" if "qrz_run doc (d1\<lparr>q_reply := None\<rparr>) d2 ops" for d2 ops
    using lost_run [OF that] by simp
  ultimately show ?thesis
    by (intro exI [of _ "d1\<lparr>q_reply := None\<rparr>"]) (simp add: handleQRZConnected_def qrz_fail_def qrz_finish_def)
qed

theorem qrz_forgets_next_query_witness:
  "\<exists>d1. handleQRZReadKey (\<lambda>_ p. if p = [''QRZDatabase'', ''Callsign''] then Some None else None) [NUL]
      (query_in_buffer (\<lambda>_ _ db. (Rows [] True, db)) [] guest (server_reply_new 200 ''text/hamlog'') ''OK2''
        (fst (qrz_new (\<lambda>_ _ db. (Rows [] True, db)) [] ())) \<lparr>st_db = (), st_log = []\<rparr>) False
      [CR, LF, CR, LF, CHR ''x''] qrz_asked
    = Inr (d1, [Qrz_close, Qrz_answer (setContent (''fname;name'' @ [LF] @ '';'') (server_reply_new 200 ''text/hamlog'')),
        Qrz_connect])
    \<and> handleQRZConnected alone True d1 = Inl Null_deref"
  using qrz_forgets_next_query [of qrz_asked "server_reply_new 200 ''text/hamlog''" "[CR, LF, CR, LF, CHR ''x'']"
      "[NUL]" "''x''" "\<lambda>_ p. if p = [''QRZDatabase'', ''Callsign''] then Some None else None" "[]" "[]"
      "\<lambda>_ _ db. (Rows [] True, db)" "[]" guest "server_reply_new 200 ''text/hamlog''" "''OK2''"
      "fst (qrz_new (\<lambda>_ _ db. (Rows [] True, db)) [] ())" "\<lparr>st_db = (), st_log = []\<rparr>" alone]
  by (auto simp: qrz_asked_def qrz_data_new_def skip_http_header_def qrz_field_def cstr_def)

text \<open>
  Changing one's QRZ account changes everybody's: when the row of the user cannot be inserted,
  the module updates without a restriction to this user.
\<close>

theorem qrz_update_hits_everyone:
  assumes "s_uri req = ''/qrz/register''"
    and "qm_addData M = [] \<or> map fst (qm_addData M) = [''name'', ''password'', ''user_id'']"
    and "\<not> fst (db_insert engine prefix q S)"
    and "q = insert_what [(''name'', getHeader (s_headers req) ''username''),
        (''password'', getHeader (s_headers req) ''password''), (''user_id'', user_text session)] (new_insert ''qrz_users'')"
  shows "\<exists>r M1 S1. qrz_handle engine prefix session req reply data M S = Inr (True, r, data, [], M1, S1)
    \<and> st_log S1 = st_log S @ [Q_insert q, Q_update q]
    \<and> update_sql prefix q = ''UPDATE '' @ prefix @ ''qrz_users SET name=?,password=?,user_id=? WHERE 1;''
    \<and> map fst (qm_addData M1) = [''name'', ''password'', ''user_id'']"
proof -
  obtain S1 where ins: "db_insert engine prefix q S = (False, S1)" using assms(3) by (metis (full_types) prod.collapse)
  obtain ok S2 where upd: "db_update engine prefix q S1 = (ok, S2)" by fastforce
  have "st_log S2 = st_log S @ [Q_insert q, Q_update q]"
    using db_logs(2) [of engine prefix q S] db_logs(3) [of engine prefix q S1] ins upd by simp
  with ins upd show ?thesis
    using assms(1,4) user_update_sql
    by (auto simp: qrz_handle_def qrz_addUser_def user_row [OF assms(2)] Let_def split: if_splits)
qed

theorem qrz_update_hits_everyone_witness:
  "\<exists>r M1 S1 q. qrz_handle (\<lambda>_ _ db. (Not_prepared, db)) [] guest (new_request\<lparr>s_uri := ''/qrz/register''\<rparr>)
      (server_reply_new 200 ''text/hamlog'') None \<lparr>qm_addData = [], qm_getUser = new_select ''qrz_users''\<rparr>
      \<lparr>st_db = (), st_log = []\<rparr> = Inr (True, r, None, [], M1, S1)
    \<and> st_log S1 = [Q_insert q, Q_update q]
    \<and> update_sql [] q = ''UPDATE qrz_users SET name=?,password=?,user_id=? WHERE 1;''"
proof -
  let ?q = "insert_what [(''name'', getHeader (s_headers (new_request\<lparr>s_uri := ''/qrz/register''\<rparr>)) ''username''),
    (''password'', getHeader (s_headers (new_request\<lparr>s_uri := ''/qrz/register''\<rparr>)) ''password''),
    (''user_id'', user_text guest)] (new_insert ''qrz_users'')"
  have "\<not> fst (db_insert (\<lambda>_ _ db. (Not_prepared, db)) [] ?q \<lparr>st_db = (), st_log = []\<rparr>)"
    by (simp add: db_insert_def sqlite_insert_def execute_statement_def run_statement_def)
  from qrz_update_hits_everyone [OF _ _ this refl, of
      "\<lparr>qm_addData = [], qm_getUser = new_select ''qrz_users''\<rparr>" "server_reply_new 200 ''text/hamlog''" None]
  show ?thesis by auto
qed

end
