(* ===== verification/ServerSession.thy ===== *)
theory ServerSession
  imports Services Modules
begin

text \<open>
  A session of the server: \<open>server/session.cpp\<close>.

  The socket is behind the steps of the machine: bytes that arrive, an error of the socket, and a
  module that completes a reply it has made asynchronous (the reply is an argument, the module
  changes it in place). \<open>ss_buffer\<close> is what \<open>m_buffer\<close> holds up to \<open>bytes\<close>; \<open>ss_written\<close> are the texts
  passed to \<open>async_write\<close>; \<open>ss_reading\<close> says that a read is pending and \<open>ss_handler\<close> that the
  request handler exists. The lemmas relate the loop over the buffer to a server that takes one
  byte after the other, \<open>serve_bytes\<close>.
\<close>

record srv_session =
  ss_auth :: session
  ss_state :: rq_state
  ss_req :: server_request
  ss_buffer :: string
  ss_parsed :: nat
  ss_current :: "server_reply option"
  ss_written :: "string list"
  ss_reading :: bool
  ss_handler :: bool
  ss_stops :: nat

definition BUFFER_SIZE :: nat where
  "BUFFER_SIZE = 8192"

text \<open>\<open>i\<close>: the number of the user, which the constructor leaves as it is.\<close>

definition session_new :: "nat \<Rightarrow> srv_session" where
  "session_new i = \<lparr>ss_auth = \<lparr>sess_authenticated = False, sess_id = i, sess_username = []\<rparr>,
     ss_state = rq_method_start, ss_req = new_request, ss_buffer = [], ss_parsed = 0,
     ss_current = None, ss_written = [], ss_reading = False, ss_handler = False, ss_stops = 0\<rparr>"

definition session_start :: "srv_session \<Rightarrow> srv_session" where
  "session_start S = S\<lparr>ss_reading := True, ss_handler := True\<rparr>"

definition session_stop :: "srv_session \<Rightarrow> srv_session" where
  "session_stop S = S\<lparr>ss_handler := False, ss_stops := Suc (ss_stops S)\<rparr>"

lemma rq_loop_bound:
  "rq_loop n st q s = Inr (k, st1, q1) \<Longrightarrow> k \<le> n + length s"
proof (induction s arbitrary: n st q)
  case (Cons c s)
  then show ?case by (fastforce simp: rbind_Inr_iff split: if_splits)
qed simp

text \<open>The loop of \<open>handleRead\<close> and the read it starts when the buffer is used up.\<close>

function session_loop :: "module_map \<Rightarrow> srv_session \<Rightarrow> srv_session result" where
  "session_loop mods S =
     (if length (ss_buffer S) = ss_parsed S then Inr (S\<lparr>ss_parsed := 0, ss_reading := True\<rparr>)
      else case rq_parse (ss_state S) (ss_req S) (drop (ss_parsed S) (ss_buffer S)) of
        Inl e \<Rightarrow> Inl e
      | Inr (parsed, st1, q1) \<Rightarrow>
          let S1 = S\<lparr>ss_state := st1, ss_req := q1\<rparr>
          in if parsed = 0 then Inr ((session_stop S1)\<lparr>ss_parsed := 0, ss_reading := True\<rparr>)
             else
               let S2 = S1\<lparr>ss_parsed := ss_parsed S1 + parsed\<rparr>
               in if s_finished q1 then
                    if \<not> ss_handler S2 then Inl Null_deref
                    else case handleRequest mods (ss_auth S2) q1 of (auth1, reply) \<Rightarrow>
                      let S3 = S2\<lparr>ss_auth := auth1, ss_req := new_request\<rparr>
                      in if sr_async reply then Inr (S3\<lparr>ss_current := Some reply\<rparr>)
                         else session_loop mods (S3\<lparr>ss_written := ss_written S3 @ [fst (toString reply)]\<rparr>)
                  else session_loop mods S2)"
  by pat_completeness auto
termination
proof (relation "measure (\<lambda>(mods, S). length (ss_buffer S) - ss_parsed S)", goal_cases)
  case 1
  show ?case by simp
next
  case (2 mods S r parsed p st1 q1)
  then have "parsed \<le> length (ss_buffer S) - ss_parsed S"
    using rq_loop_bound [of 0 "ss_state S" "ss_req S" "drop (ss_parsed S) (ss_buffer S)" parsed st1 q1]
    by (auto simp: rq_parse_def)
  with 2 show ?case by auto
next
  case (3 mods S r parsed p st1 q1)
  then have "parsed \<le> length (ss_buffer S) - ss_parsed S"
    using rq_loop_bound [of 0 "ss_state S" "ss_req S" "drop (ss_parsed S) (ss_buffer S)" parsed st1 q1]
    by (auto simp: rq_parse_def)
  with 3 show ?case by auto
qed

declare session_loop.simps [simp del]

text \<open>\<open>handleRead\<close>: \<open>None\<close> for an error, \<open>Some []\<close> for the call with no new bytes.\<close>

definition handleRead :: "module_map \<Rightarrow> string option \<Rightarrow> srv_session \<Rightarrow> srv_session result" where
  "handleRead mods e S = (case e of
     None \<Rightarrow> Inr (session_stop S)
   | Some b \<Rightarrow> session_loop mods (if b \<noteq> [] then S\<lparr>ss_buffer := b\<rparr> else S))"

definition sendAsyncReply :: "module_map \<Rightarrow> server_reply \<Rightarrow> srv_session \<Rightarrow> srv_session result" where
  "sendAsyncReply mods reply S = (case ss_current S of
     None \<Rightarrow> Inl Null_deref
   | Some _ \<Rightarrow> handleRead mods (Some [])
       (S\<lparr>ss_written := ss_written S @ [fst (toString reply)], ss_current := None\<rparr>))"

subsection \<open>A server that takes one byte after the other\<close>

record served =
  sv_auth :: session
  sv_state :: rq_state
  sv_req :: server_request
  sv_written :: "string list"

text \<open>What an accepted request does; \<open>None\<close> when its reply is asynchronous.\<close>

definition answer :: "module_map \<Rightarrow> server_request \<Rightarrow> served \<Rightarrow> served option" where
  "answer mods q X = (case handleRequest mods (sv_auth X) q of (auth1, reply) \<Rightarrow>
     if sr_async reply then None
     else Some (X\<lparr>sv_auth := auth1, sv_req := new_request, sv_written := sv_written X @ [fst (toString reply)]\<rparr>))"

fun serve_bytes :: "module_map \<Rightarrow> served \<Rightarrow> string \<Rightarrow> served option" where
  "serve_bytes mods X [] = Some X"
| "serve_bytes mods X (c # s) = (case handleChar (sv_state X) (sv_req X) c of
     Inl e \<Rightarrow> None
   | Inr (ok, st1, q1) \<Rightarrow>
       if \<not> ok then None
       else if s_finished q1 then
         (case answer mods q1 (X\<lparr>sv_state := st1, sv_req := q1\<rparr>) of None \<Rightarrow> None | Some X1 \<Rightarrow> serve_bytes mods X1 s)
       else serve_bytes mods (X\<lparr>sv_state := st1, sv_req := q1\<rparr>) s)"

lemma serve_bytes_append:
  "serve_bytes mods X (s @ t) = (case serve_bytes mods X s of None \<Rightarrow> None | Some X1 \<Rightarrow> serve_bytes mods X1 t)"
  by (induction mods X s rule: serve_bytes.induct) (auto split: sum.splits prod.splits option.splits)

text \<open>The bytes that one call of the parser takes.\<close>

lemma rq_loop_serve:
  assumes "rq_loop n st q s = Inr (k, st1, q1)" and "sv_state X = st" and "sv_req X = q"
  shows "if s_finished q1 \<and> s \<noteq> [] \<and> k \<noteq> 0 then n < k
       \<and> serve_bytes mods X s = (case answer mods q1 (X\<lparr>sv_state := st1, sv_req := q1\<rparr>) of
           None \<Rightarrow> None | Some X1 \<Rightarrow> serve_bytes mods X1 (drop (k - n) s))
     else if s = [] then k = n \<and> st1 = st \<and> q1 = q
     else if k = 0 then serve_bytes mods X s = None
     else k = n + length s \<and> serve_bytes mods X s = Some (X\<lparr>sv_state := st1, sv_req := q1\<rparr>)"
  using assms
proof (induction s arbitrary: n st q X)
  case Nil
  then show ?case by auto
next
  case (Cons c s)
  obtain ok st2 q2 where step: "handleChar st q c = Inr (ok, st2, q2)"
    using Cons.prems(1) by (auto simp: rbind_Inr_iff split: prod.splits)
  show ?case
  proof (cases "ok \<and> \<not> s_finished q2")
    case False
    with Cons.prems step show ?thesis by (auto split: if_splits option.splits)
  next
    case True
    let ?X = "X\<lparr>sv_state := st2, sv_req := q2\<rparr>"
    have run: "rq_loop (Suc n) st2 q2 s = Inr (k, st1, q1)" using Cons.prems(1) step True by simp
    have first: "serve_bytes mods X (c # s) = serve_bytes mods ?X s" using Cons.prems(2,3) step True by simp
    note IH = Cons.IH [OF run, of ?X]
    show ?thesis
    proof (cases "s = []")
      case True
      with run first \<open>ok \<and> \<not> s_finished q2\<close> show ?thesis by auto
    next
      case False
      show ?thesis
      proof (cases "s_finished q1 \<and> k \<noteq> 0")
        case True
        with IH False have "Suc n < k" and eq: "serve_bytes mods ?X s
            = (case answer mods q1 (X\<lparr>sv_state := st1, sv_req := q1\<rparr>) of
                None \<Rightarrow> None | Some X1 \<Rightarrow> serve_bytes mods X1 (drop (k - Suc n) s))"
          by simp_all
        then have nk: "n < k" and drops: "drop (k - n) (c # s) = drop (k - Suc n) s"
          by (simp_all add: drop_Cons')
        show ?thesis unfolding first eq drops using True nk by simp
      next
        case unfinished: False
        with IH False first show ?thesis by (auto split: if_splits)
      qed
    qed
  qed
qed

lemma rq_loop_fault_serve:
  "rq_loop n st q s = Inl e \<Longrightarrow> sv_state X = st \<Longrightarrow> sv_req X = q \<Longrightarrow> serve_bytes mods X s = None"
proof (induction s arbitrary: n st q X)
  case (Cons c s)
  show ?case
  proof (cases "handleChar st q c")
    case (Inl f)
    with Cons.prems show ?thesis by simp
  next
    case (Inr r)
    obtain ok st2 q2 where r: "r = (ok, st2, q2)" by (metis prod_cases3)
    with Inr Cons.prems(1) have "ok \<and> \<not> s_finished q2" "rq_loop (Suc n) st2 q2 s = Inl e"
      by (auto split: if_splits)
    with Cons.IH [of "Suc n" st2 q2 "X\<lparr>sv_state := st2, sv_req := q2\<rparr>"] Inr r Cons.prems(2,3)
    show ?thesis by simp
  qed
qed simp

subsection \<open>The session refines it\<close>

definition served_of :: "srv_session \<Rightarrow> served" where
  "served_of S = \<lparr>sv_auth = ss_auth S, sv_state = ss_state S, sv_req = ss_req S, sv_written = ss_written S\<rparr>"

lemma served_of_simps [simp]:
  "sv_auth (served_of S) = ss_auth S" "sv_state (served_of S) = ss_state S"
  "sv_req (served_of S) = ss_req S" "sv_written (served_of S) = ss_written S"
  by (simp_all add: served_of_def)

text \<open>A session that waits for the next bytes.\<close>

definition idle :: "srv_session \<Rightarrow> bool" where
  "idle S \<longleftrightarrow> ss_parsed S = 0 \<and> ss_current S = None \<and> ss_reading S \<and> ss_handler S \<and> ss_stops S = 0"

lemma loop_end:
  "length (ss_buffer S) = ss_parsed S \<Longrightarrow> session_loop mods S = Inr (S\<lparr>ss_parsed := 0, ss_reading := True\<rparr>)"
  by (subst session_loop.simps) simp

lemma loop_more:
  assumes "length (ss_buffer S) \<noteq> ss_parsed S"
    and "rq_parse (ss_state S) (ss_req S) (drop (ss_parsed S) (ss_buffer S)) = Inr (k, st1, q1)"
    and "k \<noteq> 0" and "\<not> s_finished q1"
  shows "session_loop mods S
    = session_loop mods (S\<lparr>ss_state := st1, ss_req := q1, ss_parsed := ss_parsed S + k\<rparr>)"
  using assms by (subst session_loop.simps) (simp add: Let_def)

lemma loop_answer:
  assumes "length (ss_buffer S) \<noteq> ss_parsed S"
    and "rq_parse (ss_state S) (ss_req S) (drop (ss_parsed S) (ss_buffer S)) = Inr (k, st1, q1)"
    and "k \<noteq> 0" and "s_finished q1" and "ss_handler S"
    and "handleRequest mods (ss_auth S) q1 = (auth1, reply)"
  shows "session_loop mods S =
    (let S1 = S\<lparr>ss_state := st1, ss_parsed := ss_parsed S + k, ss_auth := auth1, ss_req := new_request\<rparr>
     in if sr_async reply then Inr (S1\<lparr>ss_current := Some reply\<rparr>)
        else session_loop mods (S1\<lparr>ss_written := ss_written S @ [fst (toString reply)]\<rparr>))"
  using assms by (subst session_loop.simps) (simp add: Let_def)

lemma loop_serves:
  assumes "ss_parsed S \<le> length (ss_buffer S)" and "ss_current S = None" and "ss_handler S" and "ss_stops S = 0"
    and "serve_bytes mods (served_of S) (drop (ss_parsed S) (ss_buffer S)) = Some X"
  shows "\<exists>S1. session_loop mods S = Inr S1 \<and> served_of S1 = X \<and> idle S1"
  using assms
proof (induction "length (ss_buffer S) - ss_parsed S" arbitrary: S rule: less_induct)
  case less
  let ?rest = "drop (ss_parsed S) (ss_buffer S)"
  show ?case
  proof (cases "length (ss_buffer S) = ss_parsed S")
    case True
    with less.prems show ?thesis
      by (intro exI [of _ "S\<lparr>ss_parsed := 0, ss_reading := True\<rparr>"])
        (auto simp: served_of_def idle_def loop_end)
  next
    case False
    with less.prems(1) have ne: "?rest \<noteq> []" by simp
    obtain k st1 q1 where parse: "rq_parse (ss_state S) (ss_req S) ?rest = Inr (k, st1, q1)"
      using rq_loop_fault_serve [of 0 "ss_state S" "ss_req S" ?rest _ "served_of S" mods] less.prems(5)
      by (cases "rq_parse (ss_state S) (ss_req S) ?rest") (auto simp: rq_parse_def)
    have bound: "k \<le> length ?rest" using rq_loop_bound parse unfolding rq_parse_def by fastforce
    note serve = rq_loop_serve [OF parse [unfolded rq_parse_def], of "served_of S" mods]
    have k: "k \<noteq> 0"
    proof
      assume "k = 0"
      with serve ne less.prems(5) show False by simp
    qed
    show ?thesis
    proof (cases "s_finished q1")
      case True
      obtain auth1 reply where h: "handleRequest mods (ss_auth S) q1 = (auth1, reply)" by fastforce
      let ?S = "S\<lparr>ss_state := st1, ss_parsed := ss_parsed S + k, ss_auth := auth1, ss_req := new_request,
        ss_written := ss_written S @ [fst (toString reply)]\<rparr>"
      have sync: "\<not> sr_async reply" and next_X: "serve_bytes mods (served_of ?S) (drop k ?rest) = Some X"
        using serve True ne k less.prems(5) h
        by (auto simp: answer_def served_of_def split: if_splits)
      have "\<exists>S1. session_loop mods ?S = Inr S1 \<and> served_of S1 = X \<and> idle S1"
        using bound k less.prems next_X by (intro less.hyps) (simp_all add: add.commute)
      then show ?thesis using loop_answer [OF False parse k True less.prems(3) h] sync by (simp add: Let_def)
    next
      case more: False
      let ?S = "S\<lparr>ss_state := st1, ss_req := q1, ss_parsed := ss_parsed S + k\<rparr>"
      have "k = length ?rest" and "served_of ?S = X"
        using serve ne k more less.prems(5) by (auto simp: served_of_def split: if_splits)
      then have "serve_bytes mods (served_of ?S) (drop (ss_parsed ?S) (ss_buffer ?S)) = Some X" by simp
      then have "\<exists>S1. session_loop mods ?S = Inr S1 \<and> served_of S1 = X \<and> idle S1"
        using bound k less.prems by (intro less.hyps) simp_all
      then show ?thesis using loop_more [OF False parse k more] by simp
    qed
  qed
qed

text \<open>The bytes of a connection, in the pieces in which they are read.\<close>

fun feed :: "module_map \<Rightarrow> srv_session \<Rightarrow> string list \<Rightarrow> srv_session result" where
  "feed mods S [] = Inr S"
| "feed mods S (b # bs) =
     rbind (handleRead mods (Some b) (S\<lparr>ss_reading := False\<rparr>)) (\<lambda>S1. feed mods S1 bs)"

lemma read_serves:
  assumes "idle S" and "b \<noteq> []" and "serve_bytes mods (served_of S) b = Some X"
  shows "\<exists>S1. handleRead mods (Some b) (S\<lparr>ss_reading := False\<rparr>) = Inr S1 \<and> served_of S1 = X \<and> idle S1"
proof -
  let ?S = "S\<lparr>ss_reading := False, ss_buffer := b\<rparr>"
  have "served_of ?S = served_of S" by (simp add: served_of_def)
  with assms have "\<exists>S1. session_loop mods ?S = Inr S1 \<and> served_of S1 = X \<and> idle S1"
    by (intro loop_serves) (simp_all add: idle_def served_of_def)
  then show ?thesis using assms(2) by (simp add: handleRead_def)
qed

lemma feed_serves:
  assumes "idle S" and "\<forall>b \<in> set bs. b \<noteq> []" and "serve_bytes mods (served_of S) (concat bs) = Some X"
  shows "\<exists>S1. feed mods S bs = Inr S1 \<and> served_of S1 = X \<and> idle S1"
  using assms
proof (induction bs arbitrary: S)
  case (Cons b bs)
  then obtain X1 where X1: "serve_bytes mods (served_of S) b = Some X1" "serve_bytes mods X1 (concat bs) = Some X"
    by (auto simp: serve_bytes_append split: option.splits)
  obtain S1 where "handleRead mods (Some b) (S\<lparr>ss_reading := False\<rparr>) = Inr S1" "served_of S1 = X1" "idle S1"
    using read_serves [OF Cons.prems(1) _ X1(1)] Cons.prems(2) by auto
  with Cons.IH [of S1] X1(2) Cons.prems(2) show ?case by simp
qed simp

subsection \<open>Requests of a client\<close>

text \<open>A request that the client can print and the server reads to its end.\<close>

definition request_readable :: "request \<Rightarrow> bool" where
  "request_readable q \<longleftrightarrow> request_ok q \<and> (case q_content q of
     None \<Rightarrow> \<not> hasHeader (q_headers q) ''Content-Length''
   | Some c \<Rightarrow> c \<noteq> [] \<and> list_all (\<lambda>c. c \<noteq> CR) c)"

definition server_view :: "request \<Rightarrow> server_request" where
  "server_view q = (parsed_request q (case q_content q of None \<Rightarrow> [] | Some c \<Rightarrow> c))\<lparr>s_finished := True\<rparr>"

fun serve_requests :: "module_map \<Rightarrow> session \<Rightarrow> server_request list \<Rightarrow> (session \<times> string list) option" where
  "serve_requests mods a [] = Some (a, [])"
| "serve_requests mods a (q # qs) = (case handleRequest mods a q of (a1, reply) \<Rightarrow>
     if sr_async reply then None
     else map_option (\<lambda>(a2, ts). (a2, fst (toString reply) # ts)) (serve_requests mods a1 qs))"

lemma serve_one:
  assumes "request_readable q" and "ham_request_get_data q = Inr data"
    and "sv_state X = rq_method_start" and "sv_req X = new_request"
  shows "serve_bytes mods X (data @ rest) = (case handleRequest mods (sv_auth X) (server_view q) of (a1, reply) \<Rightarrow>
    if sr_async reply then None
    else serve_bytes mods (X\<lparr>sv_auth := a1, sv_written := sv_written X @ [fst (toString reply)]\<rparr>) rest)"
proof -
  have parse: "rq_loop 0 rq_method_start new_request (data @ rest) = Inr (length data, rq_method_start, server_view q)"
    using request_parsed [OF assms(2), of rest] assms(1)
    by (auto simp: request_readable_def rq_parse_def server_view_def)
  have ne: "data \<noteq> []"
    using get_data_text [OF assms(2)] by (auto simp: request_text_def)
  have drop_data: "drop (length data - 0) (data @ rest) = rest" by simp
  have "serve_bytes mods X (data @ rest)
      = (case answer mods (server_view q) (X\<lparr>sv_state := rq_method_start, sv_req := server_view q\<rparr>) of
          None \<Rightarrow> None | Some X1 \<Rightarrow> serve_bytes mods X1 rest)"
    using rq_loop_serve [OF parse assms(3,4), of mods] ne unfolding drop_data by (simp add: server_view_def)
  moreover have "X\<lparr>sv_state := rq_method_start, sv_auth := a, sv_req := new_request, sv_written := w\<rparr>
      = X\<lparr>sv_auth := a, sv_written := w\<rparr>" for a w
    using assms(3,4) by simp
  ultimately show ?thesis by (auto simp: answer_def split: prod.split)
qed

lemma serve_all:
  assumes "list_all request_readable qs" and "map ham_request_get_data qs = map Inr datas"
    and "sv_state X = rq_method_start" and "sv_req X = new_request"
    and "serve_requests mods (sv_auth X) (map server_view qs) = Some (a, ts)"
  shows "serve_bytes mods X (concat datas) = Some (X\<lparr>sv_auth := a, sv_written := sv_written X @ ts\<rparr>)"
  using assms
proof (induction qs arbitrary: datas X ts)
  case Nil
  then show ?case by simp
next
  case (Cons q qs)
  obtain data ds where d: "datas = data # ds" "ham_request_get_data q = Inr data"
    "map ham_request_get_data qs = map Inr ds"
    using Cons.prems(2) by (auto simp: Cons_eq_map_conv map_eq_Cons_conv)
  obtain a1 reply where h: "handleRequest mods (sv_auth X) (server_view q) = (a1, reply)" by fastforce
  obtain us where us: "\<not> sr_async reply" "serve_requests mods a1 (map server_view qs) = Some (a, us)"
    "ts = fst (toString reply) # us"
    using Cons.prems(5) h by (auto split: if_splits)
  let ?X = "X\<lparr>sv_auth := a1, sv_written := sv_written X @ [fst (toString reply)]\<rparr>"
  have "serve_bytes mods ?X (concat ds) = Some (?X\<lparr>sv_auth := a, sv_written := sv_written ?X @ us\<rparr>)"
    using Cons.prems us by (intro Cons.IH [OF _ d(3)]) simp_all
  then show ?case
    using serve_one [OF _ d(2) Cons.prems(3,4), of mods "concat ds"] Cons.prems(1) h us d(1) by simp
qed

subsection \<open>The session as a state machine\<close>

text \<open>
  Bytes arrive or the socket fails while a read is pending; a module completes its asynchronous
  reply while there is one. Nothing arrives on a socket that was closed.
\<close>

inductive session_step :: "module_map \<Rightarrow> srv_session \<Rightarrow> srv_session \<Rightarrow> bool" for mods where
  arrive: "ss_reading S \<Longrightarrow> ss_stops S = 0 \<Longrightarrow> b \<noteq> [] \<Longrightarrow> length b \<le> BUFFER_SIZE
    \<Longrightarrow> handleRead mods (Some b) (S\<lparr>ss_reading := False\<rparr>) = Inr S1 \<Longrightarrow> session_step mods S S1"
| broken: "ss_reading S \<Longrightarrow> handleRead mods None (S\<lparr>ss_reading := False\<rparr>) = Inr S1 \<Longrightarrow> session_step mods S S1"
| complete: "ss_current S \<noteq> None \<Longrightarrow> sendAsyncReply mods reply S = Inr S1 \<Longrightarrow> session_step mods S S1"

inductive session_reachable :: "module_map \<Rightarrow> srv_session \<Rightarrow> bool" for mods where
  started: "session_reachable mods (session_start (session_new i))"
| stepped: "session_reachable mods S \<Longrightarrow> session_step mods S S1 \<Longrightarrow> session_reachable mods S1"

inductive_cases session_stepE: "session_step mods S S1"

text \<open>A session that was not stopped waits either for bytes or for the completion of one reply.\<close>

definition session_inv :: "srv_session \<Rightarrow> bool" where
  "session_inv S \<longleftrightarrow> ss_stops S \<le> 2
     \<and> (ss_stops S = 0 \<longrightarrow> ss_handler S \<and> (ss_reading S \<longleftrightarrow> ss_current S = None))
     \<and> (ss_stops S \<noteq> 0 \<longrightarrow> ss_current S = None)
     \<and> (ss_reading S \<longrightarrow> ss_stops S \<le> 1 \<and> ss_parsed S = 0)
     \<and> (ss_current S \<noteq> None \<longrightarrow> ss_parsed S \<le> length (ss_buffer S))
     \<and> \<not> s_finished (ss_req S) \<and> rq_inv (ss_state S) (ss_req S)"

text \<open>A finished request leaves the parser in its first state.\<close>

lemma handleChar_finish:
  "handleChar st q c = Inr (True, st1, q1) \<Longrightarrow> \<not> s_finished q \<Longrightarrow> s_finished q1 \<Longrightarrow> st1 = rq_method_start"
  by (cases st) (auto simp: handle_defs rmap_def split: if_splits)

lemma rq_loop_finish:
  "rq_loop n st q s = Inr (k, st1, q1) \<Longrightarrow> k \<noteq> 0 \<Longrightarrow> \<not> s_finished q \<Longrightarrow> s_finished q1 \<Longrightarrow> st1 = rq_method_start"
proof (induction s arbitrary: n st q)
  case (Cons c s)
  then show ?case
    using handleChar_finish [of st q c] by (fastforce simp: rbind_Inr_iff split: if_splits)
qed simp

text \<open>The finished flag is only set by an accepted byte.\<close>

lemma handleChar_refuse:
  "handleChar st q c = Inr (False, st1, q1) \<Longrightarrow> s_finished q1 = s_finished q"
  by (cases st) (auto simp: handle_defs rmap_def split: if_splits)

lemma rq_loop_refuse:
  "rq_loop n st q s = Inr (0, st1, q1) \<Longrightarrow> \<not> s_finished q \<Longrightarrow> \<not> s_finished q1"
proof (induction s arbitrary: n st q)
  case (Cons c s)
  then show ?case
    using handleChar_refuse [of st q c] by (fastforce simp: rbind_Inr_iff split: if_splits)
qed simp

lemma loop_refuse:
  assumes "length (ss_buffer S) \<noteq> ss_parsed S"
    and "rq_parse (ss_state S) (ss_req S) (drop (ss_parsed S) (ss_buffer S)) = Inr (0, st1, q1)"
  shows "session_loop mods S
    = Inr ((session_stop (S\<lparr>ss_state := st1, ss_req := q1\<rparr>))\<lparr>ss_parsed := 0, ss_reading := True\<rparr>)"
  using assms by (subst session_loop.simps) (simp add: Let_def)

lemma loop_inv:
  assumes "ss_parsed S \<le> length (ss_buffer S)" and "ss_current S = None" and "ss_handler S"
    and "ss_stops S = 0" and "\<not> ss_reading S" and "\<not> s_finished (ss_req S)" and "rq_inv (ss_state S) (ss_req S)"
  shows "\<exists>S1. session_loop mods S = Inr S1 \<and> session_inv S1"
  using assms
proof (induction "length (ss_buffer S) - ss_parsed S" arbitrary: S rule: less_induct)
  case less
  let ?rest = "drop (ss_parsed S) (ss_buffer S)"
  show ?case
  proof (cases "length (ss_buffer S) = ss_parsed S")
    case True
    with less.prems show ?thesis by (simp add: loop_end session_inv_def)
  next
    case False
    obtain k st1 q1 where parse: "rq_parse (ss_state S) (ss_req S) ?rest = Inr (k, st1, q1)"
      and inv: "rq_inv st1 q1" and bound: "k \<le> length ?rest"
      using rq_loop_total [OF less.prems(7), of 0 ?rest] by (auto simp: rq_parse_def)
    show ?thesis
    proof (cases "k = 0")
      case True
      with rq_loop_refuse [OF _ less.prems(6)] parse have "\<not> s_finished q1" by (auto simp: rq_parse_def)
      with True parse less.prems inv show ?thesis
        by (simp add: loop_refuse [OF False] session_inv_def session_stop_def)
    next
      case k: False
      show ?thesis
      proof (cases "s_finished q1")
        case True
        have st1: "st1 = rq_method_start"
          using rq_loop_finish [OF parse [unfolded rq_parse_def] k less.prems(6) True] .
        obtain auth1 reply where h: "handleRequest mods (ss_auth S) q1 = (auth1, reply)" by fastforce
        let ?S = "S\<lparr>ss_state := st1, ss_parsed := ss_parsed S + k, ss_auth := auth1, ss_req := new_request,
          ss_written := ss_written S @ [fst (toString reply)]\<rparr>"
        have fresh: "\<not> s_finished new_request" "rq_inv rq_method_start new_request"
          by (simp_all add: new_request_def rq_inv_def)
        have "\<exists>S1. session_loop mods ?S = Inr S1 \<and> session_inv S1"
          using bound k less.prems fresh st1 False by (intro less.hyps) simp_all
        then show ?thesis
          using loop_answer [OF False parse k True less.prems(3) h] less.prems bound fresh st1
          by (auto simp: Let_def session_inv_def)
      next
        case more: False
        let ?S = "S\<lparr>ss_state := st1, ss_req := q1, ss_parsed := ss_parsed S + k\<rparr>"
        have "\<exists>S1. session_loop mods ?S = Inr S1 \<and> session_inv S1"
          using bound k less.prems inv more False by (intro less.hyps) simp_all
        then show ?thesis using loop_more [OF False parse k more] by simp
      qed
    qed
  qed
qed

lemma arrive_inv:
  assumes "session_inv S" and "ss_reading S" and "ss_stops S = 0"
  shows "\<exists>S1. handleRead mods (Some b) (S\<lparr>ss_reading := False\<rparr>) = Inr S1 \<and> session_inv S1"
  unfolding handleRead_def option.case using assms by (intro loop_inv) (auto simp: session_inv_def)

lemma complete_inv:
  assumes "session_inv S" and "ss_current S \<noteq> None"
  shows "\<exists>S1. sendAsyncReply mods reply S = Inr S1 \<and> session_inv S1"
proof -
  let ?S = "S\<lparr>ss_written := ss_written S @ [fst (toString reply)], ss_current := None\<rparr>"
  have "\<exists>S1. session_loop mods ?S = Inr S1 \<and> session_inv S1"
    using assms by (intro loop_inv) (auto simp: session_inv_def)
  then show ?thesis using assms(2) by (auto simp: sendAsyncReply_def handleRead_def)
qed

lemma reachable_inv: "session_reachable mods S \<Longrightarrow> session_inv S"
proof (induction rule: session_reachable.induct)
  case (started i)
  then show ?case
    by (simp add: session_inv_def session_start_def session_new_def new_request_def rq_inv_def)
next
  case (stepped S S1)
  from stepped(2) show ?case
  proof (rule session_stepE)
    fix b
    assume "ss_reading S" "ss_stops S = 0" "handleRead mods (Some b) (S\<lparr>ss_reading := False\<rparr>) = Inr S1"
    then show ?thesis using arrive_inv [OF stepped(3), of mods b] by simp
  next
    assume "ss_reading S" "handleRead mods None (S\<lparr>ss_reading := False\<rparr>) = Inr S1"
    then show ?thesis using stepped(3) by (auto simp: handleRead_def session_stop_def session_inv_def)
  next
    fix reply r
    assume "sendAsyncReply mods reply S = Inr S1" "ss_current S = Some r"
    then show ?thesis using complete_inv [OF stepped(3), of mods reply] by simp
  qed
qed

subsection \<open>The properties\<close>

text \<open>
  C7. Requests are answered in order: when the bytes that arrive, in whatever pieces, are the texts
  of the client's requests one after the other, and no reply is asynchronous, the session passes
  exactly these requests to the request handler, writes its replies in this order, and is ready for
  the next request.
\<close>

theorem session_answers_in_order:
  assumes "idle S" and "ss_state S = rq_method_start" and "ss_req S = new_request"
    and "list_all request_readable qs" and "map ham_request_get_data qs = map Inr datas"
    and "concat pieces = concat datas" and "\<forall>b \<in> set pieces. b \<noteq> []"
    and "serve_requests mods (ss_auth S) (map server_view qs) = Some (auth1, texts)"
  shows "\<exists>S1. feed mods S pieces = Inr S1 \<and> ss_written S1 = ss_written S @ texts \<and> ss_auth S1 = auth1
    \<and> idle S1 \<and> ss_state S1 = rq_method_start \<and> ss_req S1 = new_request"
proof -
  have "serve_bytes mods (served_of S) (concat pieces)
      = Some ((served_of S)\<lparr>sv_auth := auth1, sv_written := sv_written (served_of S) @ texts\<rparr>)" (is "_ = Some ?X")
    unfolding assms(6) using assms(2,3,8) by (intro serve_all [OF assms(4,5)]) simp_all
  then obtain S1 where S1: "feed mods S pieces = Inr S1" "served_of S1 = ?X" "idle S1"
    using feed_serves [OF assms(1,7)] by blast
  from S1(2) have "ss_auth S1 = auth1" "ss_written S1 = ss_written S @ texts" "ss_state S1 = ss_state S"
    "ss_req S1 = ss_req S"
    by (simp_all add: served_of_def)
  with S1 assms(2,3) show ?thesis by auto
qed

definition bad_request_text :: string where
  "bad_request_text = fst (toString (setContent ''Bad request'' (setStatus 400 (server_reply_new 200 ''text/hamlog''))))"

theorem session_answers_in_order_witness:
  "\<exists>S1. feed [] (session_start (session_new 0)) [''GET /dx'', ''cc HTTP/1.1'' @ [CR, LF, CR], LF # ''GET /qrz HTTP/1.1'',
      [CR, LF, CR, LF]] = Inr S1
    \<and> ss_written S1 = [bad_request_text, bad_request_text] \<and> idle S1"
proof -
  let ?q1 = "service_request ''/dxcc'' ''GET'' None None []" and ?q2 = "service_request ''/qrz'' ''GET'' None None []"
  have ok: "list_all request_readable [?q1, ?q2]"
    by (simp add: request_readable_def service_request_def request_ok_def method_ok_def uri_ok_def sample_defs
        hasHeader_def)
  have data: "map ham_request_get_data [?q1, ?q2] = map Inr [''GET /dxcc HTTP/1.1'' @ [CR, LF, CR, LF],
      ''GET /qrz HTTP/1.1'' @ [CR, LF, CR, LF]]"
    by (simp add: get_data_value service_request_def request_text_def)
  have served: "serve_requests [] (ss_auth (session_start (session_new 0))) (map server_view [?q1, ?q2])
      = Some (ss_auth (session_start (session_new 0)), [bad_request_text, bad_request_text])"
    by (simp add: handleRequest_def module_manager_handle_def Let_def server_view_def parsed_request_def
        service_request_def bad_request_text_def setContent_def setStatus_def server_reply_new_def)
  have "idle (session_start (session_new 0))" by (simp add: idle_def session_start_def session_new_def)
  from session_answers_in_order [where pieces = "[''GET /dx'', ''cc HTTP/1.1'' @ [CR, LF, CR], LF # ''GET /qrz HTTP/1.1'',
      [CR, LF, CR, LF]]", OF this _ _ ok data _ _ served]
  show ?thesis by (auto simp: session_start_def session_new_def simp del: feed.simps)
qed

text \<open>
  C19. The session never gets stuck: as long as it was not stopped it either has a read pending or
  waits for the completion of one asynchronous reply, never both; it takes whatever bytes arrive and
  whatever reply is completed without undefined behaviour; and it is stopped at most twice.
\<close>

theorem session_never_stuck:
  assumes "session_reachable mods S"
  shows "ss_stops S \<le> 2 \<and> (ss_stops S = 0 \<longrightarrow>
    (ss_reading S \<longleftrightarrow> ss_current S = None)
    \<and> (ss_reading S \<longrightarrow> (\<forall>b. \<exists>S1. handleRead mods (Some b) (S\<lparr>ss_reading := False\<rparr>) = Inr S1))
    \<and> (\<not> ss_reading S \<longrightarrow> (\<forall>reply. \<exists>S1. sendAsyncReply mods reply S = Inr S1)))"
proof -
  have inv: "session_inv S" by (rule reachable_inv [OF assms])
  then have "ss_stops S \<le> 2" "ss_stops S = 0 \<longrightarrow> (ss_reading S \<longleftrightarrow> ss_current S = None)"
    by (simp_all add: session_inv_def)
  then show ?thesis using arrive_inv [OF inv] complete_inv [OF inv] by blast
qed

theorem session_never_stuck_witness:
  "\<exists>S1. handleRead [] (Some ''G'') ((session_start (session_new 0))\<lparr>ss_reading := False\<rparr>) = Inr S1"
  using session_never_stuck [OF session_reachable.started [of "[]" 0]]
  by (auto simp: session_start_def session_new_def)

end
