(* ===== verification/Server.thy ===== *)
theory Server
  imports ServerSession
begin

text \<open>
  The sessions of the server: \<open>server/server.cpp\<close>, \<open>server/sessionmanager.cpp\<close>, the end of a session
  in \<open>server/session.cpp\<close> and what \<open>server/modulemanager.cpp\<close> tells the modules then.

  Sessions are numbered in the order of their creation. \<open>srv_next\<close> is the session that waits for a
  client (\<open>m_session\<close>), \<open>srv_accepting\<close> says that an accept is pending; \<open>srv_slots\<close> are the sessions
  whose \<open>onStopped\<close> is connected to the manager, \<open>srv_told\<close> the calls of \<open>handleSessionFinished\<close> of
  the modules, by their URIs. What a session does between its start and its end is in the theory
  \<open>ServerSession\<close>.
\<close>

record server =
  srv_accepting :: bool
  srv_open :: bool
  srv_next :: nat
  srv_sessions :: "nat list"
  srv_slots :: "nat list"
  srv_told :: "(string \<times> nat) list"

definition server_new :: server where
  "server_new = \<lparr>srv_accepting = True, srv_open = True, srv_next = 0, srv_sessions = [], srv_slots = [],
     srv_told = []\<rparr>"

definition manager_start :: "nat \<Rightarrow> server \<Rightarrow> server" where
  "manager_start i V = V\<lparr>srv_sessions := srv_sessions V @ [i], srv_slots := srv_slots V @ [i]\<rparr>"

definition handleAccept :: "bool \<Rightarrow> server \<Rightarrow> server" where
  "handleAccept err V =
     (if err then V\<lparr>srv_accepting := False\<rparr>
      else (manager_start (srv_next V) V)\<lparr>srv_next := Suc (srv_next V), srv_accepting := True\<rparr>)"

definition handleStop :: "server \<Rightarrow> server" where
  "handleStop V = V\<lparr>srv_open := False\<rparr>"

text \<open>Every module is told, in the order of the map of modules.\<close>

definition handleSessionFinished :: "module_map \<Rightarrow> nat \<Rightarrow> server \<Rightarrow> server" where
  "handleSessionFinished mods i V = V\<lparr>srv_told := srv_told V @ map (\<lambda>(uri, _). (uri, i)) mods\<rparr>"

definition handleStopped :: "nat \<Rightarrow> server \<Rightarrow> server" where
  "handleStopped i V = V\<lparr>srv_slots := filter (\<lambda>j. j \<noteq> i) (srv_slots V), srv_sessions := removeAll i (srv_sessions V)\<rparr>"

text \<open>\<open>Session::stop\<close>, as far as others see it; \<open>onStopped\<close> calls the manager while it is connected.\<close>

definition stop_session :: "module_map \<Rightarrow> nat \<Rightarrow> server \<Rightarrow> server" where
  "stop_session mods i V =
     (let V1 = handleSessionFinished mods i V
      in if i \<in> set (srv_slots V1) then handleStopped i V1 else V1)"

subsection \<open>The server as a state machine\<close>

text \<open>
  A pending accept succeeds while the acceptor is open, or fails; a session that was started can stop,
  a second time as well.
\<close>

inductive server_step :: "module_map \<Rightarrow> server \<Rightarrow> server \<Rightarrow> bool" for mods where
  accepted: "srv_accepting V \<Longrightarrow> srv_open V \<Longrightarrow> server_step mods V (handleAccept False V)"
| refused: "srv_accepting V \<Longrightarrow> server_step mods V (handleAccept True V)"
| finished: "i < srv_next V \<Longrightarrow> server_step mods V (stop_session mods i V)"
| closed: "server_step mods V (handleStop V)"

inductive server_steps :: "module_map \<Rightarrow> server \<Rightarrow> server \<Rightarrow> bool" for mods where
  none: "server_steps mods V V"
| more: "server_steps mods V V1 \<Longrightarrow> server_step mods V1 V2 \<Longrightarrow> server_steps mods V V2"

inductive_cases server_stepE: "server_step mods V V1"

definition server_inv :: "module_map \<Rightarrow> server \<Rightarrow> bool" where
  "server_inv mods V \<longleftrightarrow> distinct (srv_sessions V) \<and> srv_slots V = srv_sessions V
     \<and> set (srv_sessions V) \<subseteq> {..<srv_next V}
     \<and> (\<forall>u i. (u, i) \<in> set (srv_told V) \<longleftrightarrow> u \<in> fst ` set mods \<and> i < srv_next V \<and> i \<notin> set (srv_sessions V))"

lemma accept_inv: "server_inv mods V \<Longrightarrow> server_inv mods (handleAccept err V)"
  by (auto simp: server_inv_def handleAccept_def manager_start_def less_Suc_eq)

lemma closing_inv: "server_inv mods V \<Longrightarrow> server_inv mods (handleStop V)"
  by (simp add: server_inv_def handleStop_def)

lemma stop_inv:
  assumes "server_inv mods V" and "i < srv_next V"
  shows "server_inv mods (stop_session mods i V)"
proof -
  have filter: "filter (\<lambda>j. j \<noteq> i) (srv_sessions V) = removeAll i (srv_sessions V)"
    by (simp add: removeAll_filter_not_eq eq_commute)
  have "(u, j) \<in> set (map (\<lambda>(uri, _). (uri, i)) mods) \<longleftrightarrow> u \<in> fst ` set mods \<and> j = i" for u j
    by (auto simp: image_iff split: prod.splits) force
  with assms filter show ?thesis
    by (auto simp: server_inv_def stop_session_def handleSessionFinished_def handleStopped_def Let_def
        distinct_removeAll)
qed

lemma step_inv:
  assumes "server_step mods V V1" and "server_inv mods V"
  shows "server_inv mods V1"
  using assms(1)
proof (rule server_stepE)
  fix i assume "V1 = stop_session mods i V" "i < srv_next V"
  with stop_inv [OF assms(2)] show ?thesis by simp
qed (use accept_inv [OF assms(2)] closing_inv [OF assms(2)] in simp_all)

lemma steps_inv: "server_steps mods V V1 \<Longrightarrow> server_inv mods V \<Longrightarrow> server_inv mods V1"
  by (induction rule: server_steps.induct) (auto dest: step_inv)

text \<open>Without a pending accept no session starts any more.\<close>

lemma deaf_step: "server_step mods V V1 \<Longrightarrow> \<not> srv_accepting V \<Longrightarrow> \<not> srv_accepting V1 \<and> srv_next V1 = srv_next V"
  by (auto elim!: server_stepE simp: stop_session_def handleSessionFinished_def handleStopped_def handleStop_def Let_def
      split: if_splits)

lemma deaf_steps:
  "server_steps mods V V1 \<Longrightarrow> \<not> srv_accepting V \<Longrightarrow> \<not> srv_accepting V1 \<and> srv_next V1 = srv_next V"
  by (induction rule: server_steps.induct) (auto dest: deaf_step)

subsection \<open>The properties\<close>

text \<open>
  C31. The manager holds exactly the sessions that were accepted and have not ended, each once, and
  every module has been told of the end of exactly the others; but once an accept has failed the
  server is deaf: no session starts any more, whatever happens.
\<close>

theorem server_keeps_its_sessions:
  assumes "server_steps mods server_new V"
  shows "distinct (srv_sessions V)
    \<and> (\<forall>i. i \<in> set (srv_sessions V) \<longrightarrow> i < srv_next V)
    \<and> (\<forall>u i. (u, i) \<in> set (srv_told V) \<longleftrightarrow> u \<in> fst ` set mods \<and> i < srv_next V \<and> i \<notin> set (srv_sessions V))
    \<and> (\<forall>V1. server_steps mods (handleAccept True V) V1 \<longrightarrow> srv_next V1 = srv_next V)"
proof -
  have "server_inv mods server_new" by (simp add: server_inv_def server_new_def)
  then have "server_inv mods V" by (rule steps_inv [OF assms])
  moreover have "srv_next V1 = srv_next V" if "server_steps mods (handleAccept True V) V1" for V1
    using deaf_steps [OF that] by (simp add: handleAccept_def)
  ultimately show ?thesis by (auto simp: server_inv_def)
qed

theorem server_keeps_its_sessions_witness:
  "srv_sessions (stop_session [dxcc_module] 0 (handleAccept False (handleAccept False server_new))) = [1]
   \<and> (\<forall>i. (''/dxcc'', i) \<in> set (srv_told (stop_session [dxcc_module] 0 (handleAccept False (handleAccept False server_new))))
       \<longleftrightarrow> i = 0)"
proof -
  let ?V = "stop_session [dxcc_module] 0 (handleAccept False (handleAccept False server_new))"
  have two: "server_steps [dxcc_module] server_new (handleAccept False (handleAccept False server_new))"
    by (rule server_steps.more [OF server_steps.more [OF server_steps.none]]; rule server_step.accepted)
      (simp_all add: server_new_def handleAccept_def manager_start_def)
  have "server_steps [dxcc_module] server_new ?V"
    by (rule server_steps.more [OF two], rule server_step.finished)
      (simp add: server_new_def handleAccept_def manager_start_def)
  moreover have "srv_sessions ?V = [1]" "srv_next ?V = 2"
    by (simp_all add: server_new_def handleAccept_def manager_start_def stop_session_def
        handleSessionFinished_def handleStopped_def Let_def)
  ultimately show ?thesis
    using server_keeps_its_sessions [of "[dxcc_module]" ?V] by (auto simp: dxcc_module_def less_2_cases_iff)
qed

end
