(* ===== verification/Exchange.thy ===== *)
theory Exchange
  imports ServerSession
begin

text \<open>
  Both ends together: what a client of the library writes is what a session of the server reads, and
  what the session writes is what the client reads. The two properties on order, of the session and
  of the client, are joined here to one on the whole exchange. The network is an argument: it delivers
  the bytes to the server in any pieces, and to the client in one read.
\<close>

subsection \<open>The client sends\<close>

text \<open>Requests with the handlers of their replies, sent one after the other.\<close>

fun send_all ::
  "('h, 'u) reaction \<Rightarrow> (request \<times> 'h \<times> 'u) list \<Rightarrow> ('h, 'u) connection \<Rightarrow> ('h, 'u) connection result" where
  "send_all react [] c = Inr c"
| "send_all react ((q, g, u) # qs) c =
     rbind (ham_connection_send react True q (Some (Client_handler g)) u c) (send_all react qs)"

text \<open>What was written to the socket of a connection.\<close>

definition socket_bytes :: "('h, 'u) connection \<Rightarrow> string" where
  "socket_bytes c = concat (map (\<lambda>e. case e of Wrote fd s \<Rightarrow> s | _ \<Rightarrow> []) (c_events c))"

text \<open>The user interface does nothing to the connection when it is told of a request.\<close>

definition unmoved :: "('h, 'u) reaction \<Rightarrow> bool" where
  "unmoved react \<longleftrightarrow> (\<forall>data c. react (Emitted ''connection-request-sent'' data 0) c = c)"

definition asks :: "request \<Rightarrow> bool" where
  "asks q \<longleftrightarrow> request_readable q \<and> (case q_content q of None \<Rightarrow> True | Some c \<Rightarrow> no_nul c \<and> length c < 10 ^ 9)"

lemma asks_data:
  assumes "asks q"
  shows "ham_request_get_data q = Inr (request_text q)" and "cstr (request_text q) = request_text q"
proof -
  show data: "ham_request_get_data q = Inr (request_text q)"
    using assms by (simp add: asks_def get_data_value split: option.splits)
  have "no_nul (request_text q)"
    using assms by (intro request_no_nul [OF _ data])
      (auto simp: asks_def request_readable_def split: option.splits)
  then show "cstr (request_text q) = request_text q" by simp
qed

lemma send_one:
  assumes "asks q" and "unmoved react" and "c_fd c \<noteq> -1"
  shows "\<exists>c1. ham_connection_send react True q (Some (Client_handler g)) u c = Inr c1
    \<and> socket_bytes c1 = socket_bytes c @ request_text q
    \<and> c_handlers c1 = c_handlers c @ [(Some (Client_handler g), u)]
    \<and> c_fd c1 = c_fd c \<and> c_parser c1 = c_parser c \<and> c_reply c1 = c_reply c \<and> calls c1 = calls c"
  using assms asks_data [OF assms(1)]
  by (simp add: ham_connection_send_def unmoved_def happen_def log_event_def socket_bytes_def calls_def Let_def)

lemma sends_all:
  assumes "list_all (\<lambda>(q, _, _). asks q) qs" and "unmoved react" and "c_fd c \<noteq> -1"
  shows "\<exists>c1. send_all react qs c = Inr c1
    \<and> socket_bytes c1 = socket_bytes c @ concat (map (\<lambda>(q, _, _). request_text q) qs)
    \<and> c_handlers c1 = c_handlers c @ map (\<lambda>(_, g, u). (Some (Client_handler g), u)) qs
    \<and> c_fd c1 = c_fd c \<and> c_parser c1 = c_parser c \<and> c_reply c1 = c_reply c \<and> calls c1 = calls c"
  using assms
proof (induction qs arbitrary: c)
  case (Cons x qs)
  obtain q g u where x: "x = (q, g, u)" by (cases x)
  with Cons.prems send_one [of q react c g u] obtain c1 where c1:
    "ham_connection_send react True q (Some (Client_handler g)) u c = Inr c1"
    "socket_bytes c1 = socket_bytes c @ request_text q"
    "c_handlers c1 = c_handlers c @ [(Some (Client_handler g), u)]"
    "c_fd c1 = c_fd c" "c_parser c1 = c_parser c" "c_reply c1 = c_reply c" "calls c1 = calls c"
    by auto
  with Cons.IH [of c1] Cons.prems x show ?case by auto
qed simp

subsection \<open>The server answers\<close>

text \<open>The replies of the modules to a sequence of requests; \<open>None\<close> when one is asynchronous.\<close>

fun replies_to :: "module_map \<Rightarrow> session \<Rightarrow> server_request list \<Rightarrow> (session \<times> server_reply list) option" where
  "replies_to mods a [] = Some (a, [])"
| "replies_to mods a (q # qs) = (case handleRequest mods a q of (a1, reply) \<Rightarrow>
     if sr_async reply then None
     else map_option (\<lambda>(a2, rs). (a2, reply # rs)) (replies_to mods a1 qs))"

lemma serve_replies:
  "serve_requests mods a qs = map_option (\<lambda>(a1, rs). (a1, map (\<lambda>r. fst (toString r)) rs)) (replies_to mods a qs)"
  by (induction mods a qs rule: replies_to.induct)
    (auto simp: option.map_comp comp_def split: prod.splits intro!: option.map_cong)

lemma replies_to_length: "replies_to mods a qs = Some (a1, rs) \<Longrightarrow> length rs = length qs"
  by (induction mods a qs arbitrary: a1 rs rule: replies_to.induct) (auto split: prod.splits if_splits)

text \<open>A reply the client can read, and the reply it makes of it.\<close>

definition reply_readable :: "server_reply \<Rightarrow> bool" where
  "reply_readable r \<longleftrightarrow> server_reply_inv r \<and> headers_ok (sr_headers r) \<and> no_nul (sr_content r)
     \<and> length (sr_content r) < MAX_REPLY_SIZE \<and> (sr_content r = [] \<or> strip_cr (sr_content r) \<noteq> [])"

definition received :: "server_reply \<Rightarrow> reply \<Rightarrow> bool" where
  "received r q \<longleftrightarrow> ham_reply_is_finished q \<and> ham_reply_get_status q = sent_status (sr_status r)
     \<and> r_headers q = sent_headers r \<and> ham_reply_get_content q = Inr (strip_cr (sr_content r))"

lemma replies_on_wire:
  assumes "list_all reply_readable rs"
  shows "\<exists>ws. list_all wire_ok ws \<and> map wire_text ws = map (\<lambda>r. fst (toString r)) rs
    \<and> list_all2 server_wire rs ws"
  using assms
proof (induction rs)
  case (Cons r rs)
  obtain w where "wire_ok w" "server_wire r w"
    using server_wire_ok [of r] Cons.prems by (auto simp: reply_readable_def)
  moreover from this(2) have "wire_text w = fst (toString r)" by (simp add: server_wire_def split: prod.splits)
  moreover obtain ws where "list_all wire_ok ws" "map wire_text ws = map (\<lambda>r. fst (toString r)) rs"
    "list_all2 server_wire rs ws"
    using Cons by auto
  ultimately show ?case by (intro exI [of _ "w # ws"]) simp
qed simp

lemma received_wire: "server_wire r w \<Longrightarrow> reply_of w q \<Longrightarrow> received r q"
  by (auto simp: server_wire_def reply_of_def received_def split: prod.splits)

lemma received_wires:
  "list_all2 server_wire rs ws \<Longrightarrow> list_all2 reply_of ws qs \<Longrightarrow> list_all2 received rs qs"
  using list_all2_trans [of server_wire reply_of received rs ws qs] received_wire by blast

subsection \<open>The whole exchange\<close>

lemma server_takes_all:
  assumes "idle S" and "ss_state S = rq_method_start" and "ss_req S = new_request"
    and "list_all asks qs" and "concat pieces = concat (map request_text qs)" and "\<forall>b \<in> set pieces. b \<noteq> []"
    and "replies_to mods (ss_auth S) (map server_view qs) = Some (auth1, rs)"
  shows "\<exists>S1. feed mods S pieces = Inr S1 \<and> ss_auth S1 = auth1 \<and> idle S1
    \<and> ss_written S1 = ss_written S @ map (\<lambda>r. fst (toString r)) rs"
proof -
  have readable: "list_all request_readable qs" and data: "map ham_request_get_data qs = map Inr (map request_text qs)"
    using assms(4) asks_data(1) by (auto simp: list_all_iff asks_def)
  have "serve_requests mods (ss_auth S) (map server_view qs) = Some (auth1, map (\<lambda>r. fst (toString r)) rs)"
    using assms(7) by (simp add: serve_replies)
  then have "serve_bytes mods (served_of S) (concat pieces) = Some ((served_of S)\<lparr>sv_auth := auth1,
      sv_written := sv_written (served_of S) @ map (\<lambda>r. fst (toString r)) rs\<rparr>)"
    unfolding assms(5) using assms(2,3) by (intro serve_all [OF readable data]) simp_all
  from feed_serves [OF assms(1,6) this] show ?thesis by (auto simp: served_of_def)
qed

lemma client_takes_all:
  assumes "polite react" and "c_fd c \<noteq> -1" and "p_state (c_parser c) = http_version_h" and "fresh_reply (c_reply c)"
    and "c_handlers c = map (\<lambda>(g, u). (Some (Client_handler g), u)) gs" and "length gs = length rs" and "rs \<noteq> []"
    and "list_all reply_readable rs" and "length (concat (map (\<lambda>r. fst (toString r)) rs)) < READ_SIZE"
  shows "\<exists>c1 qs. ham_connection_read_data react junk_field junk (Recv (concat (map (\<lambda>r. fst (toString r)) rs))) c = Inr c1
    \<and> c_fd c1 = c_fd c \<and> list_all2 received rs qs \<and> calls c1 = calls c @ map2 (\<lambda>(g, u) r. (g, r, u)) gs qs"
proof -
  obtain ws where ws: "list_all wire_ok ws" "map wire_text ws = map (\<lambda>r. fst (toString r)) rs"
    "list_all2 server_wire rs ws"
    using replies_on_wire [OF assms(8)] by blast
  then have ne: "ws \<noteq> []" and lens: "length gs = length ws"
    using assms(6,7) by (auto dest: list_all2_lengthD)
  obtain w ws' where "ws = w # ws'" using ne by (cases ws) auto
  then have "concat (map wire_text ws) \<noteq> []" using wire_text_end [of w] by auto
  then have "ham_connection_read_data react junk_field junk (Recv (concat (map wire_text ws))) c =
      read_loop react junk_field junk (concat (map wire_text ws)) 0 c"
    using assms(2,9) ws(2) by (intro read_data_loop) simp_all
  with read_loop_replies [OF assms(1) ne ws(1), of 0 "concat (map wire_text ws)" "[]" c gs "[]" junk_field junk]
    assms(2-5,9) lens ws(2) received_wires [OF ws(3)]
  show ?thesis by fastforce
qed

subsection \<open>The properties\<close>

text \<open>
  C1. Every request gets its own reply: when a connected client sends requests, the network delivers
  the bytes to an idle session in any pieces, and the modules answer at once, the session writes one
  reply per request, and the client that reads them calls the handler of each request, in the order
  of the requests, with the reply of the module to this request: its status, its headers and its
  content without carriage returns.
\<close>

theorem every_request_gets_its_reply:
  assumes "polite react" and "unmoved react" and "c_fd c \<noteq> -1" and "c_handlers c = []"
    and "p_state (c_parser c) = http_version_h" and "fresh_reply (c_reply c)"
    and "list_all (\<lambda>(q, _, _). asks q) exs" and "exs \<noteq> []"
    and "idle S" and "ss_state S = rq_method_start" and "ss_req S = new_request"
    and "replies_to mods (ss_auth S) (map (\<lambda>(q, _, _). server_view q) exs) = Some (auth1, rs)"
    and "list_all reply_readable rs" and "length (concat (map (\<lambda>r. fst (toString r)) rs)) < READ_SIZE"
  shows "\<exists>c1. send_all react exs c = Inr c1
    \<and> (\<forall>pieces. socket_bytes c1 = socket_bytes c @ concat pieces \<and> [] \<notin> set pieces \<longrightarrow>
        (\<exists>S1 out c2 qs. feed mods S pieces = Inr S1 \<and> idle S1 \<and> ss_auth S1 = auth1
          \<and> ss_written S1 = ss_written S @ out
          \<and> ham_connection_read_data react junk_field junk (Recv (concat out)) c1 = Inr c2 \<and> c_fd c2 = c_fd c
          \<and> list_all2 received rs qs
          \<and> calls c2 = calls c @ map2 (\<lambda>(_, g, u) r. (g, r, u)) exs qs))"
proof -
  let ?qs = "map (\<lambda>(q, _, _). q) exs" and ?gs = "map (\<lambda>(_, g, u). (g, u)) exs"
  have maps: "map request_text ?qs = map (\<lambda>(q, _, _). request_text q) exs"
    "map (\<lambda>(g, u). (Some (Client_handler g), u)) ?gs = map (\<lambda>(_, g, u). (Some (Client_handler g), u)) exs"
    "map server_view ?qs = map (\<lambda>(q, _, _). server_view q) exs"
    by auto
  obtain c1 where c1: "send_all react exs c = Inr c1"
    "socket_bytes c1 = socket_bytes c @ concat (map request_text ?qs)"
    "c_handlers c1 = map (\<lambda>(g, u). (Some (Client_handler g), u)) ?gs"
    "c_fd c1 = c_fd c" "c_parser c1 = c_parser c" "c_reply c1 = c_reply c" "calls c1 = calls c"
    using sends_all [OF assms(7,2,3)] assms(4) unfolding maps by auto
  have asks: "list_all asks ?qs" using assms(7) by (auto simp: list_all_iff)
  have replies: "replies_to mods (ss_auth S) (map server_view ?qs) = Some (auth1, rs)"
    using assms(12) unfolding maps .
  have lens: "length ?gs = length rs" and ne: "rs \<noteq> []"
    using replies_to_length [OF replies] assms(8) by auto
  have start: "c_fd c1 \<noteq> -1" "p_state (c_parser c1) = http_version_h" "fresh_reply (c_reply c1)"
    using assms(3,5,6) c1(4-6) by simp_all
  obtain c2 qs where c2: "ham_connection_read_data react junk_field junk
      (Recv (concat (map (\<lambda>r. fst (toString r)) rs))) c1 = Inr c2" "c_fd c2 = c_fd c1" "list_all2 received rs qs"
    "calls c2 = calls c1 @ map2 (\<lambda>(g, u) r. (g, r, u)) ?gs qs"
    using client_takes_all [OF assms(1) start c1(3) lens ne assms(13,14), of junk_field junk] by blast
  have "map2 (\<lambda>(g, u) r. (g, r, u)) ?gs qs = map2 (\<lambda>(_, g, u) r. (g, r, u)) exs qs"
    unfolding zip_map1 by (auto simp: split_beta)
  then have "calls c2 = calls c @ map2 (\<lambda>(_, g, u) r. (g, r, u)) exs qs" "c_fd c2 = c_fd c"
    using c2(2,4) c1(4,7) by simp_all
  moreover have "\<exists>S1. feed mods S pieces = Inr S1 \<and> ss_auth S1 = auth1 \<and> idle S1
      \<and> ss_written S1 = ss_written S @ map (\<lambda>r. fst (toString r)) rs"
    if "socket_bytes c1 = socket_bytes c @ concat pieces" "[] \<notin> set pieces" for pieces
    using that c1(2) by (intro server_takes_all [OF assms(9-11) asks _ _ replies]) auto
  ultimately show ?thesis using c1(1) c2(1,3) by blast
qed

definition refusal :: server_reply where
  "refusal = setContent ''Bad request'' (setStatus 400 (server_reply_new 200 ''text/hamlog''))"

lemma refusal_readable:
  "reply_readable refusal" "length (fst (toString refusal)) < READ_SIZE" "strip_cr (sr_content refusal) = ''Bad request''"
proof -
  show "reply_readable refusal"
    by (auto simp: reply_readable_def refusal_def server_reply_inv_ops)
      (simp_all add: setContent_def setStatus_def server_reply_new_def sample_defs strip_cr_def MAX_REPLY_SIZE_def)
  have "length (dec (length ''Bad request'')) \<le> 2" by (rule length_dec_le) simp_all
  then show "length (fst (toString refusal)) < READ_SIZE"
    by (simp add: refusal_def toString_def setContent_def setStatus_def server_reply_new_def print_header_def
        status_text_of_def READ_SIZE_def strip_cr_def)
  show "strip_cr (sr_content refusal) = ''Bad request''" by (simp add: refusal_def setContent_def strip_cr_def)
qed

theorem every_request_gets_its_reply_witness:
  "\<exists>c1 S1 c2 q. send_all (\<lambda>_ c. c) [(service_request ''/dxcc'' ''GET'' None None [], 1, 10)]
      (connection0\<lparr>c_handlers := []\<rparr>) = Inr c1
    \<and> feed [] (session_start (session_new 0)) [socket_bytes c1] = Inr S1
    \<and> ham_connection_read_data (\<lambda>_ c. c) (\<lambda>_. NUL) (\<lambda>_ _. NUL) (Recv (concat (ss_written S1))) c1 = Inr c2
    \<and> calls c2 = [(1, q, 10)] \<and> ham_reply_get_content q = Inr ''Bad request''"
proof -
  let ?q = "service_request ''/dxcc'' ''GET'' None None []" and ?c = "connection0\<lparr>c_handlers := []\<rparr>"
    and ?S = "session_start (session_new 0)"
  have c: "c_fd ?c \<noteq> -1" "c_handlers ?c = []" "p_state (c_parser ?c) = http_version_h" "fresh_reply (c_reply ?c)"
    "calls ?c = []" "socket_bytes ?c = []"
    using start0 by (simp_all add: connection0_def calls_def socket_bytes_def)
  have S: "idle ?S" "ss_state ?S = rq_method_start" "ss_req ?S = new_request" "ss_written ?S = []"
    by (simp_all add: idle_def session_start_def session_new_def)
  have asks: "list_all (\<lambda>(q, _, _). asks q) [(?q, 1 :: nat, 10 :: nat)]"
    by (simp add: asks_def request_readable_def service_request_def request_ok_def method_ok_def uri_ok_def sample_defs
        hasHeader_def)
  have replies: "replies_to [] (ss_auth ?S) (map (\<lambda>(q, _, _). server_view q) [(?q, 1 :: nat, 10 :: nat)])
      = Some (ss_auth ?S, [refusal])"
    by (simp add: handleRequest_def module_manager_handle_def Let_def server_view_def parsed_request_def
        service_request_def refusal_def setContent_def setStatus_def server_reply_new_def)
  have react: "polite (\<lambda>_ c. c :: (nat, nat) connection)" "unmoved (\<lambda>_ c. c :: (nat, nat) connection)"
    by (simp_all add: polite_def unmoved_def)
  obtain c1 where c1: "send_all (\<lambda>_ c. c) [(?q, 1, 10)] ?c = Inr c1" and
    all: "\<And>pieces. socket_bytes c1 = concat pieces \<Longrightarrow> [] \<notin> set pieces \<Longrightarrow>
      \<exists>S1 c2 qs. feed [] ?S pieces = Inr S1
        \<and> ham_connection_read_data (\<lambda>_ c. c) (\<lambda>_. NUL) (\<lambda>_ _. NUL) (Recv (concat (ss_written S1))) c1 = Inr c2
        \<and> list_all2 received [refusal] qs \<and> calls c2 = map2 (\<lambda>(_, g, u) r. (g, r, u)) [(?q, 1, 10)] qs"
    using every_request_gets_its_reply [OF react c(1-4) asks _ S(1-3) replies, of "\<lambda>_. NUL" "\<lambda>_ _. NUL"]
      refusal_readable(1,2) c(5,6) S(4) by fastforce
  have "socket_bytes c1 \<noteq> []"
    using c1 by (auto simp: ham_connection_send_def get_data_value service_request_def request_text_def
        happen_def log_event_def socket_bytes_def connection0_def cstr_def)
  with all [of "[socket_bytes c1]"] c1 refusal_readable(3) show ?thesis
    by (auto simp: list_all2_Cons1 received_def simp del: feed.simps)
qed

end
