(* ===== verification/QtRecords.thy ===== *)
theory QtRecords
  imports LogBook
begin

text \<open>
  The records in the user interface: the CSV parser \<open>ui/qt/qtlogbook.cpp\<close>, the table of records
  \<open>ui/qt/logbooktreewidget.cpp\<close> and the dialog for one record \<open>ui/qt/newrecorddialog.cpp\<close>.

  Of Qt only what the code relies on is here: the texts of a header, of the columns of items and of
  input fields. Texts are bytes. The conversions between the number of seconds in a CSV text and the
  dates shown are arguments, and so is what the user does while a dialog is open. Requests to the
  library are in the state, in their order. A list that is read beyond its end is the fault
  \<open>Dangling\<close>.
\<close>

subsection \<open>The parser\<close>

fun qt_loop :: "bool \<Rightarrow> string \<Rightarrow> string list \<Rightarrow> string list list \<Rightarrow> string \<Rightarrow> string list list" where
  "qt_loop quotes field row rows [] = rows @ [if field \<noteq> [] then row @ [field] else row]"
| "qt_loop quotes field row rows (c # cs) =
     (if c = NUL then rows @ [if field \<noteq> [] then row @ [field] else row]
      else if \<not> quotes \<and> c = DQUOTE then qt_loop True field row rows cs
      else if quotes \<and> c = DQUOTE then
        (if cs \<noteq> [] \<and> hd cs = DQUOTE then qt_loop quotes (field @ [c]) row rows (tl cs)
         else qt_loop False field row rows cs)
      else if \<not> quotes \<and> c = CHR '';'' then qt_loop quotes [] (row @ [field]) rows cs
      else if \<not> quotes \<and> (c = LF \<or> c = CR) then qt_loop quotes [] [] (rows @ [row @ [field]]) cs
      else qt_loop quotes (field @ [c]) row rows cs)"

definition tokenize :: "string \<Rightarrow> string list list" where
  "tokenize s = qt_loop False [] [] [] s"

text \<open>\<open>tokens[r][i]\<close>\<close>

definition cell :: "string list list \<Rightarrow> nat \<Rightarrow> nat \<Rightarrow> string result" where
  "cell tokens r i = (if r < length tokens \<and> i < length (tokens ! r) then Inr (tokens ! r ! i) else Inl Dangling)"

text \<open>The map from the names of a header to their numbers, as a list without an order.\<close>

fun header_indexes :: "nat \<Rightarrow> string list \<Rightarrow> (string \<times> nat) list \<Rightarrow> (string \<times> nat) list" where
  "header_indexes i [] m = m"
| "header_indexes i (h # hs) m = header_indexes (Suc i) hs ((h, i) # filter (\<lambda>(k, _). k \<noteq> h) m)"

text \<open>Reading \<open>indexes[k]\<close>, which adds 0 for a name that is not there.\<close>

definition index_at :: "string \<Rightarrow> (string \<times> nat) list \<Rightarrow> nat \<times> (string \<times> nat) list" where
  "index_at k m = (case map_of m k of Some i \<Rightarrow> (i, m) | None \<Rightarrow> (0, (k, 0) # m))"

subsection \<open>The table of records\<close>

type_synonym item = "string list"

datatype ui_request = Fetch_records "string option" | Add_record string | Remove_record string
  | Fetch_callinfo string | Fetch_frequency

record tree =
  tw_header :: "string list"
  tw_items :: "item list"
  tw_current :: "nat option"
  tw_askDXCC :: bool
  tw_requests :: "ui_request list"

definition item_text :: "item \<Rightarrow> nat \<Rightarrow> string" where
  "item_text it i = (if i < length it then it ! i else [])"

text \<open>\<open>setText\<close>; nothing happens for the column -1, which is \<open>None\<close>.\<close>

definition set_text :: "nat option \<Rightarrow> string \<Rightarrow> item \<Rightarrow> item" where
  "set_text c t it = (case c of
     None \<Rightarrow> it
   | Some i \<Rightarrow> if i < length it then it[i := t] else it @ replicate (i - length it) [] @ [t])"

fun find_column :: "string list \<Rightarrow> string \<Rightarrow> nat option" where
  "find_column [] name = None"
| "find_column (h # hs) name = (if h = name then Some 0 else map_option Suc (find_column hs name))"

abbreviation findColumnWithName :: "tree \<Rightarrow> string \<Rightarrow> nat option" where
  "findColumnWithName T \<equiv> find_column (tw_header T)"

text \<open>The labels of the first columns; columns that are there already stay.\<close>

definition set_header_labels :: "string list \<Rightarrow> tree \<Rightarrow> tree" where
  "set_header_labels labels T = T\<lparr>tw_header := labels @ drop (length labels) (tw_header T)\<rparr>"

text \<open>The text of one column in \<open>itemToCSV\<close>.\<close>

definition column_csv :: "(string \<Rightarrow> string) \<Rightarrow> item \<Rightarrow> nat \<Rightarrow> string" where
  "column_csv to_seconds it i =
     (if i = 0 \<and> item_text it 0 = [] then ''-1''
      else if i = 2 then to_seconds (item_text it i)
      else item_text it i)"

definition itemToCSV :: "(string \<Rightarrow> string) \<Rightarrow> tree \<Rightarrow> item \<Rightarrow> string result" where
  "itemToCSV to_seconds T it =
     (if tw_header T = [] then Inl Dangling
      else Inr (butlast (butlast (concat (map (\<lambda>h. h @ '';'') (tw_header T))) @ [LF]
        @ concat (map (\<lambda>i. column_csv to_seconds it i @ '';'') [0..<length (tw_header T)])) @ [LF]))"

text \<open>The columns of a row, by the names of the CSV text's header.\<close>

fun set_item_columns ::
  "(string \<Rightarrow> string) \<Rightarrow> string list \<Rightarrow> string list list \<Rightarrow> nat \<Rightarrow> (string \<times> nat) list \<Rightarrow> item \<Rightarrow> item result" where
  "set_item_columns from_seconds header tokens r [] it = Inr it"
| "set_item_columns from_seconds header tokens r ((name, i) # m) it =
     rbind (cell tokens r i) (\<lambda>v. set_item_columns from_seconds header tokens r m
       (set_text (find_column header name) (if name = ''qsodate'' then from_seconds v else v) it))"

fun find_item :: "string \<Rightarrow> item list \<Rightarrow> nat option" where
  "find_item t [] = None"
| "find_item t (it # its) = (if item_text it 0 = t then Some 0 else map_option Suc (find_item t its))"

text \<open>\<open>itemFromCSV\<close> of row \<open>r\<close>: the item with this id, or a new one, becomes the current one.\<close>

definition itemFromRow ::
  "(string \<Rightarrow> string) \<Rightarrow> string list list \<Rightarrow> nat \<Rightarrow> (string \<times> nat) list \<Rightarrow> tree \<Rightarrow> tree result" where
  "itemFromRow from_seconds tokens r indexes T =
     (case index_at ''id'' indexes of (i, m) \<Rightarrow>
        rbind (cell tokens r i) (\<lambda>v.
          let T1 = (case find_item v (tw_items T) of
                None \<Rightarrow> T\<lparr>tw_items := tw_items T @ [[]], tw_current := Some (length (tw_items T))\<rparr>
              | Some k \<Rightarrow> T\<lparr>tw_current := Some k\<rparr>);
              k = the (tw_current T1)
          in rmap (\<lambda>it. T1\<lparr>tw_items := (tw_items T1)[k := it]\<rparr>)
               (set_item_columns from_seconds (tw_header T1) tokens r m (tw_items T1 ! k))))"

definition itemFromCSV :: "(string \<Rightarrow> string) \<Rightarrow> string \<Rightarrow> tree \<Rightarrow> tree result" where
  "itemFromCSV from_seconds data T =
     (if data = [] then Inr T
      else let tokens = tokenize (cstr data)
        in itemFromRow from_seconds tokens 1 (header_indexes 0 (hd tokens) []) T)"

text \<open>The rows of a fetched table; rows with less than two columns are left out.\<close>

fun items_from_rows ::
  "(string \<Rightarrow> string) \<Rightarrow> string list list \<Rightarrow> (string \<times> nat) list \<Rightarrow> nat list \<Rightarrow> tree \<Rightarrow> tree result" where
  "items_from_rows from_seconds tokens indexes [] T = Inr T"
| "items_from_rows from_seconds tokens indexes (r # rs) T =
     (if 1 < length (tokens ! r)
      then rbind (itemFromRow from_seconds tokens r indexes T)
        (items_from_rows from_seconds tokens (snd (index_at ''id'' indexes)) rs)
      else items_from_rows from_seconds tokens indexes rs T)"

definition tree_fetch_handler :: "(string \<Rightarrow> string) \<Rightarrow> string \<Rightarrow> int \<Rightarrow> tree \<Rightarrow> tree result" where
  "tree_fetch_handler from_seconds records err T =
     (if err \<noteq> 0 then Inr T
      else let tokens = tokenize records;
               T1 = set_header_labels (hd tokens) (T\<lparr>tw_items := [], tw_current := None\<rparr>)
        in items_from_rows from_seconds tokens (header_indexes 0 (hd tokens) []) [1..<length tokens] T1)"

definition tree_request :: "ui_request \<Rightarrow> tree \<Rightarrow> tree" where
  "tree_request q T = T\<lparr>tw_requests := tw_requests T @ [q]\<rparr>"

definition current_item :: "tree \<Rightarrow> item result" where
  "current_item T = (case tw_current T of None \<Rightarrow> Inl Null_deref | Some k \<Rightarrow> Inr (tw_items T ! k))"

definition tryAskDXCC :: "tree \<Rightarrow> tree result" where
  "tryAskDXCC T =
     (if tw_askDXCC T then
        rbind (current_item T) (\<lambda>it.
          Inr (tree_request (Fetch_callinfo
            (case findColumnWithName T ''callsign'' of None \<Rightarrow> [] | Some c \<Rightarrow> item_text it c)) (T\<lparr>tw_askDXCC := False\<rparr>)))
      else Inr T)"

text \<open>The answer to an added record: its id and its user.\<close>

definition tree_add_handler :: "string \<Rightarrow> int \<Rightarrow> tree \<Rightarrow> tree result" where
  "tree_add_handler response err T =
     (if err \<noteq> 0 then Inr T
      else let tokens = tokenize response
        in rbind (current_item T) (\<lambda>it. rbind (cell tokens 0 0) (\<lambda>a. rbind (cell tokens 0 1) (\<lambda>b.
             tryAskDXCC (T\<lparr>tw_items := (tw_items T)[the (tw_current T) := set_text (Some 1) b (set_text (Some 0) a it)]\<rparr>)))))"

text \<open>The user has changed the column \<open>col\<close> of an item.\<close>

definition handleItemChanged :: "(string \<Rightarrow> string) \<Rightarrow> item \<Rightarrow> nat \<Rightarrow> tree \<Rightarrow> tree result" where
  "handleItemChanged to_seconds it col T =
     (if col < 2 then Inr T
      else rbind (itemToCSV to_seconds T it) (\<lambda>data.
        let T1 = tree_request (Add_record (cstr data)) T
        in Inr (if findColumnWithName T ''callsign'' = Some col then T1\<lparr>tw_askDXCC := True\<rparr> else T1)))"

text \<open>\<open>next_item\<close>: the item Qt makes current when the current one is taken out.\<close>

definition removeRecord :: "nat option \<Rightarrow> tree \<Rightarrow> tree result" where
  "removeRecord next_item T = rbind (current_item T) (\<lambda>it.
     let k = the (tw_current T)
     in Inr ((tree_request (Remove_record (cstr (item_text it 0 @ [LF]))) T)
       \<lparr>tw_items := take k (tw_items T) @ drop (Suc k) (tw_items T), tw_current := next_item\<rparr>))"

text \<open>First name and name of the row of an answer.\<close>

definition person_name :: "string list list \<Rightarrow> (string \<times> nat) list \<Rightarrow> string result" where
  "person_name tokens m =
     rbind (case map_of m ''fname'' of None \<Rightarrow> Inr [] | Some i \<Rightarrow> cell tokens 1 i) (\<lambda>first.
       case map_of m ''name'' of
         None \<Rightarrow> Inr first
       | Some i \<Rightarrow> rmap (\<lambda>n. (if first \<noteq> [] then first @ '' '' else first) @ n) (cell tokens 1 i))"

fun info_cells :: "string list list \<Rightarrow> (string \<times> nat) list \<Rightarrow> string list \<Rightarrow> (string \<times> string) list result" where
  "info_cells tokens m [] = Inr []"
| "info_cells tokens m (k # ks) =
     rbind (cell tokens 1 (fst (index_at k m))) (\<lambda>v. rmap (\<lambda>vs. (k, v) # vs) (info_cells tokens m ks))"

text \<open>
  \<open>yes\<close>: the user takes the data. The name is set with the signal of the table connected; \<open>emits\<close> says
  whether Qt reports it as a change.
\<close>

definition tree_callinfo_handler ::
  "(string \<Rightarrow> string) \<Rightarrow> bool \<Rightarrow> bool \<Rightarrow> string \<Rightarrow> int \<Rightarrow> tree \<Rightarrow> tree result" where
  "tree_callinfo_handler to_seconds yes emits data err T =
     (if err \<noteq> 0 then Inr T
      else let tokens = tokenize data; m = header_indexes 0 (hd tokens) []
        in if length (hd tokens) < 4 then Inr T
           else rbind (person_name tokens m) (\<lambda>name.
             rbind (info_cells tokens m [''qth'', ''continent'', ''latitude'', ''longitude'', ''cq'', ''itu'']) (\<lambda>vs.
               if \<not> yes then Inr T
               else rbind (current_item T) (\<lambda>it.
                 let it1 = fold (\<lambda>(k, v). set_text (findColumnWithName T k) v) vs it;
                     it2 = set_text (findColumnWithName T ''name'') name it1;
                     T1 = T\<lparr>tw_items := (tw_items T)[the (tw_current T) := it2]\<rparr>
                 in case findColumnWithName T ''name'' of
                   None \<Rightarrow> Inr T1
                 | Some c \<Rightarrow> if emits then handleItemChanged to_seconds it2 c T1 else Inr T1))))"

subsection \<open>The dialog\<close>

record dialog =
  nd_id :: string
  nd_call :: string
  nd_qth :: string
  nd_continent :: string
  nd_cq :: string
  nd_itu :: string
  nd_latitude :: string
  nd_longitude :: string
  nd_name :: string
  nd_frequency :: string
  nd_date :: string
  nd_time :: string
  nd_requests :: "ui_request list"

text \<open>\<open>today\<close> and \<open>now\<close>: the texts of the current date and time.\<close>

definition dialog_new :: "string \<Rightarrow> string \<Rightarrow> dialog" where
  "dialog_new today now = \<lparr>nd_id = ''-1'', nd_call = [], nd_qth = [], nd_continent = [], nd_cq = [], nd_itu = [],
     nd_latitude = [], nd_longitude = [], nd_name = [], nd_frequency = [], nd_date = today, nd_time = now,
     nd_requests = []\<rparr>"

definition dialog_request :: "ui_request \<Rightarrow> dialog \<Rightarrow> dialog" where
  "dialog_request q D = D\<lparr>nd_requests := nd_requests D @ [q]\<rparr>"

definition callLookUp :: "dialog \<Rightarrow> dialog" where
  "callLookUp D = dialog_request (Fetch_callinfo (nd_call D)) (dialog_request (Fetch_records (Some (nd_call D))) D)"

definition fetchFrequency :: "dialog \<Rightarrow> dialog" where
  "fetchFrequency D = dialog_request Fetch_frequency D"

definition getCSV :: "(string \<Rightarrow> string \<Rightarrow> string) \<Rightarrow> dialog \<Rightarrow> string" where
  "getCSV seconds D = ''id;callsign;qth;continent;cq;itu;latitude;longitude;name;freq;qsodate'' @ [LF]
     @ nd_id D @ '';'' @ nd_call D @ '';'' @ nd_qth D @ '';'' @ nd_continent D @ '';'' @ nd_cq D @ '';''
     @ nd_itu D @ '';'' @ nd_latitude D @ '';'' @ nd_longitude D @ '';'' @ nd_name D @ '';''
     @ nd_frequency D @ '';'' @ seconds (nd_date D) (nd_time D) @ [LF]"

text \<open>\<open>SET_TEXT\<close> and \<open>SET_EDITTEXT\<close>\<close>

definition set_field ::
  "string list list \<Rightarrow> (string \<times> nat) list \<Rightarrow> string \<Rightarrow> (string \<Rightarrow> dialog \<Rightarrow> dialog) \<Rightarrow> dialog \<Rightarrow> dialog result" where
  "set_field tokens m key f D = (case map_of m key of
     None \<Rightarrow> Inr D | Some i \<Rightarrow> rmap (\<lambda>v. f v D) (cell tokens 1 i))"

fun set_fields ::
  "string list list \<Rightarrow> (string \<times> nat) list \<Rightarrow> (string \<times> (string \<Rightarrow> dialog \<Rightarrow> dialog)) list \<Rightarrow> dialog \<Rightarrow> dialog result" where
  "set_fields tokens m [] D = Inr D"
| "set_fields tokens m ((key, f) # kfs) D = rbind (set_field tokens m key f D) (set_fields tokens m kfs)"

text \<open>The fields in the order of the code, the longitude twice as there.\<close>

definition dialog_fields :: "(string \<Rightarrow> string \<times> string) \<Rightarrow> (string \<times> (string \<Rightarrow> dialog \<Rightarrow> dialog)) list" where
  "dialog_fields from_seconds =
     [(''qsodate'', \<lambda>v D. D\<lparr>nd_date := fst (from_seconds v), nd_time := snd (from_seconds v)\<rparr>),
      (''qth'', \<lambda>v D. D\<lparr>nd_qth := v\<rparr>), (''continent'', \<lambda>v D. D\<lparr>nd_continent := v\<rparr>),
      (''cq'', \<lambda>v D. D\<lparr>nd_cq := v\<rparr>), (''itu'', \<lambda>v D. D\<lparr>nd_itu := v\<rparr>),
      (''latitude'', \<lambda>v D. D\<lparr>nd_latitude := v\<rparr>), (''longitude'', \<lambda>v D. D\<lparr>nd_longitude := v\<rparr>),
      (''longitude'', \<lambda>v D. D\<lparr>nd_longitude := v\<rparr>), (''freq'', \<lambda>v D. D\<lparr>nd_frequency := v\<rparr>)]"

definition setCSV :: "(string \<Rightarrow> string \<times> string) \<Rightarrow> string \<Rightarrow> dialog \<Rightarrow> dialog result" where
  "setCSV from_seconds data D =
     (if data = [] then Inr D
      else let tokens = tokenize (cstr data); m = header_indexes 0 (hd tokens) []
        in rbind (person_name tokens m) (\<lambda>name.
           rbind (set_field tokens m ''callsign''
             (\<lambda>v D. (dialog_request (Fetch_records (Some v)) D)\<lparr>nd_call := v\<rparr>) D) (\<lambda>D.
           rbind (set_field tokens m ''id'' (\<lambda>v D. D\<lparr>nd_id := v\<rparr>) (D\<lparr>nd_id := ''-1''\<rparr>)) (\<lambda>D.
             rmap (\<lambda>D. D\<lparr>nd_name := name\<rparr>) (set_fields tokens m (dialog_fields from_seconds) D)))))"

definition dialog_callinfo_handler ::
  "(string \<Rightarrow> string \<times> string) \<Rightarrow> string \<Rightarrow> int \<Rightarrow> dialog \<Rightarrow> dialog result" where
  "dialog_callinfo_handler from_seconds data err D =
     (if err \<noteq> 0 then Inr D else setCSV from_seconds (cstr data) D)"

definition dialog_hamlib_handler ::
  "(string \<Rightarrow> string \<times> string) \<Rightarrow> string \<Rightarrow> int \<Rightarrow> dialog \<Rightarrow> dialog result" where
  "dialog_hamlib_handler from_seconds data err D =
     (if err \<noteq> 0 then Inr D else setCSV from_seconds (''freq'' @ [LF] @ cstr data) D)"

text \<open>
  The slots of the table that open the dialog. \<open>exec\<close> is what happens while it is open: the dialog
  when the user accepts it, \<open>None\<close> when the user does not.
\<close>

definition accept_record ::
  "(string \<Rightarrow> string) \<Rightarrow> (string \<Rightarrow> string \<Rightarrow> string) \<Rightarrow> dialog option \<Rightarrow> tree \<Rightarrow> tree result" where
  "accept_record from_seconds seconds answer T = (case answer of
     None \<Rightarrow> Inr T
   | Some D \<Rightarrow> rmap (tree_request (Add_record (cstr (getCSV seconds D)))) (itemFromCSV from_seconds (getCSV seconds D) T))"

definition addRecord ::
  "(string \<Rightarrow> string) \<Rightarrow> (string \<Rightarrow> string \<Rightarrow> string) \<Rightarrow> (dialog \<Rightarrow> dialog option) \<Rightarrow> string \<Rightarrow> string \<Rightarrow> tree \<Rightarrow> tree result" where
  "addRecord from_seconds seconds exec today now T =
     accept_record from_seconds seconds (exec (fetchFrequency (dialog_new today now))) T"

definition addRecord_call ::
  "(string \<Rightarrow> string) \<Rightarrow> (string \<Rightarrow> string \<times> string) \<Rightarrow> (string \<Rightarrow> string \<Rightarrow> string) \<Rightarrow> (dialog \<Rightarrow> dialog option)
   \<Rightarrow> string \<Rightarrow> string \<Rightarrow> string \<Rightarrow> string \<Rightarrow> tree \<Rightarrow> tree result" where
  "addRecord_call from_seconds split_seconds seconds exec today now call freq T =
     rbind (setCSV split_seconds (if freq = [] then ''callsign'' @ [LF] @ call
         else ''callsign;freq'' @ [LF] @ call @ '';'' @ freq) (dialog_new today now))
       (\<lambda>D. accept_record from_seconds seconds (exec (callLookUp D)) T)"

definition handleItemDoubleClicked ::
  "(string \<Rightarrow> string) \<Rightarrow> (string \<Rightarrow> string) \<Rightarrow> (string \<Rightarrow> string \<times> string) \<Rightarrow> (string \<Rightarrow> string \<Rightarrow> string)
   \<Rightarrow> (dialog \<Rightarrow> dialog option) \<Rightarrow> string \<Rightarrow> string \<Rightarrow> item \<Rightarrow> tree \<Rightarrow> tree result" where
  "handleItemDoubleClicked to_seconds from_seconds split_seconds seconds exec today now it T =
     rbind (itemToCSV to_seconds T it) (\<lambda>data. rbind (setCSV split_seconds data (dialog_new today now)) (\<lambda>D.
       accept_record from_seconds seconds (exec D) T))"

subsection \<open>Tables without quotes\<close>

definition plain :: "string \<Rightarrow> bool" where
  "plain f \<longleftrightarrow> no_nul f \<and> list_all plain_char f"

lemma plain_simps [simp]:
  "plain []" "plain (c # f) \<longleftrightarrow> c \<noteq> NUL \<and> plain_char c \<and> plain f" "plain (f @ g) \<longleftrightarrow> plain f \<and> plain g"
  by (auto simp: plain_def)

abbreviation plain_line :: "string list \<Rightarrow> string" where
  "plain_line fs \<equiv> line_text (map (\<lambda>f. (f, False)) fs)"

abbreviation record_table :: "string list list \<Rightarrow> string" where
  "record_table rows \<equiv> csv_text (map (map (\<lambda>f. (f, False))) rows)"

lemma qt_plain: "plain f \<Longrightarrow> qt_loop False g row rows (f @ s) = qt_loop False (g @ f) row rows s"
  by (induction f arbitrary: g) (auto simp: plain_char_def)

lemma lb_plain: "plain f \<Longrightarrow> lb_loop False g row rows (f @ s) = lb_loop False (g @ f) row rows s"
  by (induction f arbitrary: g) (auto simp: plain_char_def)

lemma line_text_Cons: "fs \<noteq> [] \<Longrightarrow> line_text ((f, False) # map (\<lambda>f. (f, False)) fs) = f @ '';'' @ plain_line fs"
  by (cases fs) (simp_all add: field_text_def)

lemma qt_line:
  "fs \<noteq> [] \<Longrightarrow> list_all plain fs \<Longrightarrow>
   qt_loop False [] row rows (plain_line fs @ LF # s) = qt_loop False [] [] (rows @ [row @ fs]) s"
proof (induction fs arbitrary: row)
  case (Cons f fs)
  then show ?case
    by (cases "fs = []") (simp_all add: line_text_Cons field_text_def qt_plain [where g = "[]"])
qed simp

lemma lb_line:
  "fs \<noteq> [] \<Longrightarrow> list_all plain fs \<Longrightarrow>
   lb_loop False [] row rows (plain_line fs @ LF # s) = lb_loop False [] [] (rows @ [row @ fs]) s"
proof (induction fs arbitrary: row)
  case (Cons f fs)
  then show ?case
    by (cases "fs = []") (simp_all add: line_text_Cons field_text_def lb_plain [where g = "[]"])
qed simp

definition plain_rows :: "string list list \<Rightarrow> bool" where
  "plain_rows rows \<longleftrightarrow> list_all (\<lambda>r. r \<noteq> [] \<and> list_all plain r) rows"

lemma tables_parsed:
  assumes "plain_rows rows"
  shows "tokenize (record_table rows) = rows @ [[]]" and "logbook_parse (record_table rows) = rows @ [[]]"
proof -
  have "qt_loop False [] [] acc (record_table rows) = acc @ rows @ [[]]
      \<and> lb_loop False [] [] acc (record_table rows) = acc @ rows @ [[]]" for acc
    using assms by (induction rows arbitrary: acc) (auto simp: csv_text_def plain_rows_def qt_line lb_line)
  then show "tokenize (record_table rows) = rows @ [[]]" "logbook_parse (record_table rows) = rows @ [[]]"
    by (simp_all add: tokenize_def logbook_parse_def)
qed

lemma no_nul_plain_line: "list_all plain fs \<Longrightarrow> no_nul (plain_line fs)"
proof (induction fs)
  case (Cons f fs)
  then show ?case by (cases "fs = []") (auto simp: line_text_Cons field_text_def plain_def)
qed simp

lemma no_nul_record_table: "plain_rows rows \<Longrightarrow> no_nul (record_table rows)"
  by (induction rows) (auto simp: csv_text_def plain_rows_def no_nul_plain_line)

text \<open>The third parser and the second: only a field that nothing ends makes a difference.\<close>

lemma qt_lb_loop:
  "\<exists>f. qt_loop quotes field row rows s = (let t = lb_loop quotes field row rows s
     in if f = [] then t else butlast t @ [last t @ [f]])"
proof (induction quotes field row rows s rule: qt_loop.induct)
  case (1 quotes field row rows)
  show ?case by (rule exI [of _ field]) simp
next
  case (2 quotes field row rows c cs)
  show ?case
  proof (cases "c = NUL")
    case True
    then show ?thesis by (intro exI [of _ field]) simp
  next
    case False
    with 2 show ?thesis
      by (cases quotes; cases "c = DQUOTE"; cases "c = CHR '';''"; cases "c = LF \<or> c = CR";
          cases "cs = []"; cases "hd cs = DQUOTE") simp_all
  qed
qed

subsection \<open>What the server saves\<close>

lemma set_columns_get:
  "distinct header \<Longrightarrow> length header = length row \<Longrightarrow>
   smap_get (set_columns header row m) n = (case map_of (zip header row) n of None \<Rightarrow> smap_get m n | Some v \<Rightarrow> Some v)"
proof (induction header arbitrary: row m)
  case (Cons h header)
  obtain v vs where row: "row = v # vs" using Cons.prems(2) by (cases row) auto
  have "set_columns (h # header) row m = set_columns header vs (smap_set h v m)"
    by (simp add: set_columns_def row)
  then have "smap_get (set_columns (h # header) row m) n = (case map_of (zip header vs) n of
      None \<Rightarrow> smap_get (smap_set h v m) n | Some w \<Rightarrow> Some w)"
    using Cons by (simp add: row)
  note IH = this [unfolded sm.get_put]
  have none: "map_of (zip header vs) h = None"
    using Cons.prems by (auto simp: map_of_eq_None_iff row dest: set_zip_leftD)
  show ?case
  proof (cases "n = h")
    case True
    with IH [unfolded True none] show ?thesis by (simp add: row)
  next
    case False
    then show ?thesis unfolding IH by (cases "map_of (zip header vs) n") (simp_all add: row)
  qed
qed (simp add: set_columns_def)

text \<open>A table of one record, with its id first, sent to \<open>/logbook/add\<close>.\<close>

definition saves :: "session \<Rightarrow> string list \<Rightarrow> string list \<Rightarrow> query list \<Rightarrow> bool" where
  "saves s header row qs \<longleftrightarrow> (if hd row = ''-1''
     then \<exists>q. qs = [Q_insert q] \<and> (\<forall>n. smap_get (ins_row q) n
         = (if n = ''user_id'' then Some (user_text s) else if n = ''id'' then None else map_of (zip header row) n))
     else \<exists>q. qs = [Q_update q] \<and> (\<forall>n. smap_get (ins_row q) n
         = (if n = ''id'' \<or> n = ''user_id'' then None else map_of (zip header row) n))
       \<and> smap_get (ins_where q) ''id'' = Some (hd row) \<and> smap_get (ins_where q) ''user_id'' = Some (user_text s))"

lemma add_row_saves:
  assumes "distinct header" and "hd header = ''id''" and "header \<noteq> []" and "length header = length row"
    and "lb_record L = []"
  shows "\<exists>qs. st_log (snd (snd (snd (add_row engine prefix last_id s header row reply L S)))) = st_log S @ qs
    \<and> saves s header row qs"
proof -
  let ?m = "set_columns header row []"
  have get: "smap_get ?m n = map_of (zip header row) n" for n
    using set_columns_get [OF assms(1,4), of "[]" n] by (simp split: option.splits)
  have id: "map_of (zip header row) ''id'' = Some (hd row)"
    using assms(2-4) by (cases header; cases row) auto
  have at: "smap_at ''id'' ?m = (hd row, ?m)" by (simp add: smap_at_def get id)
  have row: "row \<noteq> []" using assms(3,4) by auto
  show ?thesis
  proof (cases "hd row = ''-1''")
    case True
    let ?q = "insert_what (smap_set ''user_id'' (user_text s) (smap_erase ''id'' ?m)) (lb_addLog L)"
    have "st_log (snd (snd (snd (add_row engine prefix last_id s header row reply L S))))
        = st_log (snd (db_insert engine prefix ?q S))"
      using row assms(4,5) True at by (simp add: add_row_def Let_def split: prod.split)
    moreover have "saves s header row [Q_insert ?q]"
      using True by (simp add: saves_def insert_what_def sm.get_put sm.get_del get)
    ultimately show ?thesis by (auto simp: db_logs)
  next
    case False
    let ?w = "insert_where ''id'' (hd row) (insert_where ''user_id'' (user_text s) (lb_addLog L))"
    let ?q = "insert_what (smap_erase ''id'' (smap_erase ''user_id'' ?m)) ?w"
    have "st_log (snd (snd (snd (add_row engine prefix last_id s header row reply L S))))
        = st_log (snd (db_update engine prefix ?q S))"
      using row assms(4,5) False at by (simp add: add_row_def Let_def split: prod.split)
    moreover have "saves s header row [Q_update ?q]"
      using False by (simp add: saves_def insert_what_def insert_where_def sm.get_put sm.get_del get)
    ultimately show ?thesis by (auto simp: db_logs)
  qed
qed

lemma logbook_add_saves:
  assumes "distinct header" and "hd header = ''id''" and "plain_rows [header, row]" and "length header = length row"
    and "s_uri req = ''/logbook/add''" and "s_content req = record_table [header, row]"
  shows "\<exists>qs. st_log (snd (snd (snd (logbook_handle engine prefix last_id s req reply L S)))) = st_log S @ qs
    \<and> saves s header row qs"
proof -
  let ?L = "L\<lparr>lb_record := []\<rparr>"
  have parsed: "logbook_parse (s_content req) = [header, row, []]" using tables_parsed(2) [OF assms(3)] assms(6) by simp
  have "st_log (snd (snd (snd (logbook_handle engine prefix last_id s req reply L S))))
      = st_log (snd (snd (snd (add_row engine prefix last_id s header row reply ?L S))))"
    using assms(5) parsed
    by (auto simp: logbook_handle_def addLog_def add_row_def [of _ _ _ _ _ "[]"] split: prod.split)
  then show ?thesis
    using add_row_saves [OF assms(1,2) _ assms(4), of ?L engine prefix last_id s reply S] assms(3)
    by (auto simp: plain_rows_def)
qed

subsection \<open>Texts of the interface are tables\<close>

lemma joined: "hs \<noteq> [] \<Longrightarrow> butlast (concat (map (\<lambda>h. h @ '';'') hs)) = plain_line hs"
proof (induction hs)
  case (Cons h hs)
  then show ?case by (cases "hs = []") (auto simp: line_text_Cons field_text_def butlast_append)
qed simp

text \<open>The texts of an item, its id as -1 when it has none and its date in seconds.\<close>

definition item_row :: "(string \<Rightarrow> string) \<Rightarrow> tree \<Rightarrow> item \<Rightarrow> string list" where
  "item_row to_seconds T it = (map (item_text it) [0..<length (tw_header T)])
     [0 := (if item_text it 0 = [] then ''-1'' else item_text it 0), 2 := to_seconds (item_text it 2)]"

lemma item_row_columns: "item_row to_seconds T it = map (column_csv to_seconds it) [0..<length (tw_header T)]"
proof (rule nth_equalityI)
  fix i
  assume "i < length (item_row to_seconds T it)"
  then show "item_row to_seconds T it ! i = map (column_csv to_seconds it) [0..<length (tw_header T)] ! i"
    by (cases "i = 0"; cases "i = 2") (simp_all add: item_row_def column_csv_def numeral_2_eq_2)
qed (simp add: item_row_def)

lemma itemToCSV_table:
  assumes "tw_header T \<noteq> []"
  shows "itemToCSV to_seconds T it = Inr (record_table [tw_header T, item_row to_seconds T it])"
proof -
  have "item_row to_seconds T it \<noteq> []" using assms by (simp add: item_row_def)
  moreover from this have "concat (map (\<lambda>h. h @ '';'') (item_row to_seconds T it)) \<noteq> []"
    by (cases "item_row to_seconds T it") auto
  moreover have "map (\<lambda>i. column_csv to_seconds it i @ '';'') [0..<length (tw_header T)]
      = map (\<lambda>h. h @ '';'') (item_row to_seconds T it)"
    by (simp add: item_row_columns)
  ultimately show ?thesis
    using assms by (simp add: itemToCSV_def csv_text_def butlast_append joined)
qed

lemma item_row_hd:
  "tw_header T \<noteq> [] \<Longrightarrow> hd (item_row to_seconds T it) = (if item_text it 0 = [] then ''-1'' else item_text it 0)"
  by (simp add: item_row_columns upt_conv_Cons column_csv_def)

lemma edited_item_is_asked:
  assumes "2 \<le> col" and "plain_rows [tw_header T, item_row to_seconds T it]"
  shows "\<exists>T1. handleItemChanged to_seconds it col T = Inr T1
    \<and> tw_requests T1 = tw_requests T @ [Add_record (record_table [tw_header T, item_row to_seconds T it])]"
proof -
  have ne: "tw_header T \<noteq> []" using assms(2) by (simp add: plain_rows_def)
  then show ?thesis
    using assms(1) itemToCSV_table [OF ne] no_nul_record_table [OF assms(2)]
    by (simp add: handleItemChanged_def tree_request_def Let_def)
qed

definition dialog_header :: "string list" where
  "dialog_header = [''id'', ''callsign'', ''qth'', ''continent'', ''cq'', ''itu'', ''latitude'', ''longitude'', ''name'',
     ''freq'', ''qsodate'']"

definition dialog_row :: "(string \<Rightarrow> string \<Rightarrow> string) \<Rightarrow> dialog \<Rightarrow> string list" where
  "dialog_row seconds D = [nd_id D, nd_call D, nd_qth D, nd_continent D, nd_cq D, nd_itu D, nd_latitude D,
     nd_longitude D, nd_name D, nd_frequency D, seconds (nd_date D) (nd_time D)]"

lemma getCSV_table: "getCSV seconds D = record_table [dialog_header, dialog_row seconds D]"
  by (simp add: getCSV_def dialog_header_def dialog_row_def csv_text_def field_text_def)

lemma dialog_header_props:
  "distinct dialog_header" "hd dialog_header = ''id''" "list_all plain dialog_header"
  "length dialog_header = length (dialog_row seconds D)"
  by (simp_all add: dialog_header_def dialog_row_def plain_char_def)

definition dialog_plain :: "dialog \<Rightarrow> bool" where
  "dialog_plain D \<longleftrightarrow> plain (nd_id D) \<and> plain (nd_call D) \<and> plain (nd_qth D) \<and> plain (nd_continent D) \<and> plain (nd_cq D)
     \<and> plain (nd_itu D) \<and> plain (nd_latitude D) \<and> plain (nd_longitude D) \<and> plain (nd_name D) \<and> plain (nd_frequency D)"

subsection \<open>What an answer does to the dialog\<close>

lemma header_indexes_get:
  "map_of (header_indexes i hs m) k = Some j \<Longrightarrow> (i \<le> j \<and> j < i + length hs \<and> hs ! (j - i) = k)
     \<or> (k \<notin> set hs \<and> map_of m k = Some j)"
proof (induction hs arbitrary: i m)
  case (Cons h hs)
  have filtered: "map_of (filter (\<lambda>(a, _). a \<noteq> h) m) k = (if k = h then None else map_of m k)"
    by (induction m) auto
  from Cons.IH [of "Suc i" "(h, i) # filter (\<lambda>(a, _). a \<noteq> h) m"] Cons.prems
  show ?case
    by (auto simp: filtered nth_Cons' split: if_splits)
qed simp

lemma header_indexes_bound: "map_of (header_indexes 0 hs []) k = Some j \<Longrightarrow> j < length hs \<and> hs ! j = k"
  using header_indexes_get [of 0 hs "[]" k j] by simp

text \<open>A field is set to a cell of the row, or stays.\<close>

lemma set_field_ok:
  assumes "length row = length header"
  shows "\<exists>D1. set_field [header, row, []] (header_indexes 0 header []) key f D = Inr D1
    \<and> (D1 = D \<or> (\<exists>v \<in> set row. D1 = f v D))"
proof (cases "map_of (header_indexes 0 header []) key")
  case (Some j)
  with header_indexes_bound [OF Some] assms show ?thesis by (auto simp: set_field_def cell_def)
qed (simp add: set_field_def)

lemma person_name_ok:
  assumes "length row = length header" and "list_all plain row"
  shows "\<exists>n. person_name [header, row, []] (header_indexes 0 header []) = Inr n \<and> plain n"
proof -
  have c: "\<exists>v. cell [header, row, []] 1 j = Inr v \<and> plain v"
    if "map_of (header_indexes 0 header []) k = Some j" for k j
    using header_indexes_bound [OF that] assms by (auto simp: cell_def list_all_iff)
  show ?thesis
    using c [of "''fname''"] c [of "''name''"]
    by (auto simp: person_name_def plain_char_def split: option.split)
qed

lemma set_fields_ok:
  assumes "length row = length header" and "list_all plain row"
    and "\<And>k f v E. (k, f) \<in> set kfs \<Longrightarrow> plain v \<Longrightarrow> P E \<Longrightarrow> P (f v E)" and "P D"
  shows "\<exists>D1. set_fields [header, row, []] (header_indexes 0 header []) kfs D = Inr D1 \<and> P D1"
  using assms(3,4)
proof (induction kfs arbitrary: D)
  case (Cons x kfs)
  obtain k f where x: "x = (k, f)" by (cases x)
  obtain D1 where D1: "set_field [header, row, []] (header_indexes 0 header []) k f D = Inr D1"
    "D1 = D \<or> (\<exists>v \<in> set row. D1 = f v D)"
    using set_field_ok [OF assms(1)] by blast
  moreover have "P (f v D)" if "v \<in> set row" for v
    using Cons.prems(1) [of k f v D] Cons.prems(2) x that assms(2) by (simp add: list_all_iff)
  ultimately have "P D1" using Cons.prems(2) by auto
  moreover have "\<And>k f v E. (k, f) \<in> set kfs \<Longrightarrow> plain v \<Longrightarrow> P E \<Longrightarrow> P (f v E)"
    using Cons.prems(1) by (metis list.set_intros(2))
  ultimately show ?case using Cons.IH D1(1) x by simp
qed simp

lemma dialog_fields_keep:
  "(k, f) \<in> set (dialog_fields from_seconds) \<Longrightarrow> plain v \<Longrightarrow> nd_id E = i \<and> dialog_plain E
   \<Longrightarrow> nd_id (f v E) = i \<and> dialog_plain (f v E)"
  by (auto simp: dialog_fields_def dialog_plain_def)

text \<open>An answer about a call keeps the texts plain and says nothing of the record's id.\<close>

lemma answered_dialog:
  assumes "plain_rows [header, row]" and "length row = length header" and "''id'' \<notin> set header"
    and "dialog_plain D"
  shows "\<exists>D1. dialog_callinfo_handler from_seconds (record_table [header, row]) 0 D = Inr D1
    \<and> nd_id D1 = ''-1'' \<and> dialog_plain D1"
proof -
  let ?t = "[header, row, []]" and ?m = "header_indexes 0 header []"
  have row: "list_all plain row" "\<And>v. v \<in> set row \<Longrightarrow> plain v"
    using assms(1) by (auto simp: plain_rows_def list_all_iff)
  define data where "data = record_table [header, row]"
  have ne: "data \<noteq> []" by (simp add: data_def csv_text_def)
  have no_nul: "cstr data = data" unfolding data_def using no_nul_record_table [OF assms(1)] by (rule cstr_id)
  have tokens: "tokenize data = ?t" unfolding data_def using tables_parsed(1) [OF assms(1)] by simp
  have no_id: "map_of ?m ''id'' = None"
  proof (cases "map_of ?m ''id''")
    case (Some j)
    with header_indexes_bound [OF Some] assms(3) show ?thesis by (auto simp: in_set_conv_nth)
  qed
  obtain name where name: "person_name ?t ?m = Inr name" "plain name"
    using person_name_ok [OF assms(2) row(1)] by blast
  obtain E0 where E0: "set_field ?t ?m ''callsign''
      (\<lambda>v D. (dialog_request (Fetch_records (Some v)) D)\<lparr>nd_call := v\<rparr>) D = Inr E0" "dialog_plain E0"
    using set_field_ok [OF assms(2), of "''callsign''"
        "\<lambda>v D. (dialog_request (Fetch_records (Some v)) D)\<lparr>nd_call := v\<rparr>" D] assms(4) row(2)
    by (auto simp: dialog_plain_def dialog_request_def)
  have id: "set_field ?t ?m ''id'' (\<lambda>v D. D\<lparr>nd_id := v\<rparr>) (E0\<lparr>nd_id := ''-1''\<rparr>) = Inr (E0\<lparr>nd_id := ''-1''\<rparr>)"
    by (simp add: set_field_def no_id)
  have "nd_id (E0\<lparr>nd_id := ''-1''\<rparr>) = ''-1'' \<and> dialog_plain (E0\<lparr>nd_id := ''-1''\<rparr>)"
    using E0(2) by (simp add: dialog_plain_def plain_char_def)
  from set_fields_ok [where P = "\<lambda>E. nd_id E = ''-1'' \<and> dialog_plain E" and kfs = "dialog_fields from_seconds",
      OF assms(2) row(1) _ this] dialog_fields_keep
  obtain E1 where "set_fields ?t ?m (dialog_fields from_seconds) (E0\<lparr>nd_id := ''-1''\<rparr>) = Inr E1"
    "nd_id E1 = ''-1''" "dialog_plain E1"
    by blast
  then show ?thesis
    unfolding data_def [symmetric]
    using name E0 id
    by (simp add: dialog_callinfo_handler_def setCSV_def ne no_nul tokens Let_def dialog_plain_def)
qed

subsection \<open>The properties\<close>

text \<open>
  The parser of the interface and that of the server agree on every text but for the last field:
  the interface keeps what follows the last separator, the server drops it.
\<close>

theorem tokenize_agrees:
  "tokenize s = logbook_parse s
   \<or> (\<exists>f. f \<noteq> [] \<and> tokenize s = butlast (logbook_parse s) @ [last (logbook_parse s) @ [f]])"
proof -
  obtain f where "tokenize s = (let t = logbook_parse s in if f = [] then t else butlast t @ [last t @ [f]])"
    using qt_lb_loop [of False "[]" "[]" "[]" s] by (auto simp: tokenize_def logbook_parse_def)
  then show ?thesis by (cases "f = []") (auto simp: Let_def)
qed

definition shown_tree :: tree where
  "shown_tree = \<lparr>tw_header = [''id'', ''user_id'', ''qsodate'', ''callsign''],
     tw_items = [[''3'', ''7'', ''2011-10-01 10:00'', ''OK1'']], tw_current = Some 0, tw_askDXCC = False, tw_requests = []\<rparr>"

text \<open>
  Looking up the call of a record makes a second record of it: the answer of a lookup has no
  column for the id, the dialog takes this for a new record, and accepting it makes the server insert
  a row instead of changing the one that was opened.
\<close>

theorem lookup_makes_a_new_record:
  assumes "plain_rows [header, row]" and "length row = length header" and "''id'' \<notin> set header"
    and "dialog_plain D" and "\<And>d t. plain (seconds d t)"
  shows "\<exists>D1. dialog_callinfo_handler from_seconds (record_table [header, row]) 0 D = Inr D1
    \<and> (s_uri req = ''/logbook/add'' \<and> s_content req = getCSV seconds D1 \<longrightarrow>
        (\<exists>q. st_log (snd (snd (snd (logbook_handle engine prefix last_id s req reply L S)))) = st_log S @ [Q_insert q]))"
proof -
  obtain D1 where D1: "dialog_callinfo_handler from_seconds (record_table [header, row]) 0 D = Inr D1"
    "nd_id D1 = ''-1''" "dialog_plain D1"
    using answered_dialog [OF assms(1-4)] by blast
  have "plain_rows [dialog_header, dialog_row seconds D1]"
    using D1(3) assms(5) dialog_header_props(3)
    by (simp add: plain_rows_def dialog_row_def dialog_plain_def) (simp add: dialog_header_def)
  from logbook_add_saves [OF dialog_header_props(1,2) this dialog_header_props(4), of req engine prefix last_id s reply L S]
  have "\<exists>q. st_log (snd (snd (snd (logbook_handle engine prefix last_id s req reply L S)))) = st_log S @ [Q_insert q]"
    if "s_uri req = ''/logbook/add''" "s_content req = getCSV seconds D1"
    using that D1(2) by (auto simp: getCSV_table saves_def dialog_row_def)
  with D1(1) show ?thesis by blast
qed

theorem lookup_makes_a_new_record_witness:
  "\<exists>D1 q. dialog_callinfo_handler (\<lambda>v. (v, v)) (''fname;name'' @ [LF] @ ''Jan;K'' @ [LF]) 0
      ((dialog_new [] [])\<lparr>nd_id := ''3''\<rparr>) = Inr D1
    \<and> st_log (snd (snd (snd (logbook_handle (\<lambda>_ _ db. (Rows [] True, db)) [] (\<lambda>_. 1) guest
        (new_request\<lparr>s_uri := ''/logbook/add'', s_content := getCSV (\<lambda>_ _. ''0'') D1\<rparr>)
        (server_reply_new 200 ''text/hamlog'') logbook0 \<lparr>st_db = (), st_log = []\<rparr>)))) = [Q_insert q]"
proof -
  let ?D = "(dialog_new [] [])\<lparr>nd_id := ''3''\<rparr>"
  have rows: "plain_rows [[''fname'', ''name''], [''Jan'', ''K'']]"
    and len: "length [''Jan'', ''K''] = length [''fname'', ''name'']"
    and id: "''id'' \<notin> set [''fname'', ''name'']" and D: "dialog_plain ?D"
    and secs: "\<And>d t. plain ((\<lambda>_ _. ''0'') d t)"
    by (simp_all add: plain_rows_def plain_char_def dialog_plain_def dialog_new_def)
  note all = lookup_makes_a_new_record [OF rows len id D secs, of "\<lambda>v. (v, v)"]
  have data: "record_table [[''fname'', ''name''], [''Jan'', ''K'']] = ''fname;name'' @ [LF] @ ''Jan;K'' @ [LF]"
    by (simp add: csv_text_def field_text_def)
  obtain D1 where D1: "dialog_callinfo_handler (\<lambda>v. (v, v)) (''fname;name'' @ [LF] @ ''Jan;K'' @ [LF]) 0 ?D = Inr D1"
    using all unfolding data by blast
  with all [of "new_request\<lparr>s_uri := ''/logbook/add'', s_content := getCSV (\<lambda>_ _. ''0'') D1\<rparr>"
      "\<lambda>_ _ db. (Rows [] True, db)" "[]" "\<lambda>_. 1" guest "server_reply_new 200 ''text/hamlog''" logbook0
      "\<lparr>st_db = (), st_log = []\<rparr>", unfolded data]
  show ?thesis by auto
qed

end
