(* ===== verification/QtFetch.thy ===== *)
theory QtFetch
  imports QtRecords
begin

text \<open>
  The records of the server in the table of the interface: what \<open>LogBook::sendLogs\<close> prints is parsed by
  \<open>QtLogBook::tokenize\<close> and becomes the items that \<open>fetch_handler\<close> makes.
\<close>

subsection \<open>The text of the server\<close>

definition record_header :: "string list" where
  "record_header = [''id'', ''user_id'', ''qsodate'', ''time_on'', ''callsign'', ''freq'', ''mode'', ''qth'', ''name'',
     ''loc'', ''latitude'', ''longitude'', ''county'', ''continent'', ''itu'', ''cq'', ''rst_rx'', ''rst_tx'', ''qsl'',
     ''qsl_sent'', ''qsl_received'', ''qsl_via'']"

lemma record_header_props:
  "distinct record_header" "list_all plain record_header" "record_header \<noteq> []" "length record_header = 22"
  "record_header ! 0 = ''id''" "record_header ! 2 = ''qsodate''"
  by (simp_all add: record_header_def plain_char_def)

lemma header_line: "logbook_header = plain_line record_header @ [LF]"
  by (simp add: logbook_header_def record_header_def field_text_def)

lemma add_row_line: "row \<noteq> [] \<Longrightarrow> add_row_text data row = data @ plain_line row @ [LF]"
  using joined [of row] by (cases row) (auto simp: add_row_text_def butlast_append simp del: line_text.simps)

lemma rows_text:
  "list_all (\<lambda>r. r \<noteq> []) rows \<Longrightarrow> foldl add_row_text data rows = data @ record_table rows"
  by (induction rows arbitrary: data) (simp_all add: csv_text_def add_row_line)

lemma sendLogs_table:
  "list_all (\<lambda>r. r \<noteq> []) rows \<Longrightarrow> foldl add_row_text logbook_header rows = record_table (record_header # rows)"
  by (simp add: rows_text header_line csv_text_def)

subsection \<open>One row\<close>

text \<open>The map of a header without repetitions, from its last name to its first.\<close>

lemma header_indexes_distinct:
  "distinct (hs @ map fst m) \<Longrightarrow> header_indexes i hs m = rev (zip hs [i..<i + length hs]) @ m"
proof (induction hs arbitrary: i m)
  case (Cons h hs)
  have "filter (\<lambda>(k, _). k \<noteq> h) m = m" using Cons.prems by (force intro!: filter_True simp: image_iff)
  moreover have "distinct (hs @ map fst ((h, i) # m))" using Cons.prems by auto
  moreover have "[i..<i + length (h # hs)] = i # [Suc i..<Suc i + length hs]" by (subst upt_conv_Cons) simp_all
  ultimately show ?case using Cons.IH [of "(h, i) # m" "Suc i"] by simp
qed simp

lemma find_column_nth:
  assumes "distinct hs" and "j < length hs"
  shows "find_column (hs @ xs) (hs ! j) = Some j"
  using assms
proof (induction hs arbitrary: j)
  case (Cons h hs)
  then show ?case by (cases j) auto
qed simp

text \<open>The text shown in a column.\<close>

definition shown :: "(string \<Rightarrow> string) \<Rightarrow> string list \<Rightarrow> string list \<Rightarrow> nat \<Rightarrow> string" where
  "shown from_seconds hs row j = (if hs ! j = ''qsodate'' then from_seconds (row ! j) else row ! j)"

lemma columns_set:
  assumes "distinct hs" and "r < length tokens" and "length hs \<le> length (tokens ! r)" and "k \<le> length hs"
    and "length it = length hs"
  shows "set_item_columns from_seconds (hs @ xs) tokens r (rev (zip (take k hs) [0..<k])) it =
    Inr (map (shown from_seconds hs (tokens ! r)) [0..<k] @ drop k it)"
  using assms(4,5)
proof (induction k arbitrary: it)
  case (Suc k)
  let ?v = "shown from_seconds hs (tokens ! r) k"
  have "take (Suc k) hs = take k hs @ [hs ! k]" using Suc.prems(1) by (simp add: take_Suc_conv_app_nth)
  then have zip: "rev (zip (take (Suc k) hs) [0..<Suc k]) = (hs ! k, k) # rev (zip (take k hs) [0..<k])"
    using Suc.prems(1) by simp
  have "set_item_columns from_seconds (hs @ xs) tokens r (rev (zip (take (Suc k) hs) [0..<Suc k])) it =
      set_item_columns from_seconds (hs @ xs) tokens r (rev (zip (take k hs) [0..<k])) (it[k := ?v])"
    using Suc.prems assms(1-3) unfolding zip by (simp add: cell_def find_column_nth set_text_def shown_def)
  also have "\<dots> = Inr (map (shown from_seconds hs (tokens ! r)) [0..<k] @ drop k (it[k := ?v]))"
    using Suc.IH Suc.prems by simp
  also have "drop k (it[k := ?v]) = ?v # drop (Suc k) it"
    using Suc.prems by (simp add: Cons_nth_drop_Suc [symmetric])
  finally show ?case by simp
qed simp

lemma new_item_columns:
  assumes "distinct hs" and "hs \<noteq> []" and "r < length tokens" and "length hs \<le> length (tokens ! r)"
  shows "set_item_columns from_seconds (hs @ xs) tokens r (header_indexes 0 hs []) [] =
    Inr (map (shown from_seconds hs (tokens ! r)) [0..<length hs])"
proof -
  obtain n where n: "length hs = Suc n" using assms(2) by (cases hs) auto
  let ?v = "shown from_seconds hs (tokens ! r) n"
  have hs: "hs = take n hs @ [hs ! n]" using n by (metis lessI take_Suc_conv_app_nth take_all_iff order_refl)
  have "header_indexes 0 hs [] = rev (zip (take n hs @ [hs ! n]) ([0..<n] @ [n]))"
    using header_indexes_distinct [of hs "[]" 0] assms(1) n hs by simp
  then have indexes: "header_indexes 0 hs [] = (hs ! n, n) # rev (zip (take n hs) [0..<n])"
    using n by (simp add: zip_append)
  have "set_item_columns from_seconds (hs @ xs) tokens r (header_indexes 0 hs []) [] =
      set_item_columns from_seconds (hs @ xs) tokens r (rev (zip (take n hs) [0..<n])) (replicate n [] @ [?v])"
    using assms n by (simp add: indexes cell_def find_column_nth set_text_def shown_def)
  also have "\<dots> = Inr (map (shown from_seconds hs (tokens ! r)) [0..<n] @ drop n (replicate n [] @ [?v]))"
    by (rule columns_set) (use assms n in simp_all)
  finally show ?thesis by (simp add: n)
qed

lemma find_item_None: "find_item t its = None \<longleftrightarrow> t \<notin> (\<lambda>it. item_text it 0) ` set its"
  by (induction its) auto

lemma id_first:
  assumes "distinct hs" and "hs \<noteq> []" and "hs ! 0 = ''id''"
  shows "index_at ''id'' (header_indexes 0 hs []) = (0, header_indexes 0 hs [])"
proof -
  obtain hs1 where hs: "hs = ''id'' # hs1" using assms(2,3) by (cases hs) auto
  then have "''id'' \<notin> set hs1" "distinct (hs1 @ map fst [(''id'', 0::nat)])" using assms(1) by auto
  from header_indexes_distinct [OF this(2), of 1]
  have "header_indexes 0 hs [] = rev (zip hs1 [1..<1 + length hs1]) @ [(''id'', 0)]" by (simp only: hs) simp
  moreover have "map_of (rev (zip hs1 [1..<1 + length hs1])) ''id'' = None"
    using \<open>''id'' \<notin> set hs1\<close> by (auto simp: map_of_eq_None_iff dest: set_zip_leftD)
  ultimately obtain m where "header_indexes 0 hs [] = m @ [(''id'', 0)]" "map_of m ''id'' = None" by blast
  then show ?thesis by (simp add: index_at_def map_add_def)
qed

lemma new_item:
  assumes "distinct hs" and "hs \<noteq> []" and "hs ! 0 = ''id''" and "r < length tokens" and "length hs \<le> length (tokens ! r)"
    and "tw_header T = hs @ xs" and "tokens ! r ! 0 \<notin> (\<lambda>it. item_text it 0) ` set (tw_items T)"
  shows "itemFromRow from_seconds tokens r (header_indexes 0 hs []) T =
    Inr (T\<lparr>tw_items := tw_items T @ [map (shown from_seconds hs (tokens ! r)) [0..<length hs]],
      tw_current := Some (length (tw_items T))\<rparr>)"
proof -
  have "cell tokens r 0 = Inr (tokens ! r ! 0)" using assms(2,4,5) by (auto simp: cell_def)
  moreover have "find_item (tokens ! r ! 0) (tw_items T) = None" using assms(7) by (simp add: find_item_None)
  ultimately show ?thesis
    using new_item_columns [OF assms(1,2,4,5)]
    by (simp add: itemFromRow_def id_first [OF assms(1-3)] Let_def assms(6) rmap_def)
qed

subsection \<open>All rows\<close>

definition shown_item :: "(string \<Rightarrow> string) \<Rightarrow> string list \<Rightarrow> string list \<Rightarrow> item" where
  "shown_item from_seconds hs row = map (shown from_seconds hs row) [0..<length hs]"

lemma shown_item_id: "hs \<noteq> [] \<Longrightarrow> hs ! 0 = ''id'' \<Longrightarrow> item_text (shown_item from_seconds hs row) 0 = row ! 0"
  by (simp add: item_text_def shown_item_def shown_def)

lemma new_items:
  assumes hs: "distinct hs" "hs \<noteq> []" "hs ! 0 = ''id''"
  shows "\<forall>r \<in> set rs. r < length tokens \<and> (1 < length (tokens ! r) \<longrightarrow> length hs \<le> length (tokens ! r)) \<Longrightarrow>
    tw_header T = hs @ xs \<Longrightarrow>
    distinct (map (\<lambda>it. item_text it 0) (tw_items T)
      @ map (\<lambda>row. row ! 0) (filter (\<lambda>row. 1 < length row) (map ((!) tokens) rs))) \<Longrightarrow>
    \<exists>T1. items_from_rows from_seconds tokens (header_indexes 0 hs []) rs T = Inr T1
      \<and> tw_items T1 = tw_items T
          @ map (shown_item from_seconds hs) (filter (\<lambda>row. 1 < length row) (map ((!) tokens) rs))
      \<and> tw_header T1 = tw_header T"
proof (induction rs arbitrary: T)
  case (Cons r rs)
  show ?case
  proof (cases "1 < length (tokens ! r)")
    case True
    let ?T = "T\<lparr>tw_items := tw_items T @ [shown_item from_seconds hs (tokens ! r)],
      tw_current := Some (length (tw_items T))\<rparr>"
    have "itemFromRow from_seconds tokens r (header_indexes 0 hs []) T = Inr ?T"
      unfolding shown_item_def using Cons.prems True by (intro new_item [OF hs]) auto
    moreover have "\<exists>T1. items_from_rows from_seconds tokens (header_indexes 0 hs []) rs ?T = Inr T1
      \<and> tw_items T1 = tw_items ?T
          @ map (shown_item from_seconds hs) (filter (\<lambda>row. 1 < length row) (map ((!) tokens) rs))
      \<and> tw_header T1 = tw_header ?T"
      using Cons.prems True by (intro Cons.IH) (auto simp: shown_item_id hs(2,3))
    ultimately show ?thesis using True by (auto simp: id_first [OF hs])
  next
    case False
    then show ?thesis using Cons by simp
  qed
qed simp

lemma nth_after_first: "map ((!) (x # xs)) [1..<length (x # xs)] = xs"
proof -
  have "[1..<length (x # xs)] = map Suc [0..<length xs]" by (simp add: map_Suc_upt)
  then show ?thesis by (simp add: comp_def map_nth)
qed

text \<open>What the server answers, and what the table makes of it.\<close>

lemma logbook_answer:
  assumes "s_uri req = ''/logbook''"
    and "fst (db_select engine prefix (select_where ''user_id'' (user_text s) (lb_getLogs L)) S) = (ok, rows)"
    and "plain_rows rows"
  shows "\<exists>L1 S1. logbook_handle engine prefix last_id s req reply L S =
    (True, setContent (record_table (record_header # rows)) reply, L1, S1)"
proof -
  have "list_all (\<lambda>r. r \<noteq> []) rows" using assms(3) by (simp add: plain_rows_def list_all_iff)
  then show ?thesis
    using assms(1,2) sendLogs_table [of rows]
    by (auto simp: logbook_handle_def sendLogs_def Let_def split: prod.splits)
qed

lemma record_table_plain: "plain_rows rows \<Longrightarrow> plain_rows (record_header # rows)"
  using record_header_props(2,3) by (simp add: plain_rows_def)

lemma table_shown:
  assumes "plain_rows rows" and "list_all (\<lambda>row. 22 \<le> length row) rows" and "distinct (map hd rows)"
  shows "\<exists>T1. tree_fetch_handler from_seconds (record_table (record_header # rows)) 0 T = Inr T1
    \<and> tw_items T1 = map (shown_item from_seconds record_header) rows
    \<and> take 22 (tw_header T1) = record_header"
proof -
  define data where "data = record_table (record_header # rows)"
  define tokens where "tokens = record_header # rows @ [[]]"
  from tables_parsed(1) [OF record_table_plain [OF assms(1)]]
  have parsed: "tokenize data = tokens" by (simp add: data_def tokens_def)
  have hd: "hd tokens = record_header" by (simp add: tokens_def)
  have rows: "filter (\<lambda>row. 1 < length row) (map ((!) tokens) [1..<length tokens]) = rows"
    using assms(2) by (simp only: tokens_def nth_after_first) (auto simp: list_all_iff intro!: filter_True)
  let ?T = "set_header_labels record_header (T\<lparr>tw_items := [], tw_current := None\<rparr>)"
  have first: "map (\<lambda>row. row ! 0) rows = map hd rows"
    using assms(2) by (auto simp: list_all_iff intro!: hd_conv_nth [symmetric])
  have ids: "distinct (map (\<lambda>it. item_text it 0) (tw_items ?T)
      @ map (\<lambda>row. row ! 0) (filter (\<lambda>row. 1 < length row) (map ((!) tokens) [1..<length tokens])))"
    using assms(3) by (simp only: rows first) (simp add: set_header_labels_def)
  have lengths: "\<forall>r \<in> set [1..<length tokens]. r < length tokens
      \<and> (1 < length (tokens ! r) \<longrightarrow> length record_header \<le> length (tokens ! r))"
    using assms(2) by (auto simp: tokens_def nth_append nth_Cons' list_all_length record_header_props(4))
  have "tw_header ?T = record_header @ drop (length record_header) (tw_header T)" by (simp add: set_header_labels_def)
  from new_items [OF record_header_props(1,3,5) lengths this ids, of from_seconds, unfolded rows]
  obtain T1 where "items_from_rows from_seconds tokens (header_indexes 0 record_header []) [1..<length tokens] ?T = Inr T1"
    and "tw_items T1 = map (shown_item from_seconds record_header) rows" "tw_header T1 = tw_header ?T"
    by (auto simp: set_header_labels_def)
  then have "tree_fetch_handler from_seconds data 0 T = Inr T1
    \<and> tw_items T1 = map (shown_item from_seconds record_header) rows \<and> take 22 (tw_header T1) = record_header"
    using hd by (simp add: tree_fetch_handler_def parsed Let_def set_header_labels_def record_header_props(4))
  then show ?thesis by (auto simp: data_def)
qed

end
