(* ===== verification/EndToEnd.thy ===== *)
theory EndToEnd
  imports Exchange QtFetch
begin

text \<open>
  From the user to the database and back: a service of the client, the network, a session of the server
  with the module of the logbook, and the table of the interface.

  The module is \<open>LogBook::handleRequest\<close> in one state of the database, as a responder.
\<close>

definition logbook_responder ::
  "'db engine \<Rightarrow> string \<Rightarrow> ('db \<Rightarrow> int) \<Rightarrow> logbook \<Rightarrow> 'db storage \<Rightarrow> responder" where
  "logbook_responder engine prefix last_id L S = (\<lambda>s req reply.
     case logbook_handle engine prefix last_id s req reply L S of (handled, reply1, _, _) \<Rightarrow> (handled, s, reply1))"

subsection \<open>One request of a service\<close>

text \<open>A connection on which nothing is under way, and a session that waits for a request.\<close>

definition idle_client :: "('h, 'u) connection \<Rightarrow> bool" where
  "idle_client c \<longleftrightarrow> c_fd c \<noteq> -1 \<and> c_handlers c = [] \<and> p_state (c_parser c) = http_version_h
     \<and> fresh_reply (c_reply c)"

definition idle_session :: "srv_session \<Rightarrow> bool" where
  "idle_session S \<longleftrightarrow> idle S \<and> ss_state S = rq_method_start \<and> ss_req S = new_request"

lemma quiet_polite: "polite quiet"
  by (simp add: polite_def quiet_def)

lemma asks_sendable: "asks (service_request uri meth content ty hs) \<Longrightarrow> content = None \<or> ty \<noteq> None \<Longrightarrow> sendable content ty"
  by (auto simp: asks_def sendable_def service_request_def split: option.splits)

lemma service_answered:
  assumes "idle_client (v_conn V)" and "idle_session S"
    and "asks (service_request uri meth content ty hs)" and "content = None \<or> ty \<noteq> None"
    and "handleRequest mods (ss_auth S) (server_view (service_request uri meth content ty hs)) = (auth1, r)"
    and "\<not> sr_async r" and "reply_readable r" and "length (fst (toString r)) < READ_SIZE"
  shows "\<exists>V1. send_request quiet (Some uri) meth content ty hs s d V = Inr V1
    \<and> v_closures V1 = v_closures V \<and> v_log V1 = v_log V
    \<and> (\<forall>pieces. socket_bytes (v_conn V1) = socket_bytes (v_conn V) @ concat pieces \<and> [] \<notin> set pieces \<longrightarrow>
        (\<exists>S1 c2 q. feed mods S pieces = Inr S1 \<and> ss_auth S1 = auth1 \<and> idle S1
          \<and> ss_written S1 = ss_written S @ [fst (toString r)]
          \<and> ham_connection_read_data quiet junk_field junk (Recv (fst (toString r))) (v_conn V1) = Inr c2
          \<and> received r q \<and> calls c2 = calls (v_conn V) @ [(s, q, d)]))"
proof -
  let ?q = "service_request uri meth content ty hs"
  obtain V1 where V1: "send_request quiet (Some uri) meth content ty hs s d V = Inr V1"
    "v_closures V1 = v_closures V" "v_log V1 = v_log V"
    and c1: "c_handlers (v_conn V1) = [(Some (Client_handler s), d)]"
      "c_fd (v_conn V1) = c_fd (v_conn V)" "c_parser (v_conn V1) = c_parser (v_conn V)"
      "c_reply (v_conn V1) = c_reply (v_conn V)" "calls (v_conn V1) = calls (v_conn V)"
      "socket_bytes (v_conn V1) = socket_bytes (v_conn V) @ request_text ?q"
    using send_request_value [OF asks_sendable [OF assms(3,4)], of V uri meth hs s d] assms(1) asks_data [OF assms(3)]
    by (auto simp: idle_client_def calls_def socket_bytes_def)
  have replies: "replies_to mods (ss_auth S) (map server_view [?q]) = Some (auth1, [r])" using assms(5,6) by simp
  have session: "idle S" "ss_state S = rq_method_start" "ss_req S = new_request"
    using assms(2) by (simp_all add: idle_session_def)
  have client: "c_fd (v_conn V1) \<noteq> -1" "p_state (c_parser (v_conn V1)) = http_version_h" "fresh_reply (c_reply (v_conn V1))"
    "c_handlers (v_conn V1) = map (\<lambda>(g, u). (Some (Client_handler g), u)) [(s, d)]"
    using assms(1) c1 by (simp_all add: idle_client_def)
  from client_takes_all [OF quiet_polite client, of "[r]" junk_field junk] assms(7,8) c1(5)
  obtain c2 q where "ham_connection_read_data quiet junk_field junk (Recv (fst (toString r))) (v_conn V1) = Inr c2"
    "received r q" "calls c2 = calls (v_conn V) @ [(s, q, d)]"
    by (auto simp: list_all2_Cons1)
  moreover have "\<exists>S1. feed mods S pieces = Inr S1 \<and> ss_auth S1 = auth1 \<and> idle S1
      \<and> ss_written S1 = ss_written S @ [fst (toString r)]"
    if "socket_bytes (v_conn V1) = socket_bytes (v_conn V) @ concat pieces" "[] \<notin> set pieces" for pieces
    using server_takes_all [OF session _ _ _ replies, of pieces] assms(3) that c1(6) by force
  ultimately show ?thesis using V1 by blast
qed

text \<open>A text as a reply of the server.\<close>

lemma text_readable:
  assumes "no_nul content" and "CR \<notin> set content" and "content \<noteq> []" and "length content < 65000"
  shows "reply_readable (list_reply content)" and "length (fst (toString (list_reply content))) < READ_SIZE"
    and "\<not> sr_async (list_reply content)" and "sent_status (sr_status (list_reply content)) = 200"
    and "strip_cr (sr_content (list_reply content)) = content"
proof -
  have strip: "strip_cr content = content" using assms(2) by (auto simp: strip_cr_def filter_id_conv)
  have "server_reply_inv (list_reply content)" by (intro server_reply_inv_ops)
  then show "reply_readable (list_reply content)"
    using assms strip by (simp add: reply_readable_def setContent_def server_reply_new_def sample_defs MAX_REPLY_SIZE_def)
  show "length (fst (toString (list_reply content))) < READ_SIZE" using assms(4) by (rule list_reply_length)
  show "\<not> sr_async (list_reply content)" "sent_status (sr_status (list_reply content)) = 200"
    "strip_cr (sr_content (list_reply content)) = content"
    using strip by (simp_all add: setContent_def server_reply_new_def sent_status_def)
qed

lemma record_table_no_cr: "plain_rows rows \<Longrightarrow> CR \<notin> set (record_table rows)"
proof (induction rows)
  case (Cons r rows)
  have "fs \<noteq> [] \<Longrightarrow> list_all plain fs \<Longrightarrow> CR \<notin> set (plain_line fs)" for fs
  proof (induction fs)
    case (Cons f fs)
    then show ?case
      by (cases "fs = []") (auto simp: line_text_Cons field_text_def plain_def plain_char_def list_all_iff)
  qed simp
  with Cons show ?case by (simp add: csv_text_def plain_rows_def)
qed (simp add: csv_text_def)

subsection \<open>Fetching the records\<close>

lemma logbook_module_answers:
  assumes "map_of mods ''/logbook'' = Some info" and "mi_handle info = logbook_responder engine prefix last_id L S"
    and "sess_authenticated s" and "s_uri req = ''/logbook''"
    and "fst (db_select engine prefix (select_where ''user_id'' (user_text s) (lb_getLogs L)) S) = (ok, rows)"
    and "plain_rows rows"
  shows "handleRequest mods s req = (s, list_reply (record_table (record_header # rows)))"
proof -
  have uri: "module_uri (s_uri req) = ''/logbook''" by (simp add: assms(4))
  obtain L1 S1 where "logbook_handle engine prefix last_id s req (server_reply_new 200 ''text/hamlog'') L S =
      (True, list_reply (record_table (record_header # rows)), L1, S1)"
    using logbook_answer [OF assms(4-6)] by blast
  then show ?thesis
    using assms(1-3) by (simp only: handleRequest_def module_manager_handle_def uri)
      (simp add: Let_def logbook_responder_def)
qed

lemma fetch_request:
  "asks (service_request ''/logbook'' ''GET'' None None [])"
  "s_uri (server_view (service_request ''/logbook'' ''GET'' None None [])) = ''/logbook''"
  by (simp_all add: asks_def request_readable_def service_request_def request_ok_def method_ok_def uri_ok_def sample_defs
      hasHeader_def server_view_def parsed_request_def)

text \<open>The text the session answers with is what the interface is told.\<close>

lemma logbook_fetch_answered:
  assumes "idle_client (v_conn V)" and "idle_session S"
    and "handleRequest mods (ss_auth S) (server_view (service_request ''/logbook'' ''GET'' None None []))
      = (ss_auth S, list_reply data)"
    and "no_nul data" and "CR \<notin> set data" and "data \<noteq> []" and "length data < 65000"
  shows "\<exists>V1. ham_logbook_fetch quiet a (Some h) u V = Inr V1
    \<and> (\<forall>pieces. socket_bytes (v_conn V1) = socket_bytes (v_conn V) @ concat pieces \<and> [] \<notin> set pieces \<longrightarrow>
        (\<exists>S1 out c2 q V2. feed mods S pieces = Inr S1 \<and> ss_written S1 = ss_written S @ [out]
          \<and> ham_connection_read_data quiet junk_field junk (Recv out) (v_conn V1) = Inr c2
          \<and> calls c2 = calls (v_conn V) @ [(S_logbook_fetch, q, Some a)]
          \<and> ham_logbook_fetch_response q a (V1\<lparr>v_conn := c2\<rparr>) = Inr V2
          \<and> v_log V2 = v_log V @ [Notified h (Some data) 0 u, Signalled ''logbook-fetched'' (Some data) 0]))"
proof -
  let ?V = "add_closure a (new_closure (Some h) u) V" and ?out = "fst (toString (list_reply data))"
  note reply = text_readable [OF assms(4-7)]
  have conn: "v_conn ?V = v_conn V" by (simp add: add_closure_def)
  from service_answered [of ?V S, unfolded conn, OF assms(1,2) fetch_request(1) _ assms(3) reply(3,1,2), of S_logbook_fetch
      "Some a" junk_field junk]
  obtain V1 where V1: "ham_logbook_fetch quiet a (Some h) u V = Inr V1" "v_closures V1 = v_closures ?V" "v_log V1 = v_log ?V"
    and served: "\<And>pieces. socket_bytes (v_conn V1) = socket_bytes (v_conn V) @ concat pieces \<Longrightarrow> [] \<notin> set pieces \<Longrightarrow>
      \<exists>S1 c2 q. feed mods S pieces = Inr S1 \<and> ss_written S1 = ss_written S @ [?out]
        \<and> ham_connection_read_data quiet junk_field junk (Recv ?out) (v_conn V1) = Inr c2
        \<and> received (list_reply data) q \<and> calls c2 = calls (v_conn V) @ [(S_logbook_fetch, q, Some a)]"
    unfolding ham_logbook_fetch_def by blast
  have told: "\<exists>V2. ham_logbook_fetch_response q a (V1\<lparr>v_conn := c2\<rparr>) = Inr V2
      \<and> v_log V2 = v_log V @ [Notified h (Some data) 0 u, Signalled ''logbook-fetched'' (Some data) 0]"
    if "received (list_reply data) q" for c2 q
    using that V1(2,3) reply(4,5)
    by (simp add: received_def ham_logbook_fetch_response_def closure_response_def add_closure_def new_closure_def
        rmap_def notify_def log_outcomes_def free_closure_def)
  show ?thesis by (intro exI [of _ V1] conjI V1(1) allI impI, elim conjE) (use served told in blast)
qed

text \<open>
  C2. The user sees what the server has stored. The client asks for its records; the network delivers the
  bytes to the session in any pieces; the session, whose user is logged in, answers with the module of
  the logbook; the client reads the answer, its library calls the handler of the request, which tells the
  interface; and the table then has one item for each row of this user in the database, in their
  order, with the 22 named columns of the row (the date as the interface shows it), whatever it held
  before.
\<close>

theorem stored_records_are_shown:
  assumes "idle_client (v_conn V)" and "idle_session S" and "sess_authenticated (ss_auth S)"
    and "map_of mods ''/logbook'' = Some info" and "mi_handle info = logbook_responder engine prefix last_id L db"
    and "fst (db_select engine prefix (select_where ''user_id'' (user_text (ss_auth S)) (lb_getLogs L)) db) = (ok, rows)"
    and "plain_rows rows" and "list_all (\<lambda>row. 22 \<le> length row) rows" and "distinct (map hd rows)"
    and "length (record_table (record_header # rows)) < 65000"
  shows "\<exists>V1. ham_logbook_fetch quiet a (Some h) u V = Inr V1
    \<and> (\<forall>pieces. socket_bytes (v_conn V1) = socket_bytes (v_conn V) @ concat pieces \<and> [] \<notin> set pieces \<longrightarrow>
        (\<exists>S1 out c2 q V2 content T1. feed mods S pieces = Inr S1 \<and> ss_written S1 = ss_written S @ [out]
          \<and> ham_connection_read_data quiet junk_field junk (Recv out) (v_conn V1) = Inr c2
          \<and> calls c2 = calls (v_conn V) @ [(S_logbook_fetch, q, Some a)]
          \<and> ham_logbook_fetch_response q a (V1\<lparr>v_conn := c2\<rparr>) = Inr V2
          \<and> v_log V2 = v_log V @ [Notified h (Some content) 0 u, Signalled ''logbook-fetched'' (Some content) 0]
          \<and> tree_fetch_handler from_seconds content 0 T = Inr T1
          \<and> tw_items T1 = map (shown_item from_seconds record_header) rows
          \<and> take 22 (tw_header T1) = record_header))"
proof -
  define data where "data = record_table (record_header # rows)"
  have plain: "plain_rows (record_header # rows)" using assms(7) by (rule record_table_plain)
  have data: "no_nul data" "CR \<notin> set data" "data \<noteq> []" "length data < 65000"
    using no_nul_record_table [OF plain] record_table_no_cr [OF plain] assms(10) by (simp_all add: data_def csv_text_def)
  have answer: "handleRequest mods (ss_auth S) (server_view (service_request ''/logbook'' ''GET'' None None []))
      = (ss_auth S, list_reply data)"
    unfolding data_def by (rule logbook_module_answers [OF assms(4,5,3) fetch_request(2) assms(6,7)])
  obtain T1 where "tree_fetch_handler from_seconds data 0 T = Inr T1"
    "tw_items T1 = map (shown_item from_seconds record_header) rows" "take 22 (tw_header T1) = record_header"
    using table_shown [OF assms(7-9)] unfolding data_def by blast
  with logbook_fetch_answered [OF assms(1,2) answer data, of a h u junk_field junk] show ?thesis
    by (elim exE conjE) (intro exI conjI, assumption, blast)
qed

definition user7 :: srv_session where
  "user7 = (session_start (session_new 0))\<lparr>ss_auth := \<lparr>sess_authenticated = True, sess_id = 7, sess_username = ''u''\<rparr>\<rparr>"

definition one_row :: "unit engine" where
  "one_row = (\<lambda>_ _ db. (Rows [replicate 22 (Some ''1'')] True, db))"

definition logbook_only :: module_map where
  "logbook_only = [(''/logbook'', \<lparr>mi_name = ''Logbook'', mi_description = [], mi_type = 0, mi_auth = True,
     mi_handle = logbook_responder one_row [] (\<lambda>_. 1) logbook0 \<lparr>st_db = (), st_log = []\<rparr>\<rparr>)]"

lemma idle0: "idle_client (v_conn services0)" "idle_session user7" "sess_authenticated (ss_auth user7)"
  using start0 by (simp_all add: idle_client_def services0_def idle_session_def idle_def user7_def session_start_def
      session_new_def)

theorem stored_records_are_shown_witness:
  "\<exists>V1. ham_logbook_fetch quiet 9 (Some 4) 5 services0 = Inr V1
    \<and> (\<exists>S1 c2 q V2 content T1. feed logbook_only user7 [socket_bytes (v_conn V1)] = Inr S1
        \<and> ham_connection_read_data quiet (\<lambda>_. NUL) (\<lambda>_ _. NUL) (Recv (concat (ss_written S1))) (v_conn V1) = Inr c2
        \<and> calls c2 = [(S_logbook_fetch, q, Some 9)]
        \<and> ham_logbook_fetch_response q 9 (V1\<lparr>v_conn := c2\<rparr>) = Inr V2
        \<and> Notified 4 (Some content) 0 5 \<in> set (v_log V2)
        \<and> tree_fetch_handler (\<lambda>_. ''noon'') content 0 shown_tree = Inr T1
        \<and> tw_items T1 = [(replicate 22 ''1'')[2 := ''noon'']])"
proof -
  let ?rows = "[replicate 22 ''1'']"
  have select: "fst (db_select one_row [] (select_where ''user_id'' (user_text (ss_auth user7)) (lb_getLogs logbook0))
      \<lparr>st_db = (), st_log = []\<rparr>) = (True, ?rows)"
    by (simp add: db_select_def sqlite_select_def run_statement_def one_row_def)
  have rows: "plain_rows ?rows" "list_all (\<lambda>row. 22 \<le> length row) ?rows" "distinct (map hd ?rows)"
    by (simp_all add: plain_rows_def plain_char_def list_all_iff)
  have module: "map_of logbook_only ''/logbook'' = Some (snd (hd logbook_only))"
    "mi_handle (snd (hd logbook_only)) = logbook_responder one_row [] (\<lambda>_. 1) logbook0 \<lparr>st_db = (), st_log = []\<rparr>"
    by (simp_all add: logbook_only_def)
  have small: "length (record_table (record_header # ?rows)) < 65000"
    by (simp add: csv_text_def record_header_def field_text_def numeral_eq_Suc)
  have item: "shown_item (\<lambda>_. ''noon'') record_header (replicate 22 ''1'') = (replicate 22 ''1'')[2 := ''noon'']"
    by (simp add: shown_item_def shown_def record_header_def upt_rec numeral_eq_Suc)
  have start: "calls (v_conn services0) = []" "socket_bytes (v_conn services0) = []" "v_log services0 = []" "ss_written user7 = []"
    by (simp_all add: services0_def calls_def socket_bytes_def user7_def session_start_def session_new_def)
  from stored_records_are_shown [OF idle0 module select rows small, of 9 4 5 "\<lambda>_. NUL" "\<lambda>_ _. NUL" "\<lambda>_. ''noon''" shown_tree]
  obtain V1 where "ham_logbook_fetch quiet 9 (Some 4) 5 services0 = Inr V1"
    and all: "\<And>pieces. socket_bytes (v_conn V1) = concat pieces \<Longrightarrow> [] \<notin> set pieces \<Longrightarrow>
      \<exists>S1 out c2 q V2 content T1. feed logbook_only user7 pieces = Inr S1 \<and> ss_written S1 = [out]
        \<and> ham_connection_read_data quiet (\<lambda>_. NUL) (\<lambda>_ _. NUL) (Recv out) (v_conn V1) = Inr c2
        \<and> calls c2 = [(S_logbook_fetch, q, Some 9)]
        \<and> ham_logbook_fetch_response q 9 (V1\<lparr>v_conn := c2\<rparr>) = Inr V2
        \<and> v_log V2 = [Notified 4 (Some content) 0 5, Signalled ''logbook-fetched'' (Some content) 0]
        \<and> tree_fetch_handler (\<lambda>_. ''noon'') content 0 shown_tree = Inr T1
        \<and> tw_items T1 = [(replicate 22 ''1'')[2 := ''noon'']] \<and> take 22 (tw_header T1) = record_header"
    unfolding start list.map item append_Nil by blast
  moreover from this(1) have "socket_bytes (v_conn V1) \<noteq> []"
    using send_request_value [of None None "add_closure 9 (new_closure (Some 4) 5) services0" "''/logbook''" "''GET''" "[]"
        S_logbook_fetch "Some 9"] asks_data [OF fetch_request(1)]
    by (auto simp: ham_logbook_fetch_def socket_bytes_def services0_def sendable_def add_closure_def request_text_def
        service_request_def)
  ultimately show ?thesis using all [of "[socket_bytes (v_conn V1)]"] by (fastforce simp del: feed.simps)
qed

subsection \<open>Saving a record\<close>

text \<open>
  C3. An edited record is saved as it is shown: when the user changes a column of an item, the table
  asks the library to add a text; the library writes one request to the socket, with the handler
  of the reply behind those that wait; the server's parser reads it, and the logbook then updates the item's row of the user of the session, or inserts one if the item
  has no id, with exactly the columns of the table and the texts of the item.
\<close>

theorem edited_item_reaches_database:
  assumes "2 \<le> col" and "plain_rows [tw_header T, item_row to_seconds T it]"
    and "distinct (tw_header T)" and "hd (tw_header T) = ''id''"
    and "c_fd (v_conn V) \<noteq> -1" and "length (record_table [tw_header T, item_row to_seconds T it]) < 10 ^ 9"
  shows "\<exists>T1 data V1 bytes q qs. handleItemChanged to_seconds it col T = Inr T1
    \<and> tw_requests T1 = tw_requests T @ [Add_record data]
    \<and> ham_logbook_add quiet a data h u V = Inr V1
    \<and> last (c_events (v_conn V1)) = Wrote (c_fd (v_conn V)) bytes
    \<and> c_handlers (v_conn V1) = c_handlers (v_conn V) @ [(Some (Client_handler S_logbook_add), Some a)]
    \<and> rq_parse rq_method_start new_request bytes = Inr (length bytes, rq_method_start, q)
    \<and> st_log (snd (snd (snd (logbook_handle engine prefix last_id s q reply L S)))) = st_log S @ qs
    \<and> saves s (tw_header T) (item_row to_seconds T it) qs
    \<and> hd (item_row to_seconds T it) = (if item_text it 0 = [] then ''-1'' else item_text it 0)"
proof -
  let ?V = "add_closure a (new_closure h u) V"
  define data where "data = record_table [tw_header T, item_row to_seconds T it]"
  have data: "data \<noteq> []" "no_nul data" "list_all (\<lambda>c. c \<noteq> CR) data"
    using no_nul_record_table [OF assms(2)] record_table_no_cr [OF assms(2)]
    by (auto simp: data_def list_all_iff csv_text_def)
  obtain T1 where T1: "handleItemChanged to_seconds it col T = Inr T1" "tw_requests T1 = tw_requests T @ [Add_record data]"
    using edited_item_is_asked [OF assms(1,2)] unfolding data_def by blast
  have "request_ok (service_request ''/logbook/add'' ''POST'' (Some data) (Some ''hamlog'') [])"
    by (simp add: service_request_def request_ok_def method_ok_def uri_ok_def sample_defs)
  from send_request_arrives [of ?V, OF _ _ this, of S_logbook_add "Some a"] assms(5,6) data
  obtain V1 bytes q where V1: "ham_logbook_add quiet a data h u V = Inr V1"
    "last (c_events (v_conn V1)) = Wrote (c_fd (v_conn V)) bytes"
    "c_handlers (v_conn V1) = c_handlers (v_conn V) @ [(Some (Client_handler S_logbook_add), Some a)]"
    "rq_parse rq_method_start new_request bytes = Inr (length bytes, rq_method_start, q)"
    and q: "s_uri q = ''/logbook/add''" "s_content q = data"
    by (auto simp: ham_logbook_add_def add_closure_def sendable_def data_def parsed_request_def service_request_def)
  have "length (tw_header T) = length (item_row to_seconds T it)" by (simp add: item_row_def)
  from logbook_add_saves [OF assms(3,4,2) this q(1), of engine prefix last_id s reply L S] q(2)
  obtain qs where "st_log (snd (snd (snd (logbook_handle engine prefix last_id s q reply L S)))) = st_log S @ qs"
    "saves s (tw_header T) (item_row to_seconds T it) qs"
    unfolding data_def by blast
  moreover have "tw_header T \<noteq> []" using assms(2) by (simp add: plain_rows_def)
  ultimately show ?thesis using T1 V1 item_row_hd [of T to_seconds it] by blast
qed

theorem edited_item_reaches_database_witness:
  "\<exists>T1 data V1 bytes q r. handleItemChanged (\<lambda>_. ''0'') [''3'', ''7'', ''2011-10-01 10:00'', ''OK1''] 3 shown_tree = Inr T1
    \<and> tw_requests T1 = [Add_record data]
    \<and> ham_logbook_add quiet 9 data None 5 services0 = Inr V1 \<and> last (c_events (v_conn V1)) = Wrote 3 bytes
    \<and> rq_parse rq_method_start new_request bytes = Inr (length bytes, rq_method_start, q)
    \<and> st_log (snd (snd (snd (logbook_handle one_row [] (\<lambda>_. 1) guest q (server_reply_new 200 ''text/hamlog'') logbook0
        \<lparr>st_db = (), st_log = []\<rparr>)))) = [Q_update r]
    \<and> smap_get (ins_row r) ''callsign'' = Some ''OK1'' \<and> smap_get (ins_where r) ''id'' = Some ''3''"
proof -
  let ?it = "[''3'', ''7'', ''2011-10-01 10:00'', ''OK1'']"
  have row: "item_row (\<lambda>_. ''0'') shown_tree ?it = [''3'', ''7'', ''0'', ''OK1'']"
    by (simp add: item_row_def shown_tree_def upt_rec item_text_def)
  have rows: "plain_rows [tw_header shown_tree, item_row (\<lambda>_. ''0'') shown_tree ?it]"
    unfolding row by (simp add: plain_rows_def shown_tree_def plain_char_def)
  have head: "distinct (tw_header shown_tree)" "hd (tw_header shown_tree) = ''id''" by (simp_all add: shown_tree_def)
  have small: "length (record_table [tw_header shown_tree, item_row (\<lambda>_. ''0'') shown_tree ?it]) < 10 ^ 9"
    unfolding row by (simp add: shown_tree_def csv_text_def field_text_def)
  have fd: "c_fd (v_conn services0) \<noteq> -1" "c_fd (v_conn services0) = 3" by (simp_all add: services0_def)
  have empty: "tw_requests shown_tree = []" by (simp add: shown_tree_def)
  have saved: "\<exists>r. qs = [Q_update r] \<and> smap_get (ins_row r) ''callsign'' = Some ''OK1'' \<and> smap_get (ins_where r) ''id'' = Some ''3''"
    if "saves guest (tw_header shown_tree) [''3'', ''7'', ''0'', ''OK1''] qs" for qs
    using that by (auto simp: saves_def shown_tree_def)
  from edited_item_reaches_database [where col = 3, OF _ rows head fd(1) small, of 9 None 5 one_row "[]" "\<lambda>_. 1" guest
      "server_reply_new 200 ''text/hamlog''" logbook0 "\<lparr>st_db = (), st_log = []\<rparr>"]
  obtain T1 data V1 bytes q qs where run: "handleItemChanged (\<lambda>_. ''0'') ?it 3 shown_tree = Inr T1"
      "tw_requests T1 = [Add_record data]" "ham_logbook_add quiet 9 data None 5 services0 = Inr V1"
      "last (c_events (v_conn V1)) = Wrote 3 bytes"
      "rq_parse rq_method_start new_request bytes = Inr (length bytes, rq_method_start, q)"
      "st_log (snd (snd (snd (logbook_handle one_row [] (\<lambda>_. 1) guest q (server_reply_new 200 ''text/hamlog'') logbook0
        \<lparr>st_db = (), st_log = []\<rparr>)))) = qs"
    and "saves guest (tw_header shown_tree) [''3'', ''7'', ''0'', ''OK1''] qs"
    unfolding row fd(2) empty by auto
  with saved [OF this(7)] show ?thesis by blast
qed

end
