(* ===== verification/Database.thy ===== *)
theory Database
  imports LogBook "HOL-Library.Multiset"
begin

text \<open>
  The rows behind the statements of the logbook. The theory of the storage knows a statement as a text;
  here SQLite is asked to do with the rows of the table what its documentation says of such texts, and
  the requests of the logbook are followed to the rows.

  A row gives each column a value or null. \<open>stored c v\<close> is the value that a column has after \<open>v\<close>, bound as a
  text, was converted by the affinity of the column; \<open>rows\<close> reads the table off the state of the database.
  The order in which rows are returned is open.
\<close>

type_synonym row = "string \<Rightarrow> string option"

text \<open>The conditions of a statement, and its assignments.\<close>

definition matches :: "(string \<Rightarrow> string \<Rightarrow> string) \<Rightarrow> smap \<Rightarrow> row \<Rightarrow> bool" where
  "matches stored w r \<longleftrightarrow> (\<forall>(c, v) \<in> set w. r c = Some (stored c (cstr v)))"

definition assigned :: "(string \<Rightarrow> string \<Rightarrow> string) \<Rightarrow> smap \<Rightarrow> row \<Rightarrow> row" where
  "assigned stored m r = (\<lambda>c. case smap_get m c of Some v \<Rightarrow> Some (stored c (cstr v)) | None \<Rightarrow> r c)"

text \<open>A map from columns of the table, each once.\<close>

definition on_columns :: "string list \<Rightarrow> smap \<Rightarrow> bool" where
  "on_columns cols m \<longleftrightarrow> smap_inv m \<and> fst ` set m \<subseteq> set cols"

text \<open>
  What is documented: a statement runs to its end and has its effect, or has none. An \<open>UPDATE\<close> without an
  assignment is not a statement.
\<close>

definition selects ::
  "'db engine \<Rightarrow> string \<Rightarrow> string list \<Rightarrow> ('db \<Rightarrow> row multiset) \<Rightarrow> (string \<Rightarrow> string \<Rightarrow> string) \<Rightarrow> bool" where
  "selects engine prefix cols rows stored \<longleftrightarrow> (\<forall>q db.
     sel_table q = ''logbook'' \<and> sel_what q = [] \<and> on_columns cols (sel_where q) \<longrightarrow>
     (case run_statement engine (select_sql prefix q) (map snd (sel_where q)) db of (res, db1) \<Rightarrow>
        rows db1 = rows db \<and> (\<forall>out. res = Rows out True \<longrightarrow>
          (\<exists>rs. out = map (\<lambda>r. map r cols) rs \<and> mset rs = filter_mset (matches stored (sel_where q)) (rows db)))))"

definition removes ::
  "'db engine \<Rightarrow> string \<Rightarrow> string list \<Rightarrow> ('db \<Rightarrow> row multiset) \<Rightarrow> (string \<Rightarrow> string \<Rightarrow> string) \<Rightarrow> bool" where
  "removes engine prefix cols rows stored \<longleftrightarrow> (\<forall>q db.
     sel_table q = ''logbook'' \<and> on_columns cols (sel_where q) \<longrightarrow>
     (case run_statement engine (remove_sql prefix q) (map snd (sel_where q)) db of (res, db1) \<Rightarrow>
        if res = Rows [] True then rows db1 = filter_mset (\<lambda>r. \<not> matches stored (sel_where q) r) (rows db)
        else rows db1 = rows db))"

definition inserts ::
  "'db engine \<Rightarrow> string \<Rightarrow> string list \<Rightarrow> ('db \<Rightarrow> row multiset) \<Rightarrow> (string \<Rightarrow> string \<Rightarrow> string) \<Rightarrow> bool" where
  "inserts engine prefix cols rows stored \<longleftrightarrow> (\<forall>q db.
     ins_table q = ''logbook'' \<and> on_columns cols (ins_row q) \<and> ins_row q \<noteq> [] \<longrightarrow>
     (case run_statement engine (insert_sql prefix q) (map snd (ins_row q)) db of (res, db1) \<Rightarrow>
        if res = Rows [] True then \<exists>r. matches stored (ins_row q) r \<and> rows db1 = add_mset r (rows db)
        else rows db1 = rows db))"

definition updates ::
  "'db engine \<Rightarrow> string \<Rightarrow> string list \<Rightarrow> ('db \<Rightarrow> row multiset) \<Rightarrow> (string \<Rightarrow> string \<Rightarrow> string) \<Rightarrow> bool" where
  "updates engine prefix cols rows stored \<longleftrightarrow> (\<forall>q db.
     ins_table q = ''logbook'' \<and> on_columns cols (ins_row q) \<and> on_columns cols (ins_where q) \<longrightarrow>
     (case run_statement engine (update_sql prefix q) (map snd (ins_row q) @ map snd (ins_where q)) db of (res, db1) \<Rightarrow>
        if res = Rows [] True \<and> ins_row q \<noteq> []
        then rows db1 = image_mset (\<lambda>r. if matches stored (ins_where q) r then assigned stored (ins_row q) r else r) (rows db)
        else rows db1 = rows db))"

definition sql_table ::
  "'db engine \<Rightarrow> string \<Rightarrow> string list \<Rightarrow> ('db \<Rightarrow> row multiset) \<Rightarrow> (string \<Rightarrow> string \<Rightarrow> string) \<Rightarrow> bool" where
  "sql_table engine prefix cols rows stored \<longleftrightarrow> selects engine prefix cols rows stored
     \<and> removes engine prefix cols rows stored \<and> inserts engine prefix cols rows stored
     \<and> updates engine prefix cols rows stored"

subsection \<open>Rows of the other users\<close>

definition rows_of :: "(string \<Rightarrow> string \<Rightarrow> string) \<Rightarrow> string \<Rightarrow> row multiset \<Rightarrow> row multiset" where
  "rows_of stored u M = filter_mset (\<lambda>r. r ''user_id'' = Some (stored ''user_id'' (cstr u))) M"

definition rows_of_others :: "(string \<Rightarrow> string \<Rightarrow> string) \<Rightarrow> string \<Rightarrow> row multiset \<Rightarrow> row multiset" where
  "rows_of_others stored u M = filter_mset (\<lambda>r. r ''user_id'' \<noteq> Some (stored ''user_id'' (cstr u))) M"

lemma matches_get: "matches stored w r \<Longrightarrow> smap_get w c = Some v \<Longrightarrow> r c = Some (stored c (cstr v))"
  by (auto simp: matches_def smap_get_def dest: map_of_SomeD)

lemma assigned_other: "smap_get m c = None \<Longrightarrow> assigned stored m r c = r c"
  by (simp add: assigned_def)

lemma image_keeps_filtered:
  assumes "\<And>r. P (f r) = P r" and "\<And>r. P r \<Longrightarrow> f r = r"
  shows "filter_mset P (image_mset f M) = filter_mset P M"
  using assms by (induction M) auto

text \<open>A statement on the columns of the table, restricted to the rows of a user.\<close>

fun statement_ok :: "string list \<Rightarrow> string \<Rightarrow> query \<Rightarrow> bool" where
  "statement_ok cols u (Q_select q) \<longleftrightarrow> sel_table q = ''logbook'' \<and> sel_what q = [] \<and> on_columns cols (sel_where q)
     \<and> smap_get (sel_where q) ''user_id'' = Some u"
| "statement_ok cols u (Q_remove q) \<longleftrightarrow> sel_table q = ''logbook'' \<and> on_columns cols (sel_where q)
     \<and> smap_get (sel_where q) ''user_id'' = Some u"
| "statement_ok cols u (Q_insert q) \<longleftrightarrow> ins_table q = ''logbook'' \<and> on_columns cols (ins_row q)
     \<and> smap_get (ins_row q) ''user_id'' = Some u"
| "statement_ok cols u (Q_update q) \<longleftrightarrow> ins_table q = ''logbook'' \<and> on_columns cols (ins_row q)
     \<and> on_columns cols (ins_where q) \<and> smap_get (ins_where q) ''user_id'' = Some u \<and> smap_get (ins_row q) ''user_id'' = None"

definition others_kept :: "('db \<Rightarrow> row multiset) \<Rightarrow> (string \<Rightarrow> string \<Rightarrow> string) \<Rightarrow> string \<Rightarrow> 'db storage \<Rightarrow> 'db storage \<Rightarrow> bool" where
  "others_kept rows stored u S S1 \<longleftrightarrow>
     rows_of_others stored u (rows (st_db S1)) = rows_of_others stored u (rows (st_db S))"

lemma others_kept_refl [simp]: "others_kept rows stored u S S"
  by (simp add: others_kept_def)

lemma others_kept_trans:
  "others_kept rows stored u S S1 \<Longrightarrow> others_kept rows stored u S1 S2 \<Longrightarrow> others_kept rows stored u S S2"
  by (simp add: others_kept_def)

lemma statements_keep_others:
  assumes "sql_table engine prefix cols rows stored"
  shows "statement_ok cols u (Q_select q) \<Longrightarrow> others_kept rows stored u S (snd (db_select engine prefix q S))"
    and "statement_ok cols u (Q_remove q) \<Longrightarrow> others_kept rows stored u S (snd (db_remove engine prefix q S))"
    and "statement_ok cols u (Q_insert i) \<Longrightarrow> others_kept rows stored u S (snd (db_insert engine prefix i S))"
    and "statement_ok cols u (Q_update i) \<Longrightarrow> others_kept rows stored u S (snd (db_update engine prefix i S))"
proof -
  have laws: "selects engine prefix cols rows stored" "removes engine prefix cols rows stored"
    "inserts engine prefix cols rows stored" "updates engine prefix cols rows stored"
    using assms by (simp_all add: sql_table_def)
  show "others_kept rows stored u S (snd (db_select engine prefix q S))" if "statement_ok cols u (Q_select q)"
  proof -
    obtain res db1 where run: "run_statement engine (select_sql prefix q) (map snd (sel_where q)) (st_db S) = (res, db1)"
      by fastforce
    have "rows db1 = rows (st_db S)"
      using laws(1) [unfolded selects_def, rule_format, of q "st_db S"] that run by simp
    then show ?thesis
      using run by (simp add: others_kept_def db_select_def sqlite_select_def split: sql_result.split)
  qed
  show "others_kept rows stored u S (snd (db_remove engine prefix q S))" if "statement_ok cols u (Q_remove q)"
  proof -
    obtain res db1 where run: "run_statement engine (remove_sql prefix q) (map snd (sel_where q)) (st_db S) = (res, db1)"
      by fastforce
    have "rows db1 = rows (st_db S) \<or> rows db1 = filter_mset (\<lambda>r. \<not> matches stored (sel_where q) r) (rows (st_db S))"
      using laws(2) [unfolded removes_def, rule_format, of q "st_db S"] that run by (simp split: if_splits)
    moreover have "rows_of_others stored u (filter_mset (\<lambda>r. \<not> matches stored (sel_where q) r) M) = rows_of_others stored u M" for M
      using that matches_get [of stored "sel_where q"]
      by (auto simp: rows_of_others_def filter_filter_mset intro!: filter_mset_cong)
    ultimately show ?thesis
      using run by (auto simp: others_kept_def db_remove_def sqlite_remove_def execute_statement_def split: sql_result.split)
  qed
  show "others_kept rows stored u S (snd (db_insert engine prefix i S))" if "statement_ok cols u (Q_insert i)"
  proof -
    obtain res db1 where run: "run_statement engine (insert_sql prefix i) (map snd (ins_row i)) (st_db S) = (res, db1)"
      by fastforce
    have "ins_row i \<noteq> []" using that by (auto simp: smap_get_def)
    then have "rows db1 = rows (st_db S) \<or> (\<exists>r. matches stored (ins_row i) r \<and> rows db1 = add_mset r (rows (st_db S)))"
      using laws(3) [unfolded inserts_def, rule_format, of i "st_db S"] that run by (simp split: if_splits)
    then have "rows_of_others stored u (rows db1) = rows_of_others stored u (rows (st_db S))"
      using that matches_get [of stored "ins_row i"] by (auto simp: rows_of_others_def)
    then show ?thesis
      using run by (simp add: others_kept_def db_insert_def sqlite_insert_def execute_statement_def split: sql_result.split)
  qed
  show "others_kept rows stored u S (snd (db_update engine prefix i S))" if "statement_ok cols u (Q_update i)"
  proof -
    let ?f = "\<lambda>r. if matches stored (ins_where i) r then assigned stored (ins_row i) r else r"
    obtain res db1 where run: "run_statement engine (update_sql prefix i)
        (map snd (ins_row i) @ map snd (ins_where i)) (st_db S) = (res, db1)"
      by fastforce
    have "rows db1 = rows (st_db S) \<or> rows db1 = image_mset ?f (rows (st_db S))"
      using laws(4) [unfolded updates_def, rule_format, of i "st_db S"] that run by (simp split: if_splits)
    moreover have "rows_of_others stored u (image_mset ?f M) = rows_of_others stored u M" for M
      unfolding rows_of_others_def
      by (rule image_keeps_filtered) (use that matches_get [of stored "ins_where i"] in \<open>auto simp: assigned_other\<close>)
    ultimately show ?thesis
      using run by (auto simp: others_kept_def db_update_def sqlite_update_def execute_statement_def split: sql_result.split)
  qed
qed

text \<open>A statement that the storage takes for done.\<close>

lemma assigned_Nil [simp]: "assigned stored [] r = r"
  by (simp add: assigned_def)

lemma update_done:
  assumes "sql_table engine prefix cols rows stored" and "ins_table q = ''logbook''"
    and "on_columns cols (ins_row q)" and "on_columns cols (ins_where q)" and "db_update engine prefix q S = (True, S1)"
  shows "rows (st_db S1) =
    image_mset (\<lambda>r. if matches stored (ins_where q) r then assigned stored (ins_row q) r else r) (rows (st_db S))"
proof -
  obtain res db1 where run: "run_statement engine (update_sql prefix q) (map snd (ins_row q) @ map snd (ins_where q)) (st_db S)
      = (res, db1)"
    by fastforce
  have "res = Rows [] True" "st_db S1 = db1"
    using assms(5) run by (auto simp: db_update_def sqlite_update_def execute_statement_def split: sql_result.splits)
  moreover have "updates engine prefix cols rows stored" using assms(1) by (simp add: sql_table_def)
  note this [unfolded updates_def, rule_format, of q "st_db S"]
  ultimately show ?thesis
    using run assms(2-4) by (cases "ins_row q = []") (simp_all cong: if_cong)
qed

text \<open>A value as the storage hands it out: null is an empty text.\<close>

definition cell_text :: "string option \<Rightarrow> string" where
  "cell_text v = (case v of None \<Rightarrow> [] | Some s \<Rightarrow> cstr s)"

lemma select_done:
  assumes "sql_table engine prefix cols rows stored" and "sel_table q = ''logbook''" and "sel_what q = []"
    and "on_columns cols (sel_where q)" and "db_select engine prefix q S = ((True, out), S1)"
  shows "\<exists>rs. out = map (\<lambda>r. map (\<lambda>c. cell_text (r c)) cols) rs
    \<and> mset rs = filter_mset (matches stored (sel_where q)) (rows (st_db S))"
proof -
  obtain res db1 where run: "run_statement engine (select_sql prefix q) (map snd (sel_where q)) (st_db S) = (res, db1)"
    by fastforce
  obtain vs where "res = Rows vs True" and out: "out = map (map (\<lambda>v. case v of None \<Rightarrow> [] | Some s \<Rightarrow> cstr s)) vs"
    using assms(5) run by (auto simp: db_select_def sqlite_select_def split: sql_result.splits)
  moreover have "selects engine prefix cols rows stored" using assms(1) by (simp add: sql_table_def)
  note this [unfolded selects_def, rule_format, of q "st_db S"]
  ultimately obtain rs where "vs = map (\<lambda>r. map r cols) rs" "mset rs = filter_mset (matches stored (sel_where q)) (rows (st_db S))"
    using run assms(2-4) by auto
  with out show ?thesis by (auto simp: comp_def cell_text_def)
qed

subsection \<open>The requests of the logbook\<close>

lemma on_columns_set: "on_columns cols m \<Longrightarrow> c \<in> set cols \<Longrightarrow> on_columns cols (smap_set c v m)"
  by (simp add: on_columns_def sm.inv_put smap_set_keys)

lemma on_columns_erase: "on_columns cols m \<Longrightarrow> on_columns cols (smap_erase c m)"
  using sm.inv_del [of m c] by (auto simp: on_columns_def) (auto simp: smap_erase_def)

lemma on_columns_Nil [simp]: "on_columns cols []"
  by (simp add: on_columns_def)

lemma on_columns_at: "on_columns cols m \<Longrightarrow> c \<in> set cols \<Longrightarrow> on_columns cols (snd (smap_at c m))"
  by (simp add: smap_at_def on_columns_set split: option.split)

lemma on_columns_set_columns:
  assumes "set header \<subseteq> set cols" and "on_columns cols m"
  shows "on_columns cols (set_columns header row m)"
proof -
  have "on_columns cols (fold (\<lambda>(n, v). smap_set n v) kvs m)" if "fst ` set kvs \<subseteq> set cols" for kvs
    using that assms(2) by (induction kvs arbitrary: m) (auto simp: on_columns_set)
  moreover have "fst ` set (zip header row) \<subseteq> set cols" using assms(1) by (auto dest: set_zip_leftD)
  ultimately show ?thesis by (simp add: set_columns_def)
qed

definition logbook_names :: "string list \<Rightarrow> bool" where
  "logbook_names cols \<longleftrightarrow> {''id'', ''user_id'', ''callsign''} \<subseteq> set cols"

text \<open>What the queries are between requests: conditions of earlier requests may still be there.\<close>

definition logbook_ready :: "string list \<Rightarrow> logbook \<Rightarrow> bool" where
  "logbook_ready cols L \<longleftrightarrow> lb_getLogs L = new_select ''logbook''
     \<and> ins_table (lb_addLog L) = ''logbook'' \<and> fst ` set (ins_where (lb_addLog L)) \<subseteq> {''id'', ''user_id''}
     \<and> smap_inv (ins_where (lb_addLog L))
     \<and> sel_table (lb_removeLog L) = ''logbook'' \<and> on_columns cols (sel_where (lb_removeLog L))"

lemma logbook_new_ready: "logbook_ready cols (fst (logbook_new engine prefix db))"
  by (simp add: logbook_ready_def logbook_new_def new_select_def new_insert_def)

lemma logbook_ready_record: "logbook_ready cols (L\<lparr>lb_record := m\<rparr>) \<longleftrightarrow> logbook_ready cols L"
  by (simp add: logbook_ready_def)

lemma sendLogs_keeps_others:
  assumes "sql_table engine prefix cols rows stored" and "logbook_names cols" and "logbook_ready cols L"
    and "sel_table g = ''logbook''" and "sel_what g = []" and "on_columns cols (sel_where g)"
    and "sendLogs engine prefix s reply (L\<lparr>lb_getLogs := g\<rparr>) S = (r, L1, S1)"
  shows "logbook_ready cols L1 \<and> others_kept rows stored (user_text s) S S1"
proof -
  let ?q = "select_where ''user_id'' (user_text s) g"
  have "statement_ok cols (user_text s) (Q_select ?q)"
    using assms(2,4-6) by (simp add: select_where_def sm.get_put on_columns_set logbook_names_def)
  then have "others_kept rows stored (user_text s) S (snd (db_select engine prefix ?q S))"
    by (rule statements_keep_others(1) [OF assms(1)])
  moreover have "S1 = snd (db_select engine prefix ?q S)" "L1 = L\<lparr>lb_getLogs := select_reset ?q\<rparr>"
    using assms(7) by (auto simp: sendLogs_def Let_def split: prod.splits)
  ultimately show ?thesis
    using assms(3-5) by (simp add: logbook_ready_def select_reset_def select_where_def new_select_def)
qed

lemma add_row_keeps_others:
  assumes "sql_table engine prefix cols rows stored" and "logbook_names cols" and "logbook_ready cols L"
    and "on_columns cols (lb_record L)" and "set header \<subseteq> set cols"
    and "add_row engine prefix last_id s header row reply L S = (cont, r, L1, S1)"
  shows "logbook_ready cols L1 \<and> on_columns cols (lb_record L1) \<and> others_kept rows stored (user_text s) S S1"
proof -
  obtain i m where at: "smap_at ''id'' (set_columns header row (lb_record L)) = (i, m)" by fastforce
  have m: "on_columns cols m"
    using on_columns_at [of cols "set_columns header row (lb_record L)" "''id''"] on_columns_set_columns [OF assms(5,4)]
      assms(2) by (simp add: at logbook_names_def)
  let ?m1 = "smap_set ''user_id'' (user_text s) (smap_erase ''id'' m)"
  let ?qi = "insert_what ?m1 (lb_addLog L)"
  let ?m2 = "smap_erase ''id'' (smap_erase ''user_id'' m)"
  let ?w = "insert_where ''id'' i (insert_where ''user_id'' (user_text s) (lb_addLog L))"
  have names: "''id'' \<in> set cols" "''user_id'' \<in> set cols" using assms(2) by (simp_all add: logbook_names_def)
  have maps: "on_columns cols ?m1" "on_columns cols ?m2" using m names by (simp_all add: on_columns_set on_columns_erase)
  have "on_columns cols (ins_where (lb_addLog L))"
    using assms(3) names by (auto simp: logbook_ready_def on_columns_def)
  then have w: "on_columns cols (ins_where ?w)" using names by (simp add: insert_where_def on_columns_set)
  have "statement_ok cols (user_text s) (Q_insert ?qi)" "statement_ok cols (user_text s) (Q_update (insert_what ?m2 ?w))"
    using assms(3) maps w by (simp_all add: logbook_ready_def insert_what_def insert_where_def sm.get_put sm.get_del)
  then have "others_kept rows stored (user_text s) S (snd (db_insert engine prefix ?qi S))"
    "others_kept rows stored (user_text s) S (snd (db_update engine prefix (insert_what ?m2 ?w) S))"
    using statements_keep_others(3,4) [OF assms(1)] by blast+
  moreover have "(L1 = L \<and> S1 = S) \<or> (L1 = L\<lparr>lb_record := ?m1\<rparr> \<and> S1 = snd (db_insert engine prefix ?qi S))
    \<or> (L1 = L\<lparr>lb_record := ?m2, lb_addLog := ?w\<rparr> \<and> S1 = snd (db_update engine prefix (insert_what ?m2 ?w) S))"
    using assms(6) by (auto simp: add_row_def at Let_def split: prod.splits if_splits)
  moreover have "logbook_ready cols (L\<lparr>lb_record := ?m2, lb_addLog := ?w\<rparr>)"
    using assms(3) by (auto simp: logbook_ready_def insert_where_def smap_set_keys sm.inv_put)
  ultimately show ?thesis
    using assms(3,4) maps by (elim disjE conjE) (simp_all add: logbook_ready_record)
qed

lemma add_rows_keep_others:
  assumes "sql_table engine prefix cols rows stored" and "logbook_names cols" and "set header \<subseteq> set cols"
  shows "logbook_ready cols L \<Longrightarrow> on_columns cols (lb_record L) \<Longrightarrow>
    add_rows engine prefix last_id s header data reply L S = (r, L1, S1) \<Longrightarrow>
    logbook_ready cols L1 \<and> others_kept rows stored (user_text s) S S1"
proof (induction data arbitrary: reply L S)
  case (Cons row data)
  obtain cont r2 L2 S2 where step: "add_row engine prefix last_id s header row reply L S = (cont, r2, L2, S2)"
    by (metis prod_cases4)
  have "logbook_ready cols L2 \<and> on_columns cols (lb_record L2) \<and> others_kept rows stored (user_text s) S S2"
    by (rule add_row_keeps_others [OF assms(1,2) Cons.prems(1,2) assms(3) step])
  with Cons.IH [of L2 r2 S2] Cons.prems(3) step show ?case
    by (auto split: if_splits intro: others_kept_trans)
qed simp

lemma remove_ids_keep_others:
  assumes "sql_table engine prefix cols rows stored" and "logbook_names cols"
  shows "logbook_ready cols L \<Longrightarrow> remove_ids engine prefix s ids L S = (L1, S1) \<Longrightarrow>
    logbook_ready cols L1 \<and> others_kept rows stored (user_text s) S S1"
proof (induction ids arbitrary: L S)
  case (Cons i ids)
  let ?q = "select_where ''user_id'' (user_text s) (select_where ''id'' i (lb_removeLog L))"
  have q: "statement_ok cols (user_text s) (Q_remove ?q)"
    using Cons.prems(1) assms(2)
    by (simp add: logbook_ready_def select_where_def sm.get_put on_columns_set logbook_names_def)
  moreover have "logbook_ready cols (L\<lparr>lb_removeLog := ?q\<rparr>)"
    using Cons.prems(1) q by (simp add: logbook_ready_def)
  ultimately show ?case
    using Cons.IH [of "L\<lparr>lb_removeLog := ?q\<rparr>"] Cons.prems(2) statements_keep_others(2) [OF assms(1), of "user_text s" ?q S]
    by (auto simp: Let_def intro: others_kept_trans)
qed simp

end
