(* ===== verification/SqlModel.thy ===== *)
theory SqlModel
  imports Database
begin

text \<open>
  A small interpreter of the statements of the logbook: it reads the names of the columns back from the
  text of a statement and works on a list of rows. It has what the theory \<open>Database\<close> asks of SQLite, so
  that this can be had.
\<close>

subsection \<open>Reading a statement\<close>

definition is_name_char :: "char \<Rightarrow> bool" where
  "is_name_char c \<longleftrightarrow> (CHR ''a'' \<le> c \<and> c \<le> CHR ''z'') \<or> c = CHR ''_''"

definition is_name :: "string \<Rightarrow> bool" where
  "is_name n \<longleftrightarrow> n \<noteq> [] \<and> list_all is_name_char n"

text \<open>The name before the equals sign that ends a text.\<close>

definition param_name :: "string \<Rightarrow> string" where
  "param_name p = rev (takeWhile is_name_char (tl (rev p)))"

lemma takeWhile_stops: "list_all P xs \<Longrightarrow> \<not> P y \<Longrightarrow> takeWhile P (xs @ y # ys) = xs"
  by (induction xs) auto

lemma takeWhile_prefix: "list_all P xs \<Longrightarrow> list_all (\<lambda>y. \<not> P y) ys \<Longrightarrow> takeWhile P (xs @ ys) = xs"
  by (cases ys) (simp_all add: takeWhile_stops takeWhile_eq_all_conv list_all_iff)

lemma param_name_value: "is_name n \<Longrightarrow> \<not> is_name_char c \<Longrightarrow> param_name (x @ [c] @ n @ ''='') = n"
  by (simp add: param_name_def is_name_def takeWhile_stops list_all_iff del: takeWhile_append2)

lemma special_not_name [simp]:
  "\<not> is_name_char (CHR '' '')" "\<not> is_name_char (CHR '','')" "\<not> is_name_char (CHR ''?'')" "\<not> is_name_char (CHR ''('')"
  "\<not> is_name_char (CHR '')'')" "\<not> is_name_char NUL"
  by (simp_all add: is_name_char_def)

lemma name_no: "is_name n \<Longrightarrow> \<not> is_name_char c \<Longrightarrow> c \<notin> set n"
  by (auto simp: is_name_def list_all_iff)

lemma name_no_param: "is_name n \<Longrightarrow> no_param n"
  using name_no [of n "CHR ''?''"] by (simp add: no_param_def)

abbreviation names_of :: "smap \<Rightarrow> bool" where
  "names_of m \<equiv> list_all (\<lambda>(n, _). is_name n) m"

lemma where_pieces:
  "names_of w \<Longrightarrow> map param_name (split_params pre (concat (map (\<lambda>(n, _). '' '' @ n @ ''=? AND'') w) @ '' 1;'')) = map fst w"
proof (induction w arbitrary: pre)
  case Nil
  then show ?case by (simp add: split_params_end)
next
  case (Cons x w)
  obtain n v where x: "x = (n, v)" by (cases x)
  let ?rest = "'' AND'' @ concat (map (\<lambda>(n, _). '' '' @ n @ ''=? AND'') w) @ '' 1;''"
  have n: "is_name n" using Cons.prems x by simp
  have "split_params pre (concat (map (\<lambda>(n, _). '' '' @ n @ ''=? AND'') (x # w)) @ '' 1;'')
      = split_params pre (('' '' @ n @ ''='') @ ''?'' @ ?rest)"
    by (simp add: x)
  also have "\<dots> = (pre @ '' '' @ n @ ''='') # split_params [] ?rest"
    using name_no_param [OF n] by (subst split_params_plain) simp_all
  also have "split_params [] ?rest
      = split_params '' AND'' (concat (map (\<lambda>(n, _). '' '' @ n @ ''=? AND'') w) @ '' 1;'')"
    by (subst split_params_plain) simp_all
  finally show ?case
    using Cons param_name_value [OF n, of "CHR '' ''" pre] x by simp
qed

lemma where_sql_names:
  assumes "names_of w" and "no_param pre"
  shows "map param_name (split_params [] (pre @ where_sql w)) = map fst w"
proof -
  have "split_params [] (pre @ where_sql w)
      = split_params (pre @ '' WHERE'') (concat (map (\<lambda>(n, _). '' '' @ n @ ''=? AND'') w) @ '' 1;'')"
    using assms(2) split_params_plain [of "pre @ '' WHERE''" "[]"] unfolding where_sql_def by simp
  then show ?thesis using where_pieces [OF assms(1)] by simp
qed

lemma where_first:
  "names_of w \<Longrightarrow> list_all (\<lambda>p. hd p = CHR '' '') (split_params [] (where_sql w))"
proof -
  have "names_of w \<Longrightarrow> hd pre = CHR '' '' \<Longrightarrow> pre \<noteq> [] \<Longrightarrow>
      list_all (\<lambda>p. hd p = CHR '' '') (split_params pre (concat (map (\<lambda>(n, _). '' '' @ n @ ''=? AND'') w) @ '' 1;''))" for pre
  proof (induction w arbitrary: pre)
    case Nil
    then show ?case by (simp add: split_params_end)
  next
    case (Cons x w)
    obtain n v where x: "x = (n, v)" by (cases x)
    have "no_param ('' '' @ n @ ''='')" using Cons.prems x by (simp add: name_no_param)
    from split_params_plain [OF this, of pre "''? AND'' @ concat (map (\<lambda>(n, _). '' '' @ n @ ''=? AND'') w) @ '' 1;''"]
    have "split_params pre (concat (map (\<lambda>(n, _). '' '' @ n @ ''=? AND'') (x # w)) @ '' 1;'')
      = (pre @ '' '' @ n @ ''='') # split_params '' AND'' (concat (map (\<lambda>(n, _). '' '' @ n @ ''=? AND'') w) @ '' 1;'')"
      by (simp add: x)
    then show ?case using Cons by simp
  qed
  from this [of "'' WHERE''"] show "names_of w \<Longrightarrow> ?thesis"
    using split_params_plain [of "'' WHERE''" "[]"] by (simp add: where_sql_def)
qed

text \<open>The assignments of an \<open>UPDATE\<close>: those after the first follow a comma.\<close>

lemma butlast_assignments:
  "butlast (x @ concat (map (\<lambda>(n, _). n @ ''=?,'') ((n, v) # m))) = x @ n @ ''=?'' @ concat (map (\<lambda>(n, _). '','' @ n @ ''=?'') m)"
proof (induction m arbitrary: x n v)
  case Nil
  then show ?case by (simp add: butlast_append)
next
  case (Cons y m)
  obtain a w where "y = (a, w)" by (cases y)
  with Cons.IH [of "x @ n @ ''=?,''" a w] show ?case by simp
qed

lemma set_pieces:
  "names_of m \<Longrightarrow> split_params [] (concat (map (\<lambda>(n, _). '','' @ n @ ''=?'') m) @ t)
    = map (\<lambda>(n, _). '','' @ n @ ''='') m @ split_params [] t"
proof (induction m)
  case (Cons x m)
  obtain n v where x: "x = (n, v)" by (cases x)
  have "no_param ('','' @ n @ ''='')" using Cons.prems x by (simp add: name_no_param)
  from split_params_plain [OF this, of "[]" "''?'' @ concat (map (\<lambda>(n, _). '','' @ n @ ''=?'') m) @ t"]
  show ?case using Cons x by simp
qed simp

definition update_start :: string where
  "update_start = ''UPDATE logbook SET ''"

lemma update_pieces:
  assumes "ins_table q = ''logbook''" and "ins_row q = (n, v) # m" and "names_of (ins_row q)"
  shows "split_params [] (update_sql [] q) = (update_start @ n @ ''='') # map (\<lambda>(n, _). '','' @ n @ ''='') m
    @ split_params [] (where_sql (ins_where q))"
proof -
  have "update_sql [] q = update_start @ n @ ''=?'' @ concat (map (\<lambda>(n, _). '','' @ n @ ''=?'') m) @ where_sql (ins_where q)"
    using butlast_assignments [of update_start n v m] assms(1,2) by (simp add: update_sql_def update_start_def)
  moreover have "no_param (update_start @ n @ ''='')" using assms(2,3) by (simp add: update_start_def name_no_param)
  from split_params_plain [OF this, of "[]" "''?'' @ concat (map (\<lambda>(n, _). '','' @ n @ ''=?'') m) @ where_sql (ins_where q)"]
  have "split_params [] (update_start @ n @ ''=?'' @ concat (map (\<lambda>(n, _). '','' @ n @ ''=?'') m) @ where_sql (ins_where q))
    = (update_start @ n @ ''='') # split_params [] (concat (map (\<lambda>(n, _). '','' @ n @ ''=?'') m) @ where_sql (ins_where q))"
    by simp
  ultimately show ?thesis using set_pieces [of m] assms(2,3) by simp
qed

text \<open>The columns of an \<open>INSERT\<close>: between the first parentheses.\<close>

fun commas :: "string \<Rightarrow> string \<Rightarrow> string list" where
  "commas f [] = [f]"
| "commas f (c # s) = (if c = CHR '','' then f # commas [] s else commas (f @ [c]) s)"

definition insert_names :: "string \<Rightarrow> string list" where
  "insert_names sql = commas [] (takeWhile (\<lambda>c. c \<noteq> CHR '')'') (tl (dropWhile (\<lambda>c. c \<noteq> CHR ''('') sql)))"

lemma commas_name: "CHR '','' \<notin> set n \<Longrightarrow> commas f (n @ s) = commas (f @ n) s"
  by (induction n arbitrary: f) auto

lemma commas_names:
  "names_of ((n, v) # m) \<Longrightarrow> commas [] (n @ concat (map (\<lambda>(n, _). '','' @ n) m)) = n # map fst m"
proof (induction m arbitrary: n v)
  case Nil
  then show ?case using commas_name [of n "[]" "[]"] name_no [of n] by simp
next
  case (Cons y m)
  obtain a w where "y = (a, w)" by (cases y)
  with Cons.IH [of a w] Cons.prems commas_name [of n "[]" "'','' @ a @ concat (map (\<lambda>(n, _). '','' @ n) m)"] name_no [of n]
  show ?case by simp
qed

lemma butlast_columns:
  "butlast (x @ concat (map (\<lambda>(n, _). n @ '','') ((n, v) # m))) = x @ n @ concat (map (\<lambda>(n, _). '','' @ n) m)"
proof (induction m arbitrary: x n v)
  case Nil
  then show ?case by (simp add: butlast_append)
next
  case (Cons y m)
  obtain a w where "y = (a, w)" by (cases y)
  with Cons.IH [of "x @ n @ '',''" a w] show ?case by simp
qed

lemma insert_sql_names:
  assumes "ins_table q = ''logbook''" and "ins_row q \<noteq> []" and "names_of (ins_row q)"
  shows "insert_names (insert_sql [] q) = map fst (ins_row q)"
proof -
  obtain n v m where row: "ins_row q = (n, v) # m" using assms(2) by (metis neq_Nil_conv surj_pair)
  let ?names = "n @ concat (map (\<lambda>(n, _). '','' @ n) m)"
  have "insert_sql [] q = butlast ((''INSERT INTO logbook ('' @ ?names @ '') VALUES ('') @ concat (map (\<lambda>_. ''?,'') (ins_row q))) @ '');''"
    using butlast_columns [of "''INSERT INTO logbook (''" n v m] assms(1) row by (simp add: insert_sql_def)
  moreover have "\<exists>t. butlast ((''INSERT INTO logbook ('' @ ?names @ '') VALUES ('') @ concat (map (\<lambda>_. ''?,'') (ins_row q)))
      = ''INSERT INTO logbook ('' @ ?names @ '')'' @ t"
    by (simp add: butlast_append row)
  ultimately obtain t where sql: "insert_sql [] q = ''INSERT INTO logbook ('' @ ?names @ CHR '')'' # t" by auto
  have "list_all (\<lambda>c. c \<noteq> CHR '')'') ?names"
    using assms(3) row name_no [of _ "CHR '')''"] by (fastforce simp: list_all_iff)
  then have "takeWhile (\<lambda>c. c \<noteq> CHR '')'') (?names @ CHR '')'' # t) = ?names" by (rule takeWhile_stops) simp
  then show ?thesis
    using commas_names [of n v m] assms(3) row by (simp add: insert_names_def sql)
qed

subsection \<open>Running a statement\<close>

abbreviation as_bound :: "string \<Rightarrow> string \<Rightarrow> string" where
  "as_bound \<equiv> \<lambda>c v. v"

definition new_row :: "row list \<Rightarrow> smap \<Rightarrow> row" where
  "new_row db m = assigned as_bound m (\<lambda>c. if c = ''id'' then Some (dec (Suc (length db))) else None)"

definition update_run :: "string list \<Rightarrow> smap \<Rightarrow> row list \<Rightarrow> sql_result \<times> row list" where
  "update_run pieces w db = (case pieces of
     [] \<Rightarrow> (Not_prepared, db)
   | p # ps \<Rightarrow>
       if p \<noteq> update_start @ param_name p @ ''='' then (Not_prepared, db)
       else let k = Suc (length (takeWhile (\<lambda>p. hd p = CHR '','') ps))
         in (Rows [] True, map (\<lambda>r. if matches as_bound (drop k w) r then assigned as_bound (take k w) r else r) db))"

definition sql_run :: "string list \<Rightarrow> row list engine" where
  "sql_run cols sql values db =
     (let pieces = split_params [] sql; w = zip (map param_name pieces) values
      in if take 6 sql = ''SELECT'' then
           (Rows (map (\<lambda>r. map r cols) (filter (matches as_bound w) db)) True, db)
         else if take 6 sql = ''DELETE'' then (Rows [] True, filter (\<lambda>r. \<not> matches as_bound w r) db)
         else if take 6 sql = ''INSERT'' then (Rows [] True, db @ [new_row db (zip (insert_names sql) values)])
         else update_run pieces w db)"

lemma cstr_cstr [simp]: "cstr (cstr s) = cstr s"
  by simp

lemma zip_bound:
  "zip (map fst w) (map cstr (map snd w)) = map (\<lambda>(n, v). (n, cstr v)) w"
  "zip (map fst w) (map (cstr \<circ> snd) w) = map (\<lambda>(n, v). (n, cstr v)) w"
  by (induction w) auto

lemma matches_bound: "matches as_bound (map (\<lambda>(n, v). (n, cstr v)) w) = matches as_bound w"
  by (auto simp: matches_def fun_eq_iff)

lemma assigned_bound: "assigned as_bound (map (\<lambda>(n, v). (n, cstr v)) m) = assigned as_bound m"
proof -
  have "smap_get (map (\<lambda>(n, v). (n, cstr v)) m) c = map_option cstr (smap_get m c)" for c
    by (induction m) (auto simp: smap_get_def)
  then show ?thesis by (auto simp: assigned_def fun_eq_iff split: option.split)
qed

lemma assigned_matches: "smap_inv m \<Longrightarrow> matches as_bound m (assigned as_bound m r)"
  by (auto simp: matches_def assigned_def sm.entries_get split: option.split)

lemma columns_names: "list_all is_name cols \<Longrightarrow> on_columns cols m \<Longrightarrow> names_of m"
  by (auto simp: on_columns_def list_all_iff)

lemma names_no_nul: "names_of m \<Longrightarrow> no_nul (concat (map (\<lambda>(n, _). a @ n @ b) m))" if "no_nul a" and "no_nul b"
  using that by (induction m) (auto simp: no_nul_def dest: name_no [of _ NUL])

lemma no_nul_butlast: "no_nul s \<Longrightarrow> no_nul (butlast s)"
  by (auto simp: no_nul_def dest: in_set_butlastD)

lemma statements_no_nul:
  assumes "names_of w" and "names_of m"
  shows "no_nul (where_sql w)"
    and "sel_table q = ''logbook'' \<Longrightarrow> sel_what q = [] \<Longrightarrow> sel_where q = w \<Longrightarrow> no_nul (select_sql [] q)"
    and "sel_table q = ''logbook'' \<Longrightarrow> sel_where q = w \<Longrightarrow> no_nul (remove_sql [] q)"
    and "ins_table i = ''logbook'' \<Longrightarrow> ins_row i = m \<Longrightarrow> no_nul (insert_sql [] i)"
    and "ins_table i = ''logbook'' \<Longrightarrow> ins_row i = m \<Longrightarrow> ins_where i = w \<Longrightarrow> no_nul (update_sql [] i)"
proof -
  show wh: "no_nul (where_sql w)" using names_no_nul [OF _ _ assms(1), of "'' ''" "''=? AND''"] by (simp add: where_sql_def)
  have qs: "no_nul (concat (map (\<lambda>_. ''?,'') m))" by (induction m) auto
  have cols: "no_nul (concat (map (\<lambda>(n, _). n @ '','') m))" "no_nul (concat (map (\<lambda>(n, _). n @ ''=?,'') m))"
    using names_no_nul [OF _ _ assms(2), of "[]" "'',''"] names_no_nul [OF _ _ assms(2), of "[]" "''=?,''"] by simp_all
  show "sel_table q = ''logbook'' \<Longrightarrow> sel_what q = [] \<Longrightarrow> sel_where q = w \<Longrightarrow> no_nul (select_sql [] q)"
    "sel_table q = ''logbook'' \<Longrightarrow> sel_where q = w \<Longrightarrow> no_nul (remove_sql [] q)"
    using wh by (simp_all add: select_sql_def remove_sql_def)
  show "ins_table i = ''logbook'' \<Longrightarrow> ins_row i = m \<Longrightarrow> no_nul (insert_sql [] i)"
    unfolding insert_sql_def using cols qs by (simp add: no_nul_butlast)
  show "ins_table i = ''logbook'' \<Longrightarrow> ins_row i = m \<Longrightarrow> ins_where i = w \<Longrightarrow> no_nul (update_sql [] i)"
    unfolding update_sql_def using cols wh by (simp add: no_nul_butlast)
qed

lemma run_select:
  assumes "list_all is_name cols"
  shows "selects (sql_run cols) [] cols mset as_bound"
  unfolding selects_def
proof (intro allI impI, elim conjE)
  fix q :: select_query and db :: "row list"
  assume q: "sel_table q = ''logbook''" "sel_what q = []" "on_columns cols (sel_where q)"
  have w: "names_of (sel_where q)" by (rule columns_names [OF assms q(3)])
  have sql: "select_sql [] q = ''SELECT *  FROM logbook'' @ (if sel_where q = [] then '';'' else where_sql (sel_where q))"
    using q(1,2) by (simp add: select_sql_def)
  have names: "map param_name (split_params [] (select_sql [] q)) = map fst (sel_where q)"
    using where_sql_names [OF w, of "''SELECT *  FROM logbook''"] unfolding sql by (auto simp: split_params_end)
  have kind: "take 6 (select_sql [] q) = ''SELECT''" unfolding sql by simp
  show "case run_statement (sql_run cols) (select_sql [] q) (map snd (sel_where q)) db of (res, db1) \<Rightarrow>
      mset db1 = mset db \<and> (\<forall>out. res = Rows out True \<longrightarrow>
        (\<exists>rs. out = map (\<lambda>r. map r cols) rs \<and> mset rs = filter_mset (matches as_bound (sel_where q)) (mset db)))"
    using statements_no_nul(2) [OF w, of "[]"] q names kind
    by (auto simp: run_statement_def sql_run_def Let_def zip_bound matches_bound)
qed

lemma run_remove:
  assumes "list_all is_name cols"
  shows "removes (sql_run cols) [] cols mset as_bound"
  unfolding removes_def
proof (intro allI impI, elim conjE)
  fix q :: select_query and db :: "row list"
  assume q: "sel_table q = ''logbook''" "on_columns cols (sel_where q)"
  have w: "names_of (sel_where q)" by (rule columns_names [OF assms q(2)])
  have sql: "remove_sql [] q = ''DELETE FROM logbook'' @ where_sql (sel_where q)" using q(1) by (simp add: remove_sql_def)
  have names: "map param_name (split_params [] (remove_sql [] q)) = map fst (sel_where q)"
    unfolding sql by (rule where_sql_names [OF w]) simp
  have kind: "take 6 (remove_sql [] q) = ''DELETE''" unfolding sql by simp
  show "case run_statement (sql_run cols) (remove_sql [] q) (map snd (sel_where q)) db of (res, db1) \<Rightarrow>
      if res = Rows [] True then mset db1 = filter_mset (\<lambda>r. \<not> matches as_bound (sel_where q) r) (mset db) else mset db1 = mset db"
    using statements_no_nul(3) [OF w, of "[]"] q names kind
    by (simp add: run_statement_def sql_run_def Let_def zip_bound matches_bound)
qed

lemma run_insert:
  assumes "list_all is_name cols"
  shows "inserts (sql_run cols) [] cols mset as_bound"
  unfolding inserts_def
proof (intro allI impI, elim conjE)
  fix q :: insert_query and db :: "row list"
  assume q: "ins_table q = ''logbook''" "on_columns cols (ins_row q)" "ins_row q \<noteq> []"
  have m: "names_of (ins_row q)" by (rule columns_names [OF assms q(2)])
  have kind: "take 6 (insert_sql [] q) = ''INSERT''"
    using q(1,3) by (cases "ins_row q") (auto simp: insert_sql_def butlast_append)
  have "matches as_bound (ins_row q) (new_row db (ins_row q))"
    using q(2) assigned_matches [of "ins_row q"] by (simp add: new_row_def on_columns_def)
  then show "case run_statement (sql_run cols) (insert_sql [] q) (map snd (ins_row q)) db of (res, db1) \<Rightarrow>
      if res = Rows [] True then \<exists>r. matches as_bound (ins_row q) r \<and> mset db1 = add_mset r (mset db) else mset db1 = mset db"
    using statements_no_nul(4) [OF _ m, of "[]"] q insert_sql_names [OF q(1,3) m] kind
    by (auto simp: run_statement_def sql_run_def Let_def zip_bound new_row_def assigned_bound)
qed

lemma not_assigned:
  assumes "names_of w"
  shows "case split_params [] (''UPDATE logbook SET'' @ where_sql w) of
     [] \<Rightarrow> True | p # ps \<Rightarrow> p \<noteq> update_start @ param_name p @ ''=''"
proof (cases "split_params [] (''UPDATE logbook SET'' @ where_sql w)")
  case (Cons p ps)
  obtain n v w1 where w: "w = (n, v) # w1"
    using Cons by (cases w) (auto simp: where_sql_def split_params_end)
  have n: "is_name n" using assms w by simp
  have "no_param (update_start @ ''WHERE '' @ n @ ''='')" using n by (simp add: name_no_param update_start_def)
  from split_params_plain [OF this, of "[]"] Cons
  have "p = update_start @ ''WHERE '' @ n @ ''=''" by (simp add: w where_sql_def update_start_def)
  moreover from this have "param_name p = n" using param_name_value [OF n, of "CHR '' ''" "update_start @ ''WHERE''"] by simp
  moreover have "CHR ''W'' \<notin> set n" using n by (rule name_no) (simp add: is_name_char_def)
  ultimately show ?thesis using Cons by (cases n) auto
qed simp

lemma run_update:
  assumes "list_all is_name cols"
  shows "updates (sql_run cols) [] cols mset as_bound"
  unfolding updates_def
proof (intro allI impI, elim conjE)
  fix q :: insert_query and db :: "row list"
  assume q: "ins_table q = ''logbook''" "on_columns cols (ins_row q)" "on_columns cols (ins_where q)"
  have m: "names_of (ins_row q)" and w: "names_of (ins_where q)" using columns_names [OF assms] q(2,3) by blast+
  have sql: "cstr (update_sql [] q) = update_sql [] q" using statements_no_nul(5) [OF w m, of q] q(1) by simp
  have kind: "take 6 (update_sql [] q) = ''UPDATE''"
    using q(1) by (simp add: update_sql_def butlast_append)
  let ?sets = "\<lambda>r. if matches as_bound (ins_where q) r then assigned as_bound (ins_row q) r else r"
  show "case run_statement (sql_run cols) (update_sql [] q) (map snd (ins_row q) @ map snd (ins_where q)) db of (res, db1) \<Rightarrow>
      if res = Rows [] True \<and> ins_row q \<noteq> [] then mset db1 = image_mset ?sets (mset db) else mset db1 = mset db"
  proof (cases "ins_row q")
    case Nil
    then have "update_sql [] q = ''UPDATE logbook SET'' @ where_sql (ins_where q)"
      using q(1) by (simp add: update_sql_def)
    with not_assigned [OF w] sql kind Nil show ?thesis
      by (auto simp: run_statement_def sql_run_def update_run_def Let_def split: list.splits)
  next
    case (Cons x m1)
    obtain n v where row: "ins_row q = (n, v) # m1" using Cons by (cases x) auto
    let ?ps = "map (\<lambda>(n, _). '','' @ n @ ''='') m1 @ split_params [] (where_sql (ins_where q))"
    have pieces: "split_params [] (update_sql [] q) = (update_start @ n @ ''='') # ?ps"
      by (rule update_pieces [OF q(1) row m])
    have n: "is_name n" "names_of m1" using m row by simp_all
    have first: "param_name (update_start @ n @ ''='') = n"
      using param_name_value [OF n(1), of "CHR '' ''" "''UPDATE logbook SET''"] by (simp add: update_start_def)
    have "map (\<lambda>(n, _). param_name ('','' @ n @ ''='')) m1 = map fst m1"
      using n(2) param_name_value [of _ "CHR '',''" "[]"] by (auto simp: list_all_iff)
    then have rest: "map param_name ?ps = map fst m1 @ map fst (ins_where q)"
      using where_sql_names [OF w, of "[]"] by (simp add: comp_def case_prod_beta)
    have "takeWhile (\<lambda>p. hd p = CHR '','') ?ps = map (\<lambda>(n, _). '','' @ n @ ''='') m1"
      using where_first [OF w] by (intro takeWhile_prefix) (auto simp: list_all_iff)
    then have count: "length (takeWhile (\<lambda>p. hd p = CHR '','') ?ps) = length m1" by simp
    let ?bind = "map (\<lambda>(n, v). (n, cstr v))" and ?bound = "map cstr (map snd (ins_row q) @ map snd (ins_where q))"
    have "zip (n # map fst m1 @ map fst (ins_where q)) ?bound = ?bind (ins_row q) @ ?bind (ins_where q)"
      using zip_bound(1) [of "ins_row q @ ins_where q"] row by simp
    then have names: "zip (map param_name (split_params [] (update_sql [] q))) ?bound = ?bind (ins_row q) @ ?bind (ins_where q)"
      unfolding pieces list.map(2) first rest .
    have "update_run (split_params [] (update_sql [] q)) (?bind (ins_row q) @ ?bind (ins_where q)) db = (Rows [] True, map ?sets db)"
      unfolding pieces update_run_def list.case first count Let_def by (simp add: row matches_bound assigned_bound [of "(n, v) # m1", simplified])
    then have "sql_run cols (update_sql [] q) ?bound db = (Rows [] True, map ?sets db)"
      unfolding sql_run_def Let_def names kind by simp
    then show ?thesis using row sql by (simp add: run_statement_def)
  qed
qed

lemma sql_run_table: "list_all is_name cols \<Longrightarrow> sql_table (sql_run cols) [] cols mset as_bound"
  by (simp add: sql_table_def run_select run_remove run_insert run_update)

end
