(* ===== verification/Records.thy ===== *)
theory Records
  imports SqlModel QtFetch
begin

text \<open>
  The records of a user between the table of the interface and the rows of the database: what an edit
  changes, what is shown after it, and that nothing of this touches the rows of other users.
\<close>

subsection \<open>An edit in the database\<close>

text \<open>The row after an edit: the columns of the header get the texts of the record, but not its id and its user.\<close>

definition edited :: "(string \<Rightarrow> string \<Rightarrow> string) \<Rightarrow> string list \<Rightarrow> string list \<Rightarrow> row \<Rightarrow> row" where
  "edited stored header line r = (\<lambda>c.
     if c = ''id'' \<or> c = ''user_id'' then r c
     else case map_of (zip header line) c of Some v \<Rightarrow> Some (stored c (cstr v)) | None \<Rightarrow> r c)"

definition has_id :: "(string \<Rightarrow> string \<Rightarrow> string) \<Rightarrow> string \<Rightarrow> row \<Rightarrow> bool" where
  "has_id stored i r \<longleftrightarrow> r ''id'' = Some (stored ''id'' (cstr i))"

lemma matches_owner:
  assumes "smap_inv w" and "fst ` set w \<subseteq> {''id'', ''user_id''}"
    and "smap_get w ''id'' = Some i" and "smap_get w ''user_id'' = Some u"
  shows "matches stored w r \<longleftrightarrow> has_id stored i r \<and> r ''user_id'' = Some (stored ''user_id'' (cstr u))"
proof -
  have "set w = {(''id'', i), (''user_id'', u)}"
  proof (intro equalityI subsetI)
    fix x
    assume x: "x \<in> set w"
    obtain c v where "x = (c, v)" by (cases x)
    moreover from this x have "smap_get w c = Some v" "c \<in> {''id'', ''user_id''}"
      using sm.entries_get [OF assms(1)] assms(2) by force+
    ultimately show "x \<in> {(''id'', i), (''user_id'', u)}" using assms(3,4) by auto
  qed (use assms(3,4) sm.entries_get [OF assms(1)] in auto)
  then show ?thesis by (simp add: matches_def has_id_def)
qed

lemma add_row_updates:
  assumes "sql_table engine prefix cols rows stored" and "logbook_names cols" and "logbook_ready cols L"
    and "distinct header" and "hd header = ''id''" and "header \<noteq> []" and "length header = length line"
    and "set header \<subseteq> set cols" and "lb_record L = []" and "hd line \<noteq> ''-1''"
    and "add_row engine prefix last_id s header line (server_reply_new 200 ty) L S = (cont, r, L1, S1)" and "sr_status r = 200"
  shows "rows (st_db S1) = image_mset (\<lambda>r. if has_id stored (hd line) r
      \<and> r ''user_id'' = Some (stored ''user_id'' (cstr (user_text s))) then edited stored header line r else r) (rows (st_db S))"
proof -
  let ?m = "set_columns header line []"
  let ?w = "insert_where ''id'' (hd line) (insert_where ''user_id'' (user_text s) (lb_addLog L))"
  let ?q = "insert_what (smap_erase ''id'' (smap_erase ''user_id'' ?m)) ?w"
  have get: "smap_get ?m n = map_of (zip header line) n" for n
    using set_columns_get [OF assms(4,7), of "[]" n] by (simp split: option.splits)
  have "map_of (zip header line) ''id'' = Some (hd line)"
    using assms(5-7) by (cases header; cases line) auto
  then have at: "smap_at ''id'' ?m = (hd line, ?m)" by (simp add: smap_at_def get)
  have "line \<noteq> []" using assms(6,7) by auto
  then have db: "db_update engine prefix ?q S = (True, S1)"
    using assms(7,9-12) at
    by (auto simp: add_row_def Let_def bad_input_def setStatus_def setContent_def server_reply_new_def split: prod.splits if_splits)
  have m: "on_columns cols ?m" using on_columns_set_columns [OF assms(8)] by simp
  have names: "''id'' \<in> set cols" "''user_id'' \<in> set cols" using assms(2) by (simp_all add: logbook_names_def)
  have w: "smap_inv (ins_where ?q)" "fst ` set (ins_where ?q) \<subseteq> {''id'', ''user_id''}"
    using assms(3) by (auto simp: logbook_ready_def insert_what_def insert_where_def sm.inv_put smap_set_keys)
  have "on_columns cols (ins_where ?q)" using w names by (auto simp: on_columns_def)
  moreover have "ins_table ?q = ''logbook''" "on_columns cols (ins_row ?q)"
    using assms(3) m by (simp_all add: logbook_ready_def insert_what_def insert_where_def on_columns_erase)
  ultimately have ok: "ins_table ?q = ''logbook''" "on_columns cols (ins_row ?q)" "on_columns cols (ins_where ?q)"
    by simp_all
  have matches: "matches stored (ins_where ?q) r \<longleftrightarrow> has_id stored (hd line) r
      \<and> r ''user_id'' = Some (stored ''user_id'' (cstr (user_text s)))" for r
    by (rule matches_owner [OF w]) (simp_all add: insert_what_def insert_where_def sm.get_put)
  have assigned: "assigned stored (ins_row ?q) = edited stored header line"
    by (auto simp: assigned_def edited_def insert_what_def sm.get_del get fun_eq_iff split: option.split)
  show ?thesis using update_done [OF assms(1) ok db] by (simp only: matches assigned)
qed

lemma logbook_add_updates:
  assumes "sql_table engine prefix cols rows stored" and "logbook_names cols" and "logbook_ready cols L"
    and "distinct header" and "hd header = ''id''" and "plain_rows [header, line]" and "length header = length line"
    and "set header \<subseteq> set cols" and "hd line \<noteq> ''-1''"
    and "s_uri req = ''/logbook/add''" and "s_content req = record_table [header, line]"
    and "logbook_handle engine prefix last_id s req (server_reply_new 200 ty) L S = (handled, r, L1, S1)" and "sr_status r = 200"
  shows "logbook_ready cols L1 \<and> rows (st_db S1) = image_mset (\<lambda>r. if has_id stored (hd line) r
      \<and> r ''user_id'' = Some (stored ''user_id'' (cstr (user_text s))) then edited stored header line r else r) (rows (st_db S))"
proof -
  let ?L = "L\<lparr>lb_record := []\<rparr>"
  have parsed: "logbook_parse (s_content req) = [header, line, []]" using tables_parsed(2) [OF assms(6)] assms(11) by simp
  obtain cont where step: "add_row engine prefix last_id s header line (server_reply_new 200 ty) ?L S = (cont, r, L1, S1)"
    using assms(10,12) parsed
    by (auto simp: logbook_handle_def addLog_def add_row_def [of _ _ _ _ _ "[]"] split: prod.splits if_splits)
  have ready: "logbook_ready cols ?L" using assms(3) by (simp add: logbook_ready_record)
  have "header \<noteq> []" using assms(6) by (simp add: plain_rows_def)
  then show ?thesis
    using add_row_updates [OF assms(1,2) ready assms(4,5) _ assms(7,8) _ assms(9) step assms(13)]
      add_row_keeps_others [OF assms(1,2) ready _ assms(8) step] by simp
qed

subsection \<open>What is shown\<close>

text \<open>A row in the table of the interface: its named columns, the date as the interface shows it.\<close>

definition shown_row :: "(string \<Rightarrow> string) \<Rightarrow> row \<Rightarrow> item" where
  "shown_row from_seconds r =
     map (\<lambda>c. if c = ''qsodate'' then from_seconds (cell_text (r c)) else cell_text (r c)) record_header"

definition table_columns :: "string list" where
  "table_columns = map col'_name LogBook.logbook_columns"

lemma table_columns_props:
  "logbook_names table_columns" "take 22 table_columns = record_header" "length table_columns = 23"
  "set record_header \<subseteq> set table_columns" "list_all is_name table_columns" "hd table_columns = ''id''"
  by (simp_all add: table_columns_def LogBook.logbook_columns_def new_column_def logbook_names_def record_header_def
      is_name_def is_name_char_def)

lemma shown_item_row: "shown_item from_seconds record_header (map (\<lambda>c. cell_text (r c)) table_columns) = shown_row from_seconds r"
proof (rule nth_equalityI)
  fix j
  assume "j < length (shown_item from_seconds record_header (map (\<lambda>c. cell_text (r c)) table_columns))"
  then have j: "j < 22" by (simp add: shown_item_def record_header_props(4))
  then have "record_header ! j = table_columns ! j" using nth_take [of j 22 table_columns] table_columns_props(2) by simp
  then show "shown_item from_seconds record_header (map (\<lambda>c. cell_text (r c)) table_columns) ! j = shown_row from_seconds r ! j"
    using j by (simp add: shown_item_def shown_row_def shown_def record_header_props(4) table_columns_props(3))
qed (simp add: shown_item_def shown_row_def)

lemma distinct_of_counts: "\<forall>x. count (mset xs) x \<le> 1 \<Longrightarrow> distinct xs"
proof (induction xs)
  case (Cons a xs)
  have "count (mset xs) a = 0" using Cons.prems [rule_format, of a] by simp
  moreover have "\<forall>x. count (mset xs) x \<le> 1"
  proof
    fix x
    have "count (mset xs) x \<le> count (mset (a # xs)) x" by simp
    also have "\<dots> \<le> 1" using Cons.prems by blast
    finally show "count (mset xs) x \<le> 1" .
  qed
  ultimately show ?case using Cons.IH by (simp add: count_eq_zero_iff)
qed simp

lemma fetched_rows:
  assumes "sql_table engine prefix table_columns rows stored" and "logbook_ready table_columns L" and "s_uri req = ''/logbook''"
    and "fst (fst (db_select engine prefix (select_where ''user_id'' (user_text s) (lb_getLogs L)) S))"
    and "\<forall>r \<in># rows_of stored (user_text s) (rows (st_db S)). \<forall>c \<in> set table_columns. plain (cell_text (r c))"
    and "\<forall>x. count (image_mset (\<lambda>r. cell_text (r ''id'')) (rows_of stored (user_text s) (rows (st_db S)))) x \<le> 1"
  shows "\<exists>T1. tree_fetch_handler from_seconds
      (sr_content (fst (snd (logbook_handle engine prefix last_id s req reply L S)))) 0 T = Inr T1
    \<and> mset (tw_items T1) = image_mset (shown_row from_seconds) (rows_of stored (user_text s) (rows (st_db S)))"
proof -
  let ?q = "select_where ''user_id'' (user_text s) (lb_getLogs L)"
  obtain out S1 where db: "db_select engine prefix ?q S = ((True, out), S1)" using assms(4) by (metis prod.collapse)
  have q: "?q = \<lparr>sel_table = ''logbook'', sel_what = [], sel_where = [(''user_id'', user_text s)]\<rparr>"
    using assms(2) by (simp add: logbook_ready_def select_where_def new_select_def)
  have "on_columns table_columns [(''user_id'', user_text s)]"
    using table_columns_props(1) by (simp add: on_columns_def smap_inv_def logbook_names_def)
  moreover have "matches stored [(''user_id'', user_text s)] = (\<lambda>r. r ''user_id'' = Some (stored ''user_id'' (cstr (user_text s))))"
    by (auto simp: matches_def)
  then have "filter_mset (matches stored [(''user_id'', user_text s)]) M = rows_of stored (user_text s) M" for M
    by (simp only: rows_of_def)
  ultimately obtain rs where out: "out = map (\<lambda>r. map (\<lambda>c. cell_text (r c)) table_columns) rs"
    and rs: "mset rs = rows_of stored (user_text s) (rows (st_db S))"
    using select_done [OF assms(1), of ?q S out S1] db q by auto
  have cols: "table_columns \<noteq> []" using table_columns_props(3) by auto
  have members: "set rs = set_mset (rows_of stored (user_text s) (rows (st_db S)))" using rs by (metis set_mset_mset)
  have plain: "plain_rows out" using assms(5) cols by (auto simp: plain_rows_def out members list_all_iff)
  have wide: "list_all (\<lambda>row. 22 \<le> length row) out" by (simp add: out list_all_iff table_columns_props(3))
  have "map hd out = map (\<lambda>r. cell_text (r ''id'')) rs"
    using cols table_columns_props(6) by (auto simp: out hd_map)
  then have ids: "distinct (map hd out)" using assms(6) distinct_of_counts [of "map (\<lambda>r. cell_text (r ''id'')) rs"] rs by simp
  have "fst (snd (logbook_handle engine prefix last_id s req reply L S)) = setContent (record_table (record_header # out)) reply"
    using logbook_answer [OF assms(3) _ plain, of engine prefix s L S True last_id reply] db by auto
  moreover obtain T1 where "tree_fetch_handler from_seconds (record_table (record_header # out)) 0 T = Inr T1"
    "tw_items T1 = map (shown_item from_seconds record_header) out"
    using table_shown [OF plain wide ids] by blast
  ultimately show ?thesis by (auto simp: setContent_def out shown_item_row comp_def simp flip: rs)
qed

lemma rows_of_edited:
  "rows_of stored u (image_mset (\<lambda>r. if has_id stored i r \<and> r ''user_id'' = Some (stored ''user_id'' (cstr u))
      then edited stored header line r else r) M)
   = image_mset (\<lambda>r. if has_id stored i r then edited stored header line r else r) (rows_of stored u M)"
  by (induction M) (auto simp: rows_of_def edited_def)

subsection \<open>The properties\<close>

text \<open>
  C4. No request to the logbook touches a row of another user: whatever the request of a session holds, as
  long as the columns it names are columns of the table, the rows of all other users are the same
  when it has been handled, whether its statements succeed or fail; and the queries the module keeps
  are ready for the next request.
\<close>

theorem other_users_keep_their_rows:
  assumes "sql_table engine prefix cols rows stored" and "logbook_names cols" and "logbook_ready cols L"
    and "s_uri req = ''/logbook/add'' \<longrightarrow> set (hd (logbook_parse (s_content req))) \<subseteq> set cols"
    and "logbook_handle engine prefix last_id s req reply L S = (handled, r, L1, S1)"
  shows "rows_of_others stored (user_text s) (rows (st_db S1)) = rows_of_others stored (user_text s) (rows (st_db S))
    \<and> logbook_ready cols L1"
proof -
  have fresh: "L\<lparr>lb_getLogs := new_select ''logbook''\<rparr> = L" using assms(3) by (simp add: logbook_ready_def)
  have call: "on_columns cols (sel_where (select_where ''callsign'' c (new_select ''logbook'')))" for c
    using assms(2) on_columns_set [of cols "[]" "''callsign''" c]
    by (simp add: select_where_def new_select_def logbook_names_def)
  note send = sendLogs_keeps_others [OF assms(1-3)]
  consider (fetch) "s_uri req = ''/logbook''" "sendLogs engine prefix s reply L S = (r, L1, S1)"
    | (add) "s_uri req = ''/logbook/add''" "add_rows engine prefix last_id s (hd (logbook_parse (s_content req)))
        (tl (logbook_parse (s_content req))) reply (L\<lparr>lb_record := []\<rparr>) S = (r, L1, S1)"
    | (remove) "remove_ids engine prefix s (hd (logbook_parse (s_content req))) L S = (L1, S1)"
    | (callsign) c where "sendLogs engine prefix s reply
        (L\<lparr>lb_getLogs := select_where ''callsign'' c (lb_getLogs L)\<rparr>) S = (r, L1, S1)"
    | (other) "L1 = L" "S1 = S"
    using assms(5) by (auto simp: logbook_handle_def addLog_def removeLog_def Let_def split: if_splits)
  then have "logbook_ready cols L1 \<and> others_kept rows stored (user_text s) S S1"
  proof cases
    case fetch
    then show ?thesis using send [of "new_select ''logbook''" s reply S] fresh by (simp add: new_select_def)
  next
    case add
    with assms(3,4) show ?thesis
      by (intro add_rows_keep_others [OF assms(1,2) _ _ _ add(2)]) (simp_all add: logbook_ready_def)
  next
    case remove
    then show ?thesis by (rule remove_ids_keep_others [OF assms(1-3)])
  next
    case callsign
    then show ?thesis
      using assms(3) by (intro send [OF _ _ call]) (simp_all add: select_where_def new_select_def logbook_ready_def)
  qed (simp add: assms(3))
  then show ?thesis by (simp add: others_kept_def)
qed

text \<open>
  C5. What the user edits is what the user sees: when a column of an item with an id is changed, the server
  takes the text that the table asks the library to send, and the records are fetched again, the table
  has one item for each row of the user, in some order: the row with the item's id with the texts of
  the item in the columns of the table, as the columns of the database store them, and all other rows
  as they were.
\<close>

theorem edited_item_is_shown:
  assumes "sql_table engine prefix table_columns rows stored" and "logbook_ready table_columns L"
    and "2 \<le> col" and "plain_rows [tw_header T, item_row to_seconds T it]"
    and "distinct (tw_header T)" and "hd (tw_header T) = ''id''" and "set (tw_header T) \<subseteq> set table_columns"
    and "item_text it 0 \<noteq> []" and "item_text it 0 \<noteq> ''-1''"
    and "s_uri add = ''/logbook/add''" and "s_uri fetch = ''/logbook''"
    and after: "after = image_mset (\<lambda>r. if has_id stored (item_text it 0) r
      then edited stored (tw_header T) (item_row to_seconds T it) r else r) (rows_of stored (user_text s) (rows (st_db S)))"
    and "\<forall>r \<in># after. \<forall>c \<in> set table_columns. plain (cell_text (r c))"
    and "\<forall>x. count (image_mset (\<lambda>r. cell_text (r ''id'')) after) x \<le> 1"
  shows "\<exists>T1 data. handleItemChanged to_seconds it col T = Inr T1 \<and> tw_requests T1 = tw_requests T @ [Add_record data]
    \<and> (\<forall>r1 L1 S1. s_content add = data
        \<and> logbook_handle engine prefix last_id s add (server_reply_new 200 ty) L S = (True, r1, L1, S1) \<and> sr_status r1 = 200
        \<and> fst (fst (db_select engine prefix (select_where ''user_id'' (user_text s) (lb_getLogs L1)) S1)) \<longrightarrow>
        (\<exists>T2. tree_fetch_handler from_seconds
            (sr_content (fst (snd (logbook_handle engine prefix last_id s fetch reply L1 S1)))) 0 T1 = Inr T2
          \<and> mset (tw_items T2) = image_mset (shown_row from_seconds) after))"
proof -
  let ?line = "item_row to_seconds T it"
  obtain T1 where T1: "handleItemChanged to_seconds it col T = Inr T1"
    "tw_requests T1 = tw_requests T @ [Add_record (record_table [tw_header T, ?line])]"
    using edited_item_is_asked [OF assms(3,4)] by blast
  have ne: "tw_header T \<noteq> []" using assms(4) by (simp add: plain_rows_def)
  have hd: "hd ?line = item_text it 0" "length (tw_header T) = length ?line"
    using item_row_hd [OF ne, of to_seconds it] assms(8) by (simp_all add: item_row_def)
  have "\<exists>T2. tree_fetch_handler from_seconds
      (sr_content (fst (snd (logbook_handle engine prefix last_id s fetch reply L1 S1)))) 0 T1 = Inr T2
    \<and> mset (tw_items T2) = image_mset (shown_row from_seconds) after"
    if "s_content add = record_table [tw_header T, ?line]" "sr_status r1 = 200"
      "logbook_handle engine prefix last_id s add (server_reply_new 200 ty) L S = (True, r1, L1, S1)"
      "fst (fst (db_select engine prefix (select_where ''user_id'' (user_text s) (lb_getLogs L1)) S1))" for r1 L1 S1
  proof -
    have id: "hd ?line \<noteq> ''-1''" using hd(1) assms(9) by simp
    from logbook_add_updates [OF assms(1) table_columns_props(1) assms(2,5,6,4) hd(2) assms(7) id assms(10) that(1,3,2)]
    have ready: "logbook_ready table_columns L1" and own: "rows_of stored (user_text s) (rows (st_db S1)) = after"
      unfolding after hd(1) by (simp_all add: rows_of_edited)
    show ?thesis
      using fetched_rows [OF assms(1) ready assms(11) that(4)] assms(13,14) unfolding own by blast
  qed
  then show ?thesis using T1 by blast
qed

definition user_seven :: session where
  "user_seven = \<lparr>sess_authenticated = True, sess_id = 7, sess_username = ''u''\<rparr>"

definition three_rows :: "row list" where
  "three_rows = [(\<lambda>_. None)(''id'' \<mapsto> ''3'', ''user_id'' \<mapsto> ''7'', ''callsign'' \<mapsto> ''OK0''),
     (\<lambda>_. None)(''id'' \<mapsto> ''4'', ''user_id'' \<mapsto> ''7''), (\<lambda>_. None)(''id'' \<mapsto> ''5'', ''user_id'' \<mapsto> ''9'')]"

lemma user_seven_text: "cstr (user_text user_seven) = ''7''"
  by code_simp

theorem other_users_keep_their_rows_witness:
  "rows_of_others as_bound (user_text user_seven) (mset (st_db (snd (snd (snd (logbook_handle (sql_run table_columns) [] (\<lambda>_. 1)
       user_seven (new_request\<lparr>s_uri := ''/logbook/remove'', s_content := ''3;5'' @ [LF]\<rparr>)
       (server_reply_new 200 ''text/hamlog'') logbook0 \<lparr>st_db = three_rows, st_log = []\<rparr>))))))
   = {#(\<lambda>_. None)(''id'' \<mapsto> ''5'', ''user_id'' \<mapsto> ''9'')#}"
proof -
  have ready: "logbook_ready table_columns logbook0"
    by (simp add: logbook_ready_def logbook0_def new_select_def new_insert_def)
  obtain handled r L1 S1 where "logbook_handle (sql_run table_columns) [] (\<lambda>_. 1)
       user_seven (new_request\<lparr>s_uri := ''/logbook/remove'', s_content := ''3;5'' @ [LF]\<rparr>)
       (server_reply_new 200 ''text/hamlog'') logbook0 \<lparr>st_db = three_rows, st_log = []\<rparr> = (handled, r, L1, S1)"
    by (metis prod_cases4)
  from other_users_keep_their_rows [OF sql_run_table [OF table_columns_props(5)] table_columns_props(1) ready _ this] this
  show ?thesis by (simp add: rows_of_others_def three_rows_def user_seven_text)
qed

theorem edited_item_is_shown_witness:
  "\<exists>T1 data r1 L1 S1 T2. handleItemChanged (\<lambda>_. ''0'') [''3'', ''7'', ''2011-10-01 10:00'', ''OK1''] 3 shown_tree = Inr T1
    \<and> tw_requests T1 = [Add_record data]
    \<and> logbook_handle (sql_run table_columns) [] (\<lambda>_. 1) user_seven (new_request\<lparr>s_uri := ''/logbook/add'', s_content := data\<rparr>)
        (server_reply_new 200 ''text/hamlog'') logbook0 \<lparr>st_db = three_rows, st_log = []\<rparr> = (True, r1, L1, S1)
    \<and> tree_fetch_handler (\<lambda>_. ''noon'') (sr_content (fst (snd (logbook_handle (sql_run table_columns) [] (\<lambda>_. 1) user_seven
        (new_request\<lparr>s_uri := ''/logbook''\<rparr>) (server_reply_new 200 ''text/hamlog'') L1 S1)))) 0 T1 = Inr T2
    \<and> mset (map (\<lambda>it. (item_text it 0, item_text it 4)) (tw_items T2)) = {#(''3'', ''OK1''), (''4'', [])#}"
proof -
  let ?it = "[''3'', ''7'', ''2011-10-01 10:00'', ''OK1'']" and ?line = "[''3'', ''7'', ''0'', ''OK1'']"
  let ?data = "''id;user_id;qsodate;callsign'' @ [LF] @ ''3;7;0;OK1'' @ [LF]"
  let ?add = "new_request\<lparr>s_uri := ''/logbook/add'', s_content := ?data\<rparr>"
  let ?S = "\<lparr>st_db = three_rows, st_log = []\<rparr>" and ?reply = "server_reply_new 200 ''text/hamlog''"
  have row: "item_row (\<lambda>_. ''0'') shown_tree ?it = ?line"
    by (simp add: item_row_def shown_tree_def upt_rec item_text_def)
  have rows: "plain_rows [tw_header shown_tree, item_row (\<lambda>_. ''0'') shown_tree ?it]"
    unfolding row by (simp add: plain_rows_def shown_tree_def plain_char_def)
  have head: "distinct (tw_header shown_tree)" "hd (tw_header shown_tree) = ''id''" "set (tw_header shown_tree) \<subseteq> set table_columns"
    by (simp_all add: shown_tree_def table_columns_def LogBook.logbook_columns_def new_column_def)
  have id: "item_text ?it 0 \<noteq> []" "item_text ?it 0 \<noteq> ''-1''" by (simp_all add: item_text_def)
  have ready: "logbook_ready table_columns logbook0"
    by (simp add: logbook_ready_def logbook0_def new_select_def new_insert_def)
  have sent: "record_table [tw_header shown_tree, ?line] = ?data" by (simp add: csv_text_def field_text_def shown_tree_def)
  let ?after = "{#edited as_bound (tw_header shown_tree) ?line (three_rows ! 0), three_rows ! 1#}"
  have after: "?after = image_mset (\<lambda>r. if has_id as_bound (item_text ?it 0) r
      then edited as_bound (tw_header shown_tree) (item_row (\<lambda>_. ''0'') shown_tree ?it) r else r)
      (rows_of as_bound (user_text user_seven) (mset (st_db ?S)))"
    unfolding row by (simp add: three_rows_def rows_of_def user_seven_text has_id_def item_text_def)
  have plain: "\<forall>r \<in># ?after. \<forall>c \<in> set table_columns. plain (cell_text (r c))"
    by (simp add: table_columns_def LogBook.logbook_columns_def new_column_def edited_def cell_text_def three_rows_def
        shown_tree_def plain_char_def)
  have ids: "\<forall>x. count (image_mset (\<lambda>r. cell_text (r ''id'')) ?after) x \<le> 1"
    by (simp add: edited_def cell_text_def three_rows_def)
  have "case logbook_handle (sql_run table_columns) [] (\<lambda>_. 1) user_seven ?add ?reply logbook0 ?S of (h, r1, L1, S1) \<Rightarrow>
      h \<and> sr_status r1 = 200
      \<and> fst (fst (db_select (sql_run table_columns) [] (select_where ''user_id'' (user_text user_seven) (lb_getLogs L1)) S1))"
    by code_simp
  then obtain r1 L1 S1 where run: "logbook_handle (sql_run table_columns) [] (\<lambda>_. 1) user_seven ?add ?reply logbook0 ?S
      = (True, r1, L1, S1)" "sr_status r1 = 200"
    "fst (fst (db_select (sql_run table_columns) [] (select_where ''user_id'' (user_text user_seven) (lb_getLogs L1)) S1))"
    by (auto split: prod.splits)
  have uris: "s_uri ?add = ''/logbook/add''" "s_uri (new_request\<lparr>s_uri := ''/logbook''\<rparr>) = ''/logbook''" by simp_all
  from edited_item_is_shown [OF sql_run_table [OF table_columns_props(5)] ready _ rows head id uris after plain ids,
      of 3 "\<lambda>_. 1" "''text/hamlog''" "\<lambda>_. ''noon''" ?reply]
  obtain T1 data where T1: "handleItemChanged (\<lambda>_. ''0'') ?it 3 shown_tree = Inr T1" "tw_requests T1 = tw_requests shown_tree @ [Add_record data]"
    and shown: "s_content ?add = data \<Longrightarrow> \<exists>T2. tree_fetch_handler (\<lambda>_. ''noon'') (sr_content (fst (snd (logbook_handle
        (sql_run table_columns) [] (\<lambda>_. 1) user_seven (new_request\<lparr>s_uri := ''/logbook''\<rparr>) ?reply L1 S1)))) 0 T1 = Inr T2
      \<and> mset (tw_items T2) = image_mset (shown_row (\<lambda>_. ''noon'')) ?after"
    using run by fastforce
  have "data = ?data"
    using edited_item_is_asked [OF _ rows, of 3] T1 unfolding row sent by simp
  with shown obtain T2 where T2: "tree_fetch_handler (\<lambda>_. ''noon'') (sr_content (fst (snd (logbook_handle
        (sql_run table_columns) [] (\<lambda>_. 1) user_seven (new_request\<lparr>s_uri := ''/logbook''\<rparr>) ?reply L1 S1)))) 0 T1 = Inr T2"
      "mset (tw_items T2) = image_mset (shown_row (\<lambda>_. ''noon'')) ?after"
    by auto
  have "mset (map (\<lambda>it. (item_text it 0, item_text it 4)) (tw_items T2)) = {#(''3'', ''OK1''), (''4'', [])#}"
    unfolding mset_map T2(2)
    by (simp add: shown_row_def item_text_def record_header_def edited_def cell_text_def three_rows_def shown_tree_def)
  moreover have "tw_requests shown_tree = []" by (simp add: shown_tree_def)
  ultimately show ?thesis using T1 T2(1) run(1) \<open>data = ?data\<close> by (intro exI conjI) simp_all
qed

end
