(* ===== verification/QtEdit.thy ===== *)
theory QtEdit
  imports QtRecords
begin

text \<open>
  Editing in the table of records, \<open>ui/qt/logbooktreewidget.cpp\<close>: the delegate \<open>MyDelegate\<close> that makes the
  editor of a cell, the menu of an item, and fetching the records with one call. Of Qt the conversions
  between dates and texts are arguments, and so is what the user does in an editor or a menu.
\<close>

subsection \<open>The delegate\<close>

datatype 'd editor = Date_editor 'd | Default_editor string

definition createEditor :: "'d \<Rightarrow> nat \<Rightarrow> 'd editor" where
  "createEditor initial col = (if col = 2 then Date_editor initial else Default_editor [])"

text \<open>\<open>setDateTime\<close> of Qt ignores a date that is not valid, which \<open>fromString\<close> gives for a text it does not parse.\<close>

definition setEditorData :: "(string \<Rightarrow> 'd option) \<Rightarrow> string \<Rightarrow> 'd editor \<Rightarrow> 'd editor" where
  "setEditorData parse t e = (case e of
     Date_editor d \<Rightarrow> Date_editor (case parse t of None \<Rightarrow> d | Some d1 \<Rightarrow> d1)
   | Default_editor _ \<Rightarrow> Default_editor t)"

text \<open>The text that is set in the model; \<open>None\<close> when the index is no longer valid.\<close>

definition setModelData :: "('d \<Rightarrow> string) \<Rightarrow> bool \<Rightarrow> 'd editor \<Rightarrow> string option" where
  "setModelData print valid e = (if \<not> valid then None
     else case e of Date_editor d \<Rightarrow> Some (print d) | Default_editor t \<Rightarrow> Some t)"

text \<open>
  The user edits the column \<open>col\<close> of the item \<open>k\<close>. Qt emits \<open>itemChanged\<close>, to which \<open>handleItemChanged\<close> is
  connected, when the text is another one.
\<close>

definition edit_cell ::
  "(string \<Rightarrow> 'd option) \<Rightarrow> ('d \<Rightarrow> string) \<Rightarrow> (string \<Rightarrow> string) \<Rightarrow> 'd \<Rightarrow> bool \<Rightarrow> ('d editor \<Rightarrow> 'd editor) \<Rightarrow> nat \<Rightarrow> nat
   \<Rightarrow> tree \<Rightarrow> tree result" where
  "edit_cell parse print to_seconds initial valid user k col T =
     (let it = tw_items T ! k; e = user (setEditorData parse (item_text it col) (createEditor initial col))
      in case setModelData print valid e of
           None \<Rightarrow> Inr T
         | Some t \<Rightarrow>
             if t = item_text it col then Inr T
             else let it1 = set_text (Some col) t it
               in handleItemChanged to_seconds it1 col (T\<lparr>tw_items := (tw_items T)[k := it1]\<rparr>))"

subsection \<open>The menu and the records of a call\<close>

text \<open>\<open>item\<close>: whether there is one under the pointer; \<open>chosen\<close>: whether the user takes the only entry.\<close>

definition handleContextMenu :: "bool \<Rightarrow> bool \<Rightarrow> nat option \<Rightarrow> tree \<Rightarrow> tree result" where
  "handleContextMenu item chosen next_item T =
     (if item \<and> chosen then removeRecord next_item T else Inr T)"

definition fetch_call :: "bool \<Rightarrow> string \<Rightarrow> tree \<Rightarrow> tree" where
  "fetch_call connected call T = (if \<not> connected then T else tree_request (Fetch_records (Some (cstr call))) T)"

text \<open>The slot for changes without a column, to which nothing is connected.\<close>

definition handleItemChanged_item :: "(string \<Rightarrow> string) \<Rightarrow> item \<Rightarrow> tree \<Rightarrow> tree result" where
  "handleItemChanged_item to_seconds it T =
     rmap (\<lambda>data. tree_request (Add_record (cstr data)) T) (itemToCSV to_seconds T it)"

subsection \<open>What an edit sends\<close>

lemma item_text_set_text: "item_text (set_text (Some c) t it) c = t"
  by (auto simp: item_text_def set_text_def nth_append)

text \<open>
  A date that is chosen in the editor is what the library is asked to add, in seconds, when the printed
  text of the date has all of it; closing an editor that shows what the cell holds asks for nothing.
\<close>

lemma chosen_date_is_sent:
  assumes "k < length (tw_items T)" and "tw_header T \<noteq> []" and "2 < length (tw_header T)"
    and "parse (print d) = Some d" and "print d \<noteq> item_text (tw_items T ! k) 2"
  shows "\<exists>T1 it1 line. edit_cell parse print (\<lambda>t. seconds (parse t)) initial True (\<lambda>_. Date_editor d) k 2 T = Inr T1
    \<and> tw_items T1 = (tw_items T)[k := it1] \<and> item_text it1 2 = print d
    \<and> tw_requests T1 = tw_requests T @ [Add_record (cstr (record_table [tw_header T, line]))] \<and> line ! 2 = seconds (Some d)"
proof -
  let ?it = "set_text (Some 2) (print d) (tw_items T ! k)" and ?secs = "\<lambda>t. seconds (parse t)"
  let ?T = "T\<lparr>tw_items := (tw_items T)[k := ?it]\<rparr>"
  have "itemToCSV ?secs ?T ?it = Inr (record_table [tw_header T, item_row ?secs ?T ?it])"
    using itemToCSV_table [of ?T ?secs ?it] assms(2) by simp
  moreover have "item_row ?secs ?T ?it ! 2 = seconds (Some d)"
    using assms(3,4) by (simp add: item_row_def item_text_set_text)
  ultimately show ?thesis
    using assms(5)
    by (auto simp: edit_cell_def setModelData_def handleItemChanged_def tree_request_def Let_def item_text_set_text)
qed

lemma unchanged_cell_asks_nothing:
  assumes "col = 2 \<Longrightarrow> map_option print (parse (item_text (tw_items T ! k) 2)) = Some (item_text (tw_items T ! k) 2)"
  shows "edit_cell parse print to_seconds initial valid (\<lambda>e. e) k col T = Inr T"
  using assms by (auto simp: edit_cell_def createEditor_def setEditorData_def setModelData_def Let_def)

text \<open>A text that is no date is replaced by the date the editor starts with, also when the user changes nothing.\<close>

lemma unreadable_date_is_replaced:
  assumes "parse (item_text (tw_items T ! k) 2) = None" and "print initial \<noteq> item_text (tw_items T ! k) 2"
    and "tw_header T \<noteq> []"
  shows "\<exists>T1. edit_cell parse print to_seconds initial True (\<lambda>e. e) k 2 T = Inr T1
    \<and> tw_items T1 = (tw_items T)[k := set_text (Some 2) (print initial) (tw_items T ! k)]
    \<and> length (tw_requests T1) = length (tw_requests T) + 1"
proof -
  let ?it = "set_text (Some 2) (print initial) (tw_items T ! k)"
  let ?T = "T\<lparr>tw_items := (tw_items T)[k := ?it]\<rparr>"
  have "itemToCSV to_seconds ?T ?it = Inr (record_table [tw_header T, item_row to_seconds ?T ?it])"
    using itemToCSV_table [of ?T to_seconds ?it] assms(3) by simp
  then show ?thesis
    using assms(1,2)
    by (auto simp: edit_cell_def createEditor_def setEditorData_def setModelData_def handleItemChanged_def
      tree_request_def Let_def)
qed

end
