(* ===== verification/Spots.thy ===== *)
theory Spots
  imports Modules "HOL-Library.Sublist"
begin

text \<open>
  Two modules of the server that read texts of others: \<open>responders/dxcc.cpp\<close>, which loads the table
  of countries \<open>cty.csv\<close> and finds the country of a call by its prefix, and
  \<open>responders/dxcluster.cpp\<close>, which collects the spots a DX cluster sends over telnet.

  Boost is an argument where its result matters: \<open>lc_int\<close> and \<open>lc_float\<close> are \<open>lexical_cast\<close> to a
  number and back to text, \<open>None\<close> when it throws. \<open>split_on\<close> is \<open>boost::split\<close> at one character.
  The operations the cluster's module starts on its socket are in its result.
\<close>

fun split_on :: "char \<Rightarrow> string \<Rightarrow> string list" where
  "split_on d [] = [[]]"
| "split_on d (c # s) =
     (if c = d then [] # split_on d s
      else case split_on d s of f # fs \<Rightarrow> (c # f) # fs | [] \<Rightarrow> [[c]])"

lemma split_on_ne [simp]: "split_on d s \<noteq> []"
  by (induction s) (auto split: list.split)

lemma split_on_plain: "d \<notin> set s \<Longrightarrow> split_on d s = [s]"
  by (induction s) auto

lemma split_on_field: "d \<notin> set f \<Longrightarrow> split_on d (f @ d # s) = f # split_on d s"
  by (induction f) auto

subsection \<open>The table of countries\<close>

record entity =
  e_name :: string
  e_continent :: string
  e_cq :: string
  e_itu :: string
  e_lat :: string
  e_lon :: string
  e_tz :: string

definition need :: "'a option \<Rightarrow> ('a \<Rightarrow> 'b result) \<Rightarrow> 'b result" where
  "need x f = (case x of None \<Rightarrow> Inl Uncaught | Some y \<Rightarrow> f y)"

definition read_entity ::
  "(string \<Rightarrow> string option) \<Rightarrow> (string \<Rightarrow> string option) \<Rightarrow> string list \<Rightarrow> entity result" where
  "read_entity lc_int lc_float cols =
     need (lc_int (cols ! 4)) (\<lambda>cq. need (lc_int (cols ! 5)) (\<lambda>itu.
     need (lc_float (cols ! 6)) (\<lambda>lat. need (lc_float (cols ! 7)) (\<lambda>lon.
     need (lc_float (cols ! 8)) (\<lambda>tz.
       Inr \<lparr>e_name = cols ! 1, e_continent = cols ! 3, e_cq = cq, e_itu = itu, e_lat = lat,
         e_lon = lon, e_tz = tz\<rparr>)))))"

text \<open>\<open>substr(0, size - 2)\<close>, where \<open>size - 2\<close> wraps around for a shorter string.\<close>

definition drop_line_end :: "string \<Rightarrow> string" where
  "drop_line_end s = (if length s < 2 then s else take (length s - 2) s)"

definition read_prefix :: "string \<Rightarrow> string" where
  "read_prefix p = (if p \<noteq> [] \<and> hd p = CHR ''='' then tl p else p)"

definition dxcc_line ::
  "(string \<Rightarrow> string option) \<Rightarrow> (string \<Rightarrow> string option) \<Rightarrow> string \<Rightarrow> (string \<rightharpoonup> entity) \<Rightarrow> (string \<rightharpoonup> entity) result" where
  "dxcc_line lc_int lc_float line m =
     (let cols = split_on CHR '','' line
      in if length cols \<noteq> 10 then Inr m
         else rmap (\<lambda>e. fold (\<lambda>p m. m(read_prefix p \<mapsto> e)) (split_on CHR '' '' (drop_line_end (cols ! 9))) m)
           (read_entity lc_int lc_float cols))"

fun dxcc_lines ::
  "(string \<Rightarrow> string option) \<Rightarrow> (string \<Rightarrow> string option) \<Rightarrow> string list \<Rightarrow> (string \<rightharpoonup> entity) \<Rightarrow> (string \<rightharpoonup> entity) result" where
  "dxcc_lines lc_int lc_float [] m = Inr m"
| "dxcc_lines lc_int lc_float (l # ls) m =
     rbind (dxcc_line lc_int lc_float l m) (\<lambda>m1. dxcc_lines lc_int lc_float ls m1)"

text \<open>The constructor, with the text of \<open>cty.csv\<close> if it can be opened.\<close>

definition dxcc_new ::
  "(string \<Rightarrow> string option) \<Rightarrow> (string \<Rightarrow> string option) \<Rightarrow> string option \<Rightarrow> (string \<rightharpoonup> entity) result" where
  "dxcc_new lc_int lc_float file = (case file of
     None \<Rightarrow> Inr Map.empty
   | Some s \<Rightarrow> dxcc_lines lc_int lc_float (split_on LF s) Map.empty)"

definition to_upper :: "char \<Rightarrow> char" where
  "to_upper c = (if 97 \<le> (of_char c :: nat) \<and> (of_char c :: nat) \<le> 122 then char_of ((of_char c :: nat) - 32) else c)"

text \<open>The loop that shortens the call from its end.\<close>

function dxcc_find :: "(string \<rightharpoonup> entity) \<Rightarrow> string \<Rightarrow> entity option" where
  "dxcc_find m call =
     (if call = [] then None
      else case m call of Some e \<Rightarrow> Some e | None \<Rightarrow> dxcc_find m (butlast call))"
  by pat_completeness auto
termination
  by (relation "measure (\<lambda>(m, call). length call)") auto

declare dxcc_find.simps [simp del]

definition entity_text :: "string \<Rightarrow> entity \<Rightarrow> string" where
  "entity_text call e = ''call;qth;continent;cq;itu;latitude;longitude;tz'' @ [LF] @ call @ '';'' @ e_name e @ '';''
     @ e_continent e @ '';'' @ e_cq e @ '';'' @ e_itu e @ '';'' @ e_lat e @ '';'' @ e_lon e @ '';'' @ e_tz e"

definition sendDXCC :: "(string \<rightharpoonup> entity) \<Rightarrow> server_request \<Rightarrow> server_reply \<Rightarrow> server_reply" where
  "sendDXCC m req reply = (case dxcc_find m (map to_upper (s_content req)) of
     Some e \<Rightarrow> setContent (entity_text (s_content req) e) reply
   | None \<Rightarrow> setContent ''unknown'' (setStatus 400 reply))"

definition dxcc_handle :: "(string \<rightharpoonup> entity) \<Rightarrow> server_request \<Rightarrow> server_reply \<Rightarrow> bool \<times> server_reply" where
  "dxcc_handle m req reply =
     (if s_uri req = ''/dxcc'' then (True, sendDXCC m req reply) else (False, reply))"

subsection \<open>The cluster\<close>

record dx_data =
  dx_pending :: string
  dx_response :: string
  dx_request :: string
  dx_open :: bool

datatype dx_op = Dx_connect | Dx_write string | Dx_read_some | Dx_read_line

text \<open>One token after the other, with its number and whether the separator of the description was written.\<close>

fun spot_tokens :: "nat \<Rightarrow> nat \<Rightarrow> bool \<Rightarrow> string list \<Rightarrow> string \<Rightarrow> string" where
  "spot_tokens n i done [] p = p"
| "spot_tokens n i done (t # ts) p =
     (if i = 0 then spot_tokens n (Suc i) done ts (p @ butlast t @ '';'')
      else if 3 \<le> i \<and> n - 1 \<noteq> i then spot_tokens n (Suc i) done ts (p @ t @ '' '')
      else if 3 \<le> i \<and> \<not> done then spot_tokens n (Suc i) True ts (p @ '';'' @ t @ '';'')
      else spot_tokens n (Suc i) done ts (p @ t @ '';''))"

text \<open>\<open>substr(0, find("\r\n"))\<close>.\<close>

fun before_crlf :: "string \<Rightarrow> string" where
  "before_crlf [] = []"
| "before_crlf (c # s) = (if c = CR \<and> s \<noteq> [] \<and> hd s = LF then [] else c # before_crlf s)"

definition space_tokens :: "string \<Rightarrow> string list" where
  "space_tokens s = filter (\<lambda>t. t \<noteq> []) (split_on SP s)"

text \<open>A spot, without its first six characters. The last character is erased in any case.\<close>

definition add_spot :: "string \<Rightarrow> string \<Rightarrow> string result" where
  "add_spot s p =
     (let tokens = space_tokens (before_crlf s);
          p1 = spot_tokens (length tokens) 0 False tokens p
      in if p1 = [] then Inl Dangling else Inr (butlast p1 @ [LF]))"

definition next_line :: "string \<Rightarrow> string" where
  "next_line s = (if LF \<in> set s then tl (dropWhile (\<lambda>c. c \<noteq> LF) s) else s)"

lemma next_line_shorter: "LF \<in> set s \<Longrightarrow> length (next_line s) < length s"
  using length_dropWhile_le [of "\<lambda>c. c \<noteq> LF" s] by (cases s) (auto simp: next_line_def less_Suc_eq_le)

lemma next_line_le: "length (next_line s) \<le> length s"
  using next_line_shorter [of s] by (cases "LF \<in> set s") (auto simp: next_line_def)

function dx_lines :: "string \<Rightarrow> string \<Rightarrow> string result" where
  "dx_lines s p =
     (if LF \<notin> set s then Inr p
      else if take 2 s = ''DX'' then
        (if length s < 6 then Inl Uncaught
         else case add_spot (drop 6 s) p of
           Inl e \<Rightarrow> Inl e
         | Inr p1 \<Rightarrow> dx_lines (next_line (drop 6 s)) p1)
      else dx_lines (next_line s) p)"
  by pat_completeness auto
termination
proof (relation "measure (\<lambda>(s, p). length s)", goal_cases)
  case 1
  show ?case by simp
next
  case (2 s p p1)
  then show ?case using next_line_le [of "drop 6 s"] by (cases s) auto
next
  case (3 s p)
  then show ?case using next_line_shorter [of s] by simp
qed

declare dx_lines.simps [simp del]

text \<open>The handlers: the data of the session and the operations that are started.\<close>

definition handleDXClusterRead :: "bool \<Rightarrow> dx_data \<Rightarrow> (dx_data \<times> dx_op list) result" where
  "handleDXClusterRead err d =
     (if err then Inr (d, [])
      else rmap (\<lambda>p. (d\<lparr>dx_pending := p, dx_response := []\<rparr>, [Dx_read_line]))
        (dx_lines (dx_response d) (dx_pending d)))"

definition handleDXClusterLogin :: "bool \<Rightarrow> dx_data \<Rightarrow> dx_data \<times> dx_op list" where
  "handleDXClusterLogin err d = (if err then (d, []) else (d, [Dx_read_some]))"

definition handleDXClusterConnected :: "bool \<Rightarrow> session \<Rightarrow> dx_data \<Rightarrow> dx_data \<times> dx_op list" where
  "handleDXClusterConnected err session d =
     (if err then (d, [])
      else let text = dx_request d @ sess_username session @ [LF]
        in (d\<lparr>dx_request := []\<rparr>, [Dx_write text]))"

definition askDXCluster :: "dx_data option \<Rightarrow> server_reply \<Rightarrow> server_reply \<times> dx_data \<times> dx_op list" where
  "askDXCluster data reply = (case data of
     Some d \<Rightarrow> (setContent (''sender;frequency;call;description;time'' @ [LF] @ dx_pending d) reply,
         d\<lparr>dx_pending := []\<rparr>, [])
   | None \<Rightarrow> (reply, \<lparr>dx_pending = [], dx_response = [], dx_request = [], dx_open = True\<rparr>, [Dx_connect]))"

definition dxcluster_handle ::
  "dx_data option \<Rightarrow> server_request \<Rightarrow> server_reply \<Rightarrow> bool \<times> server_reply \<times> dx_data option \<times> dx_op list" where
  "dxcluster_handle data req reply =
     (if s_uri req = ''/dxcluster'' then
        (case askDXCluster data reply of (reply1, d, ops) \<Rightarrow> (True, reply1, Some d, ops))
      else (False, reply, data, []))"

definition dx_session_finished :: "dx_data option \<Rightarrow> dx_data option" where
  "dx_session_finished data = map_option (\<lambda>d. d\<lparr>dx_open := False\<rparr>) data"

subsection \<open>The longest prefix\<close>

lemma dxcc_find_Nil [simp]: "dxcc_find m [] = None"
  by (subst dxcc_find.simps) simp

lemma dxcc_find_snoc:
  "dxcc_find m (s @ [c]) = (case m (s @ [c]) of Some e \<Rightarrow> Some e | None \<Rightarrow> dxcc_find m s)"
  by (subst dxcc_find.simps) (simp split: option.split)

lemma dxcc_find_longest:
  "dxcc_find m call = Some e \<longleftrightarrow>
   (\<exists>p. p \<noteq> [] \<and> prefix p call \<and> m p = Some e \<and> (\<forall>q. prefix q call \<and> length p < length q \<longrightarrow> m q = None))"
proof (induction call rule: rev_induct)
  case Nil
  then show ?case by auto
next
  case (snoc c s)
  show ?case
  proof (cases "m (s @ [c])")
    case (Some f)
    have "prefix p (s @ [c]) \<Longrightarrow> \<not> length p < length (s @ [c]) \<Longrightarrow> p = s @ [c]" for p
      by (metis prefix_length_less prefix_order.le_less)
    with Some show ?thesis
      by (auto simp: dxcc_find_snoc dest: prefix_length_le
          intro!: exI [of _ "s @ [c]"])
  next
    case None
    then have "dxcc_find m (s @ [c]) = Some e \<longleftrightarrow> dxcc_find m s = Some e" by (simp add: dxcc_find_snoc)
    also note snoc.IH
    also have "(\<exists>p. p \<noteq> [] \<and> prefix p s \<and> m p = Some e \<and> (\<forall>q. prefix q s \<and> length p < length q \<longrightarrow> m q = None))
      \<longleftrightarrow> (\<exists>p. p \<noteq> [] \<and> prefix p (s @ [c]) \<and> m p = Some e
            \<and> (\<forall>q. prefix q (s @ [c]) \<and> length p < length q \<longrightarrow> m q = None))"
      using None by (auto simp: prefix_snoc)
    finally show ?thesis .
  qed
qed

subsection \<open>Lines of the cluster\<close>

text \<open>A spot, as the text behind \<open>DX de\<close>, or any other line.\<close>

datatype cluster_line = Spot string | Other string

fun cluster_text :: "cluster_line \<Rightarrow> string" where
  "cluster_text (Spot x) = ''DX de '' @ x @ [CR, LF]"
| "cluster_text (Other x) = x @ [LF]"

fun cluster_ok :: "cluster_line \<Rightarrow> bool" where
  "cluster_ok (Spot x) \<longleftrightarrow> LF \<notin> set x \<and> CR \<notin> set x \<and> 4 \<le> length (space_tokens x)"
| "cluster_ok (Other x) \<longleftrightarrow> LF \<notin> set x \<and> take 2 x \<noteq> ''DX''"

text \<open>Sender without its colon, frequency, call, the words of the description, the time.\<close>

fun spot_row :: "string list \<Rightarrow> string" where
  "spot_row (a # f # c # rest) =
     butlast a @ '';'' @ f @ '';'' @ c @ '';'' @ concat (map (\<lambda>w. w @ '' '') (butlast rest)) @ '';'' @ last rest @ [LF]"
| "spot_row _ = []"

fun cluster_row :: "cluster_line \<Rightarrow> string" where
  "cluster_row (Spot x) = spot_row (space_tokens x)"
| "cluster_row (Other x) = []"

lemma spot_tokens_rest:
  "3 \<le> i \<Longrightarrow> i + length ws = n - 1 \<Longrightarrow>
   spot_tokens n i False (ws @ [t]) p = p @ concat (map (\<lambda>w. w @ '' '') ws) @ '';'' @ t @ '';''"
  by (induction ws arbitrary: i p) auto

lemma add_spot_row:
  assumes "CR \<notin> set x" and "4 \<le> length (space_tokens x)"
  shows "add_spot (x @ [CR, LF] @ rest) p = Inr (p @ spot_row (space_tokens x))"
proof -
  have crlf: "before_crlf (x @ [CR, LF] @ rest) = x"
    using assms(1) by (induction x) auto
  obtain a f c more where "space_tokens x = a # f # c # more" "more \<noteq> []"
    using assms(2) by (auto simp: numeral_eq_Suc Suc_le_length_iff)
  then obtain ws t where t: "space_tokens x = a # f # c # ws @ [t]" by (metis rev_exhaust)
  let ?n = "length (space_tokens x)"
  have "spot_tokens ?n 0 False (space_tokens x) p
      = p @ butlast a @ '';'' @ f @ '';'' @ c @ '';'' @ concat (map (\<lambda>w. w @ '' '') ws) @ '';'' @ t @ '';''"
    using spot_tokens_rest [of "Suc (Suc (Suc 0))" ws ?n t] by (simp add: t)
  then show ?thesis unfolding add_spot_def crlf by (simp add: t Let_def butlast_append)
qed

lemma next_line_text: "LF \<notin> set x \<Longrightarrow> next_line (x @ LF # rest) = rest"
  by (induction x) (auto simp: next_line_def)

lemma dx_lines_step:
  assumes "cluster_ok l"
  shows "dx_lines (cluster_text l @ rest) p = dx_lines rest (p @ cluster_row l)"
proof (cases l)
  case (Other x)
  with assms have x: "LF \<notin> set x" "take 2 x \<noteq> ''DX''" by simp_all
  then have "take 2 (x @ LF # rest) \<noteq> ''DX''"
    by (cases x; cases "tl x") auto
  then show ?thesis using Other x next_line_text [of x rest] by (subst dx_lines.simps) simp
next
  case (Spot x)
  with assms have x: "LF \<notin> set x" "CR \<notin> set x" "4 \<le> length (space_tokens x)" by simp_all
  have "add_spot (x @ [CR, LF] @ rest) p = Inr (p @ spot_row (space_tokens x))"
    using add_spot_row [OF x(2,3)] .
  moreover have "next_line (x @ [CR, LF] @ rest) = rest"
    using next_line_text [of "x @ [CR]" rest] x(1) by simp
  ultimately show ?thesis using Spot by (subst dx_lines.simps) simp
qed

lemma dx_lines_all:
  assumes "list_all cluster_ok ls" and "LF \<notin> set partial"
  shows "dx_lines (concat (map cluster_text ls) @ partial) p = Inr (p @ concat (map cluster_row ls))"
  using assms(1)
proof (induction ls arbitrary: p)
  case Nil
  then show ?case using assms(2) by (subst dx_lines.simps) simp
next
  case (Cons l ls)
  then show ?case using dx_lines_step [of l "concat (map cluster_text ls) @ partial" p] by simp
qed

subsection \<open>The properties\<close>

text \<open>
  A call is answered with the entity of its longest prefix in the table, letters compared in
  upper case, and the answer repeats the call as it was asked; a call without a prefix in the table
  is refused.
\<close>

theorem dxcc_longest_prefix:
  assumes "call = map to_upper (s_content req)"
  shows "(\<forall>p e. p \<noteq> [] \<and> prefix p call \<and> m p = Some e \<and> (\<forall>q. prefix q call \<and> length p < length q \<longrightarrow> m q = None)
      \<longrightarrow> sendDXCC m req reply = setContent (entity_text (s_content req) e) reply)
    \<and> ((\<forall>p. p \<noteq> [] \<and> prefix p call \<longrightarrow> m p = None)
      \<longrightarrow> sendDXCC m req reply = setContent ''unknown'' (setStatus 400 reply))"
proof (intro conjI allI impI)
  fix p e
  assume "p \<noteq> [] \<and> prefix p call \<and> m p = Some e \<and> (\<forall>q. prefix q call \<and> length p < length q \<longrightarrow> m q = None)"
  then have "dxcc_find m call = Some e" by (subst dxcc_find_longest) blast
  then show "sendDXCC m req reply = setContent (entity_text (s_content req) e) reply"
    using assms by (simp add: sendDXCC_def)
next
  assume none: "\<forall>p. p \<noteq> [] \<and> prefix p call \<longrightarrow> m p = None"
  have "dxcc_find m call = None"
  proof (cases "dxcc_find m call")
    case (Some e)
    with none show ?thesis unfolding dxcc_find_longest by auto
  qed
  then show "sendDXCC m req reply = setContent ''unknown'' (setStatus 400 reply)"
    using assms by (simp add: sendDXCC_def)
qed

definition czech :: entity where
  "czech = \<lparr>e_name = ''Czech Republic'', e_continent = ''EU'', e_cq = ''15'', e_itu = ''28'', e_lat = ''50'',
     e_lon = ''-16'', e_tz = ''-1''\<rparr>"

theorem dxcc_longest_prefix_witness:
  "sendDXCC [''OK'' \<mapsto> czech, ''O'' \<mapsto> czech\<lparr>e_name := ''O''\<rparr>] (new_request\<lparr>s_content := ''ok1''\<rparr>)
     (server_reply_new 200 ''text/hamlog'')
   = setContent (entity_text ''ok1'' czech) (server_reply_new 200 ''text/hamlog'')"
proof -
  let ?m = "[''OK'' \<mapsto> czech, ''O'' \<mapsto> czech\<lparr>e_name := ''O''\<rparr>]"
  have "?m q = None" if "prefix q ''OK1''" "length ''OK'' < length q" for q
    using that by (auto simp: prefix_Cons)
  then have "\<forall>q. prefix q ''OK1'' \<and> length ''OK'' < length q \<longrightarrow> ?m q = None" by blast
  moreover have "?m ''OK'' = Some czech" and "prefix ''OK'' ''OK1''" by (simp_all add: prefix_Cons)
  moreover have call: "''OK1'' = map to_upper (s_content (new_request\<lparr>s_content := ''ok1''\<rparr>))" by code_simp
  ultimately show ?thesis
    using conjunct1 [OF dxcc_longest_prefix [OF call, of ?m "server_reply_new 200 ''text/hamlog''"],
        rule_format, of "''OK''" czech] by simp
qed

text \<open>
  What arrives from the cluster becomes rows: every complete spot of at least four words adds
  its row to the pending data, in order, other lines add nothing; and what follows the last line
  end is dropped with the buffer, the beginning of a spot that was split over two reads included.
\<close>

theorem cluster_rows:
  assumes "dx_response d = concat (map cluster_text ls) @ partial"
    and "list_all cluster_ok ls" and "LF \<notin> set partial"
  shows "handleDXClusterRead False d
    = Inr (d\<lparr>dx_pending := dx_pending d @ concat (map cluster_row ls), dx_response := []\<rparr>, [Dx_read_line])"
  using dx_lines_all [OF assms(2,3)] by (simp add: handleDXClusterRead_def assms(1))

theorem cluster_rows_witness:
  "handleDXClusterRead False \<lparr>dx_pending = [], dx_response = cluster_text (Other ''login: '')
      @ cluster_text (Spot ''ON4KST:  14195.0  OK1XYZ  CQ up 1234Z'') @ ''DX de'', dx_request = [], dx_open = True\<rparr>
   = Inr (\<lparr>dx_pending = ''ON4KST;14195.0;OK1XYZ;CQ up ;1234Z'' @ [LF], dx_response = [], dx_request = [],
        dx_open = True\<rparr>, [Dx_read_line])"
  using cluster_rows [of "\<lparr>dx_pending = [], dx_response = cluster_text (Other ''login: '')
      @ cluster_text (Spot ''ON4KST:  14195.0  OK1XYZ  CQ up 1234Z'') @ ''DX de'', dx_request = [], dx_open = True\<rparr>"
      "[Other ''login: '', Spot ''ON4KST:  14195.0  OK1XYZ  CQ up 1234Z'']" "''DX de''"]
  by (simp add: space_tokens_def)

end
