(* ===== verification/QtSpots.thy ===== *)
theory QtSpots
  imports Spots QtRecords
begin

text \<open>
  The spots in the user interface: the table of \<open>ui/qt/dxclusterwidget.cpp\<close>. The lemmas follow a spot
  from the line of the DX cluster through the module of the server to the row the user sees.
\<close>

text \<open>\<open>text(-1)\<close> is empty.\<close>

definition getItemCall :: "tree \<Rightarrow> item \<Rightarrow> string" where
  "getItemCall T it = (case findColumnWithName T ''call'' of None \<Rightarrow> [] | Some c \<Rightarrow> item_text it c)"

definition getItemFreq :: "tree \<Rightarrow> item \<Rightarrow> string" where
  "getItemFreq T it = (case findColumnWithName T ''frequency'' of None \<Rightarrow> [] | Some c \<Rightarrow> item_text it c)"

text \<open>The table with the new rows, and the calls that are signalled with \<open>onItemAdded\<close>.\<close>

definition cluster_setCSV :: "string \<Rightarrow> tree \<Rightarrow> tree \<times> string list" where
  "cluster_setCSV data T =
     (let tokens = tokenize (cstr data);
          T1 = set_header_labels (hd tokens) T;
          rows = filter (\<lambda>row. 1 < length row) (tl tokens)
      in (T1\<lparr>tw_items := tw_items T1 @ rows\<rparr>, map (getItemCall T1) rows))"

definition cluster_fetch_handler :: "string \<Rightarrow> int \<Rightarrow> tree \<Rightarrow> tree \<times> string list" where
  "cluster_fetch_handler data err T = (if err \<noteq> 0 then (T, []) else cluster_setCSV data T)"

subsection \<open>From the cluster to the table\<close>

fun spot_fields :: "string list \<Rightarrow> string list" where
  "spot_fields (a # f # c # rest) = [butlast a, f, c, concat (map (\<lambda>w. w @ '' '') (butlast rest)), last rest]"
| "spot_fields _ = []"

fun spots_of :: "cluster_line list \<Rightarrow> string list list" where
  "spots_of [] = []"
| "spots_of (Spot x # ls) = spot_fields (space_tokens x) # spots_of ls"
| "spots_of (Other x # ls) = spots_of ls"

definition spots_header :: "string list" where
  "spots_header = [''sender'', ''frequency'', ''call'', ''description'', ''time'']"

lemma spot_row_line:
  "3 \<le> length ts \<Longrightarrow> spot_row ts = plain_line (spot_fields ts) @ [LF] \<and> length (spot_fields ts) = 5"
  by (auto simp: numeral_eq_Suc Suc_le_length_iff field_text_def)

lemma cluster_rows_table:
  "list_all cluster_ok ls \<Longrightarrow> concat (map cluster_row ls) = record_table (spots_of ls)
     \<and> list_all (\<lambda>r. length r = 5) (spots_of ls)"
  using spot_row_line by (induction ls rule: spots_of.induct) (simp_all add: csv_text_def)

lemma spots_shown:
  assumes "plain_rows rows" and "list_all (\<lambda>r. length r = 5) rows"
  shows "tokenize (cstr (record_table (spots_header # rows))) = spots_header # rows @ [[]]"
    and "filter (\<lambda>row. 1 < length row) (rows @ [[]]) = rows"
proof -
  have "plain_rows (spots_header # rows)"
    using assms(1) by (simp add: plain_rows_def) (simp add: spots_header_def plain_char_def)
  then show "tokenize (cstr (record_table (spots_header # rows))) = spots_header # rows @ [[]]"
    using tables_parsed(1) cstr_id [OF no_nul_record_table] by (metis append_Cons)
  show "filter (\<lambda>row. 1 < length row) (rows @ [[]]) = rows"
    using assms(2) by (auto simp: list_all_iff intro: filter_True)
qed

subsection \<open>The properties\<close>

text \<open>
  C32. The user sees the spots of the cluster: what the cluster sent, in complete lines, is answered to
  the next request of the interface, once, and becomes its new rows, one per spot and in their order,
  with sender, frequency, call, description and time; the calls are the ones that are signalled.
\<close>

theorem spots_are_shown:
  assumes "dx_response d = concat (map cluster_text ls) @ partial" and "dx_pending d = []"
    and "list_all cluster_ok ls" and "LF \<notin> set partial" and "plain_rows (spots_of ls)"
  shows "\<exists>d1 d2 reply1 T1. handleDXClusterRead False d = Inr (d1, [Dx_read_line])
    \<and> askDXCluster (Some d1) reply = (reply1, d2, []) \<and> dx_pending d2 = []
    \<and> cluster_setCSV (sr_content reply1) T = (T1, map (\<lambda>r. r ! 2) (spots_of ls))
    \<and> tw_items T1 = tw_items T @ spots_of ls"
proof -
  let ?rows = "spots_of ls"
  have five: "list_all (\<lambda>r. length r = 5) ?rows" and table: "concat (map cluster_row ls) = record_table ?rows"
    using cluster_rows_table [OF assms(3)] by simp_all
  let ?d1 = "d\<lparr>dx_pending := record_table ?rows, dx_response := []\<rparr>"
  have read: "handleDXClusterRead False d = Inr (?d1, [Dx_read_line])"
    using dx_lines_all [OF assms(3,4), of "[]"] by (simp add: handleDXClusterRead_def assms(1,2) table)
  define content where "content = record_table (spots_header # ?rows)"
  have ask: "askDXCluster (Some ?d1) reply = (setContent content reply, ?d1\<lparr>dx_pending := []\<rparr>, [])"
    by (simp add: askDXCluster_def content_def csv_text_def spots_header_def field_text_def)
  let ?T = "set_header_labels spots_header T"
  have "getItemCall ?T r = r ! 2" if "length r = 5" for r
    using that by (simp add: getItemCall_def set_header_labels_def spots_header_def item_text_def numeral_2_eq_2)
  then have "map (getItemCall ?T) ?rows = map (\<lambda>r. r ! 2) ?rows" using five by (simp add: list_all_iff)
  moreover have "tokenize (cstr content) = spots_header # ?rows @ [[]]"
    unfolding content_def by (rule spots_shown(1) [OF assms(5) five])
  ultimately have "cluster_setCSV content T = (?T\<lparr>tw_items := tw_items T @ ?rows\<rparr>, map (\<lambda>r. r ! 2) ?rows)"
    unfolding cluster_setCSV_def using spots_shown(2) [OF assms(5) five]
    by (simp add: Let_def set_header_labels_def)
  with read ask show ?thesis by (auto simp: setContent_def)
qed

theorem spots_are_shown_witness:
  "\<exists>d1 d2 reply1 T1. handleDXClusterRead False \<lparr>dx_pending = [], dx_response = cluster_text (Other ''login: '')
      @ cluster_text (Spot ''ON4KST:  14195.0  OK1XYZ  CQ up 1234Z'') @ ''DX de'', dx_request = [], dx_open = True\<rparr>
      = Inr (d1, [Dx_read_line])
    \<and> askDXCluster (Some d1) (server_reply_new 200 ''text/hamlog'') = (reply1, d2, [])
    \<and> cluster_setCSV (sr_content reply1) (shown_tree\<lparr>tw_items := []\<rparr>) = (T1, [''OK1XYZ''])
    \<and> tw_items T1 = [[''ON4KST'', ''14195.0'', ''OK1XYZ'', ''CQ up '', ''1234Z'']]"
proof -
  let ?ls = "[Other ''login: '', Spot ''ON4KST:  14195.0  OK1XYZ  CQ up 1234Z'']"
  have spots: "spots_of ?ls = [[''ON4KST'', ''14195.0'', ''OK1XYZ'', ''CQ up '', ''1234Z'']]"
    by (simp add: space_tokens_def)
  have rows: "plain_rows (spots_of ?ls)" unfolding spots by (simp add: plain_rows_def plain_char_def)
  have ok: "list_all cluster_ok ?ls" by (simp add: space_tokens_def)
  from spots_are_shown [OF _ _ ok _ rows, of "\<lparr>dx_pending = [], dx_response = cluster_text (Other ''login: '')
      @ cluster_text (Spot ''ON4KST:  14195.0  OK1XYZ  CQ up 1234Z'') @ ''DX de'', dx_request = [], dx_open = True\<rparr>"
      "''DX de''" "server_reply_new 200 ''text/hamlog''" "shown_tree\<lparr>tw_items := []\<rparr>"]
  show ?thesis unfolding spots by (simp del: split_paired_Ex) blast
qed

end
