(* ===== verification/QtMap.thy ===== *)
theory QtMap
  imports QtSpots
begin

text \<open>
  The map: \<open>ui/qt/earthwidget.cpp\<close>. It is drawn by another program, xplanet, which reads the markers
  from a file; starting it is recorded with its arguments. Numbers are of a type of their own, with reading
  and printing as arguments.
\<close>

record 'n earth =
  ew_markers :: string
  ew_file :: string
  ew_zoom :: bool
  ew_latitude :: 'n
  ew_longitude :: 'n
  ew_radius :: 'n
  ew_started :: "string list list"

text \<open>\<open>window_id\<close>: the text of the number of the widget's window.\<close>

definition earth_args :: "('n \<Rightarrow> string) \<Rightarrow> string \<Rightarrow> 'n earth \<Rightarrow> string list" where
  "earth_args number window_id E =
     [''-searchdir'', ''./xplanet'', ''-config'', ''hamlog'']
     @ (if \<not> ew_zoom E then [''-projection'', ''rectangular''] else [])
     @ [''-fontsize'', ''12'', ''-window-id'', window_id, ''-wait'', ''1'']
     @ (if ew_zoom E then [''-latitude'', number (ew_latitude E), ''-longitude'', number (ew_longitude E),
          ''-radius'', number (ew_radius E)] else [])"

definition reloadEarth :: "('n \<Rightarrow> string) \<Rightarrow> string \<Rightarrow> 'n earth \<Rightarrow> 'n earth" where
  "reloadEarth number window_id E = E\<lparr>ew_started := ew_started E @ [earth_args number window_id E]\<rparr>"

definition earth_new :: "('n :: ring_1 \<Rightarrow> string) \<Rightarrow> string \<Rightarrow> 'n earth" where
  "earth_new number window_id = reloadEarth number window_id \<lparr>ew_markers = [], ew_file = [], ew_zoom = False,
     ew_latitude = 0, ew_longitude = 0, ew_radius = 40, ew_started = []\<rparr>"

definition setZoom :: "('n \<Rightarrow> string) \<Rightarrow> string \<Rightarrow> bool \<Rightarrow> 'n earth \<Rightarrow> 'n earth" where
  "setZoom number window_id zoom E = reloadEarth number window_id (E\<lparr>ew_zoom := zoom\<rparr>)"

definition setLatitude :: "('n \<Rightarrow> string) \<Rightarrow> string \<Rightarrow> 'n \<Rightarrow> 'n earth \<Rightarrow> 'n earth" where
  "setLatitude number window_id latitude E = reloadEarth number window_id (E\<lparr>ew_latitude := latitude\<rparr>)"

definition setLongitude :: "('n \<Rightarrow> string) \<Rightarrow> string \<Rightarrow> 'n \<Rightarrow> 'n earth \<Rightarrow> 'n earth" where
  "setLongitude number window_id longitude E = reloadEarth number window_id (E\<lparr>ew_longitude := longitude\<rparr>)"

definition setRadius :: "('n \<Rightarrow> string) \<Rightarrow> string \<Rightarrow> 'n \<Rightarrow> 'n earth \<Rightarrow> 'n earth" where
  "setRadius number window_id radius E = reloadEarth number window_id (E\<lparr>ew_radius := radius\<rparr>)"

definition marker_text :: "('n \<Rightarrow> string) \<Rightarrow> string \<Rightarrow> 'n \<Rightarrow> 'n \<Rightarrow> string" where
  "marker_text number call lat lon =
     number lat @ [TAB] @ number lon @ [TAB, DQUOTE] @ call @ [DQUOTE] @ [TAB] @ ''color=Green'' @ [LF]"

text \<open>\<open>opened\<close>: the file of the markers can be written.\<close>

definition showCall :: "('n \<Rightarrow> string) \<Rightarrow> string \<Rightarrow> bool \<Rightarrow> string \<Rightarrow> 'n \<Rightarrow> 'n \<Rightarrow> 'n earth \<Rightarrow> 'n earth" where
  "showCall number window_id opened call lat lon E =
     (let E1 = E\<lparr>ew_markers := ew_markers E @ marker_text number call lat lon\<rparr>
      in if \<not> opened then E1 else reloadEarth number window_id (E1\<lparr>ew_file := ew_markers E1\<rparr>))"

definition earth_fetch_handler ::
  "('n :: ring_1 \<Rightarrow> string) \<Rightarrow> (string \<Rightarrow> 'n) \<Rightarrow> string \<Rightarrow> bool \<Rightarrow> string \<Rightarrow> int \<Rightarrow> 'n earth \<Rightarrow> 'n earth result" where
  "earth_fetch_handler number to_number window_id opened data err E =
     (if err \<noteq> 0 then Inr E
      else let tokens = tokenize data; m = header_indexes 0 (hd tokens) []
        in if length (hd tokens) < 4 then Inr E
           else rbind (info_cells tokens m [''latitude'', ''longitude'', ''call'']) (\<lambda>vs.
             Inr (showCall number window_id opened (snd (vs ! 2)) (to_number (snd (vs ! 0)))
               (to_number (snd (vs ! 1)) * (- 1)) E)))"

definition showEurope :: "('n :: ring_1 \<Rightarrow> string) \<Rightarrow> string \<Rightarrow> 'n earth \<Rightarrow> 'n earth" where
  "showEurope number window_id E =
     reloadEarth number window_id (E\<lparr>ew_latitude := 50, ew_longitude := 10, ew_zoom := True, ew_radius := 150\<rparr>)"

subsection \<open>From the table of countries to the map\<close>

text \<open>A table whose last line is not ended: its last field is there when it is not empty.\<close>

lemma qt_last_line:
  "fs \<noteq> [] \<Longrightarrow> list_all plain fs \<Longrightarrow> qt_loop False [] row rows (plain_line fs) =
     rows @ [row @ (if last fs = [] then butlast fs else fs)]"
proof (induction fs arbitrary: row)
  case (Cons f fs)
  show ?case
  proof (cases "fs = []")
    case True
    with Cons.prems qt_plain [of f "[]" row rows "[]"] show ?thesis by (simp add: field_text_def)
  next
    case False
    then have "qt_loop False [] row rows (plain_line (f # fs)) = qt_loop False [] row rows (f @ '';'' @ plain_line fs)"
      by (simp add: line_text_Cons)
    also have "\<dots> = qt_loop False [] (row @ [f]) rows (plain_line fs)"
      using Cons.prems by (simp add: qt_plain [where g = "[]"])
    also have "\<dots> = rows @ [row @ f # (if last fs = [] then butlast fs else fs)]"
      using Cons.IH [OF False, of "row @ [f]"] Cons.prems by simp
    finally show ?thesis using False by simp
  qed
qed simp

lemma two_lines:
  assumes "header \<noteq> []" and "list_all plain header" and "row \<noteq> []" and "list_all plain row" and "last row \<noteq> []"
  shows "tokenize (plain_line header @ [LF] @ plain_line row) = [header, row]"
  using assms by (simp add: tokenize_def qt_line qt_last_line)

definition entity_header :: "string list" where
  "entity_header = [''call'', ''qth'', ''continent'', ''cq'', ''itu'', ''latitude'', ''longitude'', ''tz'']"

definition entity_row :: "string \<Rightarrow> entity \<Rightarrow> string list" where
  "entity_row call e = [call, e_name e, e_continent e, e_cq e, e_itu e, e_lat e, e_lon e, e_tz e]"

lemma entity_table: "entity_text call e = plain_line entity_header @ [LF] @ plain_line (entity_row call e)"
  by (simp add: entity_text_def entity_header_def entity_row_def field_text_def)

subsection \<open>The property\<close>


definition sample_entity :: entity where
  "sample_entity = \<lparr>e_name = ''Czech Republic'', e_continent = ''EU'', e_cq = ''15'', e_itu = ''28'', e_lat = ''50'',
     e_lon = ''-16'', e_tz = ''-1''\<rparr>"


end
