(* ===== verification/Rig.thy ===== *)
theory Rig
  imports QtRecords
begin

text \<open>
  Control of the radio: the module \<open>server/responders/hamlib.cpp\<close>, and its answer in the dialog of the
  client. The library hamlib is an argument: whether it makes a rig, what opening returns, the
  frequency that each of the calls of \<open>rig_get_freq\<close> sets, if any; and so are the numbers: reading one
  from a text, dividing by 1000, printing with six digits. The calls are recorded in their order.
\<close>

datatype 'f rig_op = Rig_set_debug | Rig_init | Rig_serial nat nat nat | Rig_pathname string | Rig_open
  | Rig_get_freq | Rig_set_freq 'f | Rig_close | Rig_cleanup

record 'f hamlib =
  hl_init :: bool
  hl_first :: "'f option"
  hl_second :: "'f option"
  hl_pathname :: nat
  hl_scan :: "string \<Rightarrow> 'f option"
  hl_khz :: "'f \<Rightarrow> 'f"
  hl_print :: "'f \<Rightarrow> string"

text \<open>The calls until the rig is open; what \<open>rig_open\<close> returns is only logged.\<close>

definition rig_opening :: "'f hamlib \<Rightarrow> string \<Rightarrow> 'f rig_op list" where
  "rig_opening H device = [Rig_set_debug, Rig_init, Rig_serial 19200 8 1,
     Rig_pathname (take (hl_pathname H - 1) (cstr device)), Rig_open]"

text \<open>A device that is not configured is logged, and the end of the map is read.\<close>

definition rig_device :: "smap \<Rightarrow> string result" where
  "rig_device unregistered = (case smap_get unregistered ''hamlib.device'' of None \<Rightarrow> Inl Dangling | Some d \<Rightarrow> Inr d)"

text \<open>A variable that no call has set.\<close>

definition read_variable :: "'f option \<Rightarrow> 'f result" where
  "read_variable v = (case v of None \<Rightarrow> Inl Uninitialised | Some f \<Rightarrow> Inr f)"

definition sendFrequency :: "'f hamlib \<Rightarrow> smap \<Rightarrow> server_reply \<Rightarrow> (server_reply \<times> 'f rig_op list) result" where
  "sendFrequency H unregistered reply =
     rbind (rig_device unregistered) (\<lambda>device.
       if \<not> hl_init H then Inl Null_deref
       else rbind (read_variable (case hl_second H of Some f \<Rightarrow> Some f | None \<Rightarrow> hl_first H)) (\<lambda>freq.
         Inr (setContent (hl_print H (hl_khz H freq)) reply,
           rig_opening H device @ [Rig_get_freq, Rig_get_freq, Rig_close, Rig_cleanup])))"

definition setFrequency :: "'f hamlib \<Rightarrow> smap \<Rightarrow> server_request \<Rightarrow> 'f rig_op list result" where
  "setFrequency H unregistered req =
     rbind (rig_device unregistered) (\<lambda>device.
     rbind (read_variable (hl_scan H (cstr (s_content req)))) (\<lambda>freq.
       if \<not> hl_init H then Inl Null_deref
       else Inr (rig_opening H device @ [Rig_set_freq freq, Rig_get_freq, Rig_close, Rig_cleanup])))"

definition hamlib_handle ::
  "'f hamlib \<Rightarrow> smap \<Rightarrow> server_request \<Rightarrow> server_reply \<Rightarrow> (bool \<times> server_reply \<times> 'f rig_op list) result" where
  "hamlib_handle H unregistered req reply =
     (if s_uri req = ''/hamlib'' then
        (if s_method req = ''POST'' then rmap (\<lambda>ops. (True, reply, ops)) (setFrequency H unregistered req)
         else rmap (\<lambda>(r, ops). (True, r, ops)) (sendFrequency H unregistered reply))
      else Inr (False, reply, []))"

subsection \<open>A rig is used while it is open\<close>

text \<open>What a sequence of calls leaves: whether there is a rig and whether it is open; \<open>None\<close> for a call out of order.\<close>

fun rig_state :: "'f rig_op list \<Rightarrow> bool \<times> bool \<Rightarrow> (bool \<times> bool) option" where
  "rig_state [] s = Some s"
| "rig_state (Rig_set_debug # ops) s = rig_state ops s"
| "rig_state (Rig_init # ops) (made, opened) = (if made then None else rig_state ops (True, opened))"
| "rig_state (Rig_serial a b c # ops) (made, opened) = (if made \<and> \<not> opened then rig_state ops (made, opened) else None)"
| "rig_state (Rig_pathname p # ops) (made, opened) = (if made \<and> \<not> opened then rig_state ops (made, opened) else None)"
| "rig_state (Rig_open # ops) (made, opened) = (if made \<and> \<not> opened then rig_state ops (made, True) else None)"
| "rig_state (Rig_get_freq # ops) (made, opened) = (if opened then rig_state ops (made, opened) else None)"
| "rig_state (Rig_set_freq f # ops) (made, opened) = (if opened then rig_state ops (made, opened) else None)"
| "rig_state (Rig_close # ops) (made, opened) = (if opened then rig_state ops (made, False) else None)"
| "rig_state (Rig_cleanup # ops) (made, opened) = (if made \<and> \<not> opened then rig_state ops (False, False) else None)"

lemma rig_closed:
  assumes "hamlib_handle H unregistered req reply = Inr (handled, reply1, ops)"
  shows "rig_state ops (False, False) = Some (False, False)"
  using assms
  by (auto simp: hamlib_handle_def sendFrequency_def setFrequency_def rig_opening_def rmap_def rbind_Inr_iff
      split: if_splits)

subsection \<open>The answer in the dialog\<close>

lemma frequency_tokens:
  assumes "plain c" and "c \<noteq> []"
  shows "tokenize (''freq'' @ [LF] @ c) = [[''freq''], [c]]"
proof -
  have "plain ''freq''" by (simp add: plain_char_def)
  then have "tokenize (''freq'' @ [LF] @ c) = qt_loop False [] [] [[''freq'']] (c @ [])"
    by (simp only: tokenize_def qt_plain) simp
  with qt_plain [OF assms(1), of "[]" "[]" "[[''freq'']]" "[]"] assms(2) show ?thesis by simp
qed

lemma frequency_dialog:
  assumes "plain c" and "c \<noteq> []"
  shows "dialog_hamlib_handler from_seconds c 0 D = Inr (D\<lparr>nd_frequency := c, nd_id := ''-1'', nd_name := []\<rparr>)"
proof -
  define data where "data = ''freq'' @ [LF] @ c"
  have data: "cstr data = data" "data \<noteq> []" "tokenize data = [[''freq''], [c]]"
    using frequency_tokens [OF assms] assms(1) by (simp_all add: data_def plain_def cstr_id)
  have c: "cstr c = c" using assms(1) by (simp add: plain_def cstr_id)
  have m: "header_indexes 0 [''freq''] [] = [(''freq'', 0)]" by simp
  have "set_fields [[''freq''], [c]] [(''freq'', 0)] (dialog_fields from_seconds) D = Inr (D\<lparr>nd_frequency := c\<rparr>)" for D
    by (simp add: dialog_fields_def set_field_def cell_def)
  then have "setCSV from_seconds data D = Inr (D\<lparr>nd_frequency := c, nd_id := ''-1'', nd_name := []\<rparr>)"
    by (simp add: setCSV_def data m person_name_def set_field_def)
  then show ?thesis unfolding dialog_hamlib_handler_def c data_def by simp
qed

text \<open>
  C36. The frequency of the radio reaches the dialog: the answer of the module, when one of the calls
  gave a frequency, is the number in kHz as it is printed; it becomes the frequency in the dialog, whose
  other fields stay, but for the name, which is cleared, and the record, which becomes a new one. The
  rig is made, opened, used, closed and freed, in this order.
\<close>

theorem rig_frequency_reaches_dialog:
  assumes "hl_init H" and "hl_second H = Some f" and "smap_get unregistered ''hamlib.device'' = Some device"
    and "plain (hl_print H (hl_khz H f))" and "hl_print H (hl_khz H f) \<noteq> []"
    and "s_uri req = ''/hamlib''" and "s_method req = ''GET''"
  shows "\<exists>reply1 ops. hamlib_handle H unregistered req reply = Inr (True, reply1, ops)
    \<and> sr_status reply1 = sr_status reply \<and> rig_state ops (False, False) = Some (False, False) \<and> Rig_get_freq \<in> set ops
    \<and> dialog_hamlib_handler from_seconds (sr_content reply1) 0 D =
        Inr (D\<lparr>nd_frequency := hl_print H (hl_khz H f), nd_id := ''-1'', nd_name := []\<rparr>)"
proof -
  have run: "hamlib_handle H unregistered req reply = Inr (True, setContent (hl_print H (hl_khz H f)) reply,
      rig_opening H device @ [Rig_get_freq, Rig_get_freq, Rig_close, Rig_cleanup])"
    using assms(1-3,6,7) by (simp add: hamlib_handle_def sendFrequency_def rig_device_def read_variable_def)
  show ?thesis
    using run rig_closed [OF run] frequency_dialog [OF assms(4,5), of from_seconds D] by (simp add: setContent_def)
qed

theorem rig_frequency_reaches_dialog_witness:
  "\<exists>reply1 ops. hamlib_handle \<lparr>hl_init = True, hl_first = Some ''14195000'', hl_second = Some ''14195000'',
        hl_pathname = 512, hl_scan = (\<lambda>_. None), hl_khz = (\<lambda>f. take (length f - 3) f), hl_print = (\<lambda>f. f)\<rparr>
      [(''hamlib.device'', ''/dev/ttyS0'')] (new_request\<lparr>s_uri := ''/hamlib'', s_method := ''GET''\<rparr>)
      (server_reply_new 200 ''text/hamlog'') = Inr (True, reply1, ops)
    \<and> dialog_hamlib_handler (\<lambda>v. (v, v)) (sr_content reply1) 0 (dialog_new [] []) =
        Inr ((dialog_new [] [])\<lparr>nd_frequency := ''14195'', nd_id := ''-1'', nd_name := []\<rparr>)"
proof -
  let ?H = "\<lparr>hl_init = True, hl_first = Some ''14195000'', hl_second = Some ''14195000'',
        hl_pathname = 512, hl_scan = (\<lambda>_. None), hl_khz = (\<lambda>f. take (length f - 3) f), hl_print = (\<lambda>f. f)\<rparr>"
  have print: "hl_print ?H (hl_khz ?H ''14195000'') = ''14195''" by simp
  have plain: "plain (hl_print ?H (hl_khz ?H ''14195000''))" "hl_print ?H (hl_khz ?H ''14195000'') \<noteq> []"
    unfolding print by (simp_all add: plain_char_def)
  have "hl_init ?H" "hl_second ?H = Some ''14195000''"
    "smap_get [(''hamlib.device'', ''/dev/ttyS0'')] ''hamlib.device'' = Some ''/dev/ttyS0''"
    by (simp_all add: smap_get_def)
  note all = rig_frequency_reaches_dialog [OF this plain, of "new_request\<lparr>s_uri := ''/hamlib'', s_method := ''GET''\<rparr>",
      unfolded print, of "server_reply_new 200 ''text/hamlog''" "\<lambda>v. (v, v)" "dialog_new [] []"]
  have "s_uri (new_request\<lparr>s_uri := ''/hamlib'', s_method := ''GET''\<rparr>) = ''/hamlib''"
    "s_method (new_request\<lparr>s_uri := ''/hamlib'', s_method := ''GET''\<rparr>) = ''GET''" by simp_all
  from all [OF this] show ?thesis by blast
qed

end
