(* ===== verification/Window.thy ===== *)
theory Window
  imports Startup Account
begin

text \<open>
  The window of the client: \<open>ui/qt/mainwindow.cpp\<close>, the dialogs \<open>modulesdialog.cpp\<close> and
  \<open>qrzregisterdialog.cpp\<close> and the connections of the table of spots and the map
  (\<open>dxclusterwidget.cpp\<close>, \<open>earthwidget.cpp\<close>).

  The connections of the library are objects in a store, at addresses; destroying one removes it, and
  using a pointer to a removed one is the fault \<open>Dangling\<close>. With each connection goes the state of
  its services, whose functions the window calls. The argument \<open>a\<close> of the slots gives the addresses of the
  closures they allocate. Signals of the library reach the window through the table of the theory
  \<open>Signals\<close>, in which its constructor registers four handlers.
\<close>

datatype ui_handler = Logbook_fetched | Cluster_fetched | Earth_fetched

type_synonym library = "(ui_handler, unit) services"

record window =
  mw_heap :: "nat \<Rightarrow> library option"
  mw_conn :: "nat option"
  mw_register :: bool
  mw_logbook_conn :: "nat option"
  mw_earth_conn :: "nat option"
  mw_cluster_conn :: "nat option"
  mw_timer :: bool
  mw_status :: string
  mw_info :: string
  mw_boxes :: "(string \<times> string) list"
  mw_dialogs :: "(string \<times> string) list"

text \<open>As the constructor leaves it.\<close>

definition window_new :: window where
  "window_new = \<lparr>mw_heap = (\<lambda>_. None), mw_conn = None, mw_register = False, mw_logbook_conn = None,
     mw_earth_conn = None, mw_cluster_conn = None, mw_timer = False, mw_status = [], mw_info = [],
     mw_boxes = [], mw_dialogs = []\<rparr>"

text \<open>The object behind a pointer.\<close>

definition deref :: "nat option \<Rightarrow> window \<Rightarrow> library result" where
  "deref c W = (case c of
     None \<Rightarrow> Inl Null_deref
   | Some p \<Rightarrow> (case mw_heap W p of None \<Rightarrow> Inl Dangling | Some V \<Rightarrow> Inr V))"

text \<open>A call of the library with a connection.\<close>

definition use_conn :: "nat option \<Rightarrow> (library \<Rightarrow> library result) \<Rightarrow> window \<Rightarrow> window result" where
  "use_conn c f W = rbind (deref c W) (\<lambda>V.
     rmap (\<lambda>V1. W\<lparr>mw_heap := (mw_heap W)(the c \<mapsto> V1)\<rparr>) (f V))"

subsection \<open>Slots of the widgets\<close>

definition logbook_setConnection :: "nat option \<Rightarrow> window \<Rightarrow> window" where
  "logbook_setConnection c W = W\<lparr>mw_logbook_conn := c\<rparr>"

definition logbook_fetch :: "nat \<Rightarrow> window \<Rightarrow> window result" where
  "logbook_fetch a W = (case mw_logbook_conn W of
     None \<Rightarrow> Inr W
   | Some p \<Rightarrow> use_conn (Some p) (ham_logbook_fetch quiet a (Some Logbook_fetched) ()) W)"

definition earth_setConnection :: "nat option \<Rightarrow> window \<Rightarrow> window" where
  "earth_setConnection c W = W\<lparr>mw_earth_conn := c\<rparr>"

text \<open>\<open>showCall\<close> with a call only: the slot connected to new spots.\<close>

definition earth_showCall :: "nat \<Rightarrow> string \<Rightarrow> window \<Rightarrow> window result" where
  "earth_showCall a call W = (case mw_earth_conn W of
     None \<Rightarrow> Inr W
   | Some p \<Rightarrow> use_conn (Some p) (ham_dxcc_fetch quiet a (cstr call) (Some Earth_fetched) ()) W)"

definition cluster_setConnection :: "nat option \<Rightarrow> window \<Rightarrow> window" where
  "cluster_setConnection c W = W\<lparr>mw_cluster_conn := c, mw_timer := (c \<noteq> None)\<rparr>"

text \<open>The slot of the timer, which runs while \<open>mw_timer\<close> holds.\<close>

definition cluster_fetch :: "nat \<Rightarrow> window \<Rightarrow> window result" where
  "cluster_fetch a W = (case mw_cluster_conn W of
     None \<Rightarrow> Inr W
   | Some p \<Rightarrow> use_conn (Some p) (ham_dxcluster_fetch quiet a (Some Cluster_fetched) ()) W)"

subsection \<open>Signals\<close>

definition showMessage :: "string \<Rightarrow> window \<Rightarrow> window" where
  "showMessage m W = W\<lparr>mw_status := m\<rparr>"

definition critical :: "string \<Rightarrow> string \<Rightarrow> window \<Rightarrow> window" where
  "critical title m W = W\<lparr>mw_boxes := mw_boxes W @ [(title, m)]\<rparr>"

definition handleConnected :: "nat \<Rightarrow> window \<Rightarrow> window result" where
  "handleConnected p W =
     (if mw_register W
      then rmap (showMessage ''Registering account'') (use_conn (Some p) (ham_account_register quiet) W)
      else use_conn (Some p) (ham_account_login quiet) (showMessage ''Logging in'' W))"

definition handleDisconnected :: "string \<Rightarrow> window \<Rightarrow> window" where
  "handleDisconnected reason W = showMessage (''Connection error: '' @ reason) W"

definition handleLoggedIn :: "nat \<times> nat \<Rightarrow> nat \<Rightarrow> window \<Rightarrow> window result" where
  "handleLoggedIn a p W =
     (let W1 = showMessage ''Fetching logbook'' (showMessage ''Logged in!'' W)
      in rbind (deref (Some p) W1) (\<lambda>V.
         rbind (logbook_fetch (fst a) (logbook_setConnection (Some p)
             (W1\<lparr>mw_info := ''Username: '' @ c_username (v_conn V) @ ''     ''\<rparr>))) (\<lambda>W2.
           cluster_fetch (snd a) (cluster_setConnection (Some p) (earth_setConnection (Some p) W2)))))"

definition handleLoginFailed :: "string \<Rightarrow> window \<Rightarrow> window" where
  "handleLoginFailed reason W = critical ''Login failed!'' reason (showMessage (''Login failed: '' @ reason) W)"

definition handleRegistered :: "nat \<Rightarrow> window \<Rightarrow> window result" where
  "handleRegistered p W =
     use_conn (Some p) (ham_account_login quiet) (showMessage ''Logging in'' (showMessage ''Registered!'' W))"

definition handleRegistrationFailed :: "string \<Rightarrow> window \<Rightarrow> window" where
  "handleRegistrationFailed reason W =
     critical ''Registration failed!'' reason (showMessage (''Registration failed: '' @ reason) W)"

text \<open>The functions and objects registered as handlers; the window is never null.\<close>

datatype ui_callback = Handle_connected | Handle_disconnected | Handle_logged_in | Handle_registered
  | Handle_qrz_registered

datatype ui_object = The_window | Qrz_dialog nat

type_synonym ui_signals = "(ui_callback, ui_object) signals"

definition run_callback ::
  "nat \<times> nat \<Rightarrow> ui_callback \<times> nat \<times> string \<times> int \<times> ui_object \<Rightarrow> window \<Rightarrow> window result" where
  "run_callback a k W = (case k of (h, p, data, err, u) \<Rightarrow> (case h of
     Handle_connected \<Rightarrow> handleConnected p W
   | Handle_disconnected \<Rightarrow> Inr (handleDisconnected data W)
   | Handle_logged_in \<Rightarrow> if err = 0 then handleLoggedIn a p W else Inr (handleLoginFailed data W)
   | Handle_registered \<Rightarrow> if err = 0 then handleRegistered p W else Inr (handleRegistrationFailed data W)
   | Handle_qrz_registered \<Rightarrow> Inr W))"

fun run_callbacks ::
  "nat \<times> nat \<Rightarrow> (ui_callback \<times> nat \<times> string \<times> int \<times> ui_object) list \<Rightarrow> window \<Rightarrow> window result" where
  "run_callbacks a [] W = Inr W"
| "run_callbacks a (k # ks) W = rbind (run_callback a k W) (run_callbacks a ks)"

definition window_hears ::
  "ui_signals \<Rightarrow> nat \<times> nat \<Rightarrow> nat \<Rightarrow> string \<Rightarrow> string \<Rightarrow> int \<Rightarrow> window \<Rightarrow> window result" where
  "window_hears S a p name data err W =
     rbind (ham_signals_emit_signal name p data err S) (\<lambda>ks. run_callbacks a ks W)"

definition window_handlers :: "(string \<times> ui_callback) list" where
  "window_handlers = [(''connection-connected'', Handle_connected), (''connection-disconnected'', Handle_disconnected),
     (''account-logged-in'', Handle_logged_in), (''account-registered'', Handle_registered)]"

text \<open>The signals in the constructor and in the destructor; \<open>None\<close> is a destructor that does not return.\<close>

fun register_handlers :: "ui_object \<Rightarrow> (string \<times> ui_callback) list \<Rightarrow> ui_signals \<Rightarrow> ui_signals result" where
  "register_handlers u [] S = Inr S"
| "register_handlers u ((name, h) # hs) S = rbind (ham_signals_register_handler name h u S) (register_handlers u hs)"

fun unregister_handlers :: "ui_object \<Rightarrow> (string \<times> ui_callback) list \<Rightarrow> ui_signals \<Rightarrow> ui_signals result option" where
  "unregister_handlers u [] S = Some (Inr S)"
| "unregister_handlers u ((name, h) # hs) S =
     (case ham_signals_unregister_handler name h u S of
        None \<Rightarrow> None
      | Some (Inl e) \<Rightarrow> Some (Inl e)
      | Some (Inr S1) \<Rightarrow> unregister_handlers u hs S1)"

definition window_construct :: "ui_signals \<Rightarrow> ui_signals result" where
  "window_construct = register_handlers The_window window_handlers"

definition window_destruct :: "ui_signals \<Rightarrow> ui_signals result option" where
  "window_destruct = unregister_handlers The_window window_handlers"

subsection \<open>What the user does\<close>

definition ham_connection_destroy :: "nat option \<Rightarrow> window \<Rightarrow> window result" where
  "ham_connection_destroy c W = (case c of
     None \<Rightarrow> Inr W
   | Some p \<Rightarrow> rmap (\<lambda>_. W\<lparr>mw_heap := (mw_heap W)(p := None)\<rparr>) (deref c W))"

text \<open>The signals that connecting has emitted, in their order.\<close>

fun hear_events ::
  "ui_signals \<Rightarrow> nat \<times> nat \<Rightarrow> nat \<Rightarrow> (service, nat option) event list \<Rightarrow> window \<Rightarrow> window result" where
  "hear_events S a p [] W = Inr W"
| "hear_events S a p (Emitted name data err # es) W = rbind (window_hears S a p name data err W) (hear_events S a p es)"
| "hear_events S a p (_ # es) W = hear_events S a p es W"

record account =
  ac_server :: string
  ac_port :: int
  ac_username :: string
  ac_password :: string

text \<open>\<open>p\<close>: the address of the new connection, which is not in use once the old one is destroyed.\<close>

definition connectServer ::
  "ui_signals \<Rightarrow> nat \<times> nat \<Rightarrow> nat \<Rightarrow> cbuf \<Rightarrow> parser \<Rightarrow> net \<Rightarrow> account \<Rightarrow> window \<Rightarrow> window result" where
  "connectServer S a p junk junk_parser net ac W =
     rbind (ham_connection_destroy (mw_conn W) (W\<lparr>mw_register := False\<rparr>)) (\<lambda>W1.
       case ham_connection_new True True junk junk_parser (cstr (ac_server ac)) (ac_port ac) (cstr (ac_username ac))
           (cstr (ac_password ac)) of
         None \<Rightarrow> Inl Null_deref
       | Some c \<Rightarrow> rbind (ham_connection_connect quiet net None c) (\<lambda>c1.
           rmap (showMessage ''Connection in progress'') (hear_events S a p (c_events c1)
             (W1\<lparr>mw_conn := Some p,
                mw_heap := (mw_heap W1)(p \<mapsto> \<lparr>v_conn = c1, v_closures = (\<lambda>_. None), v_log = []\<rparr>)\<rparr>))))"

definition registerAccount ::
  "ui_signals \<Rightarrow> nat \<times> nat \<Rightarrow> nat \<Rightarrow> cbuf \<Rightarrow> parser \<Rightarrow> net \<Rightarrow> account \<Rightarrow> window \<Rightarrow> window result" where
  "registerAccount S a p junk junk_parser net ac W =
     rmap (\<lambda>W1. W1\<lparr>mw_register := True\<rparr>) (connectServer S a p junk junk_parser net ac W)"

text \<open>\<open>khz\<close> is the frequency of the item as a number, times 1000, as a text again.\<close>

definition handleDXClusterDoubleClicked :: "nat \<Rightarrow> (string \<Rightarrow> string) \<Rightarrow> string \<Rightarrow> string \<Rightarrow> window \<Rightarrow> window result" where
  "handleDXClusterDoubleClicked a khz call freq W =
     rmap (\<lambda>W1. W1\<lparr>mw_dialogs := mw_dialogs W1 @ [(call, freq)]\<rparr>)
       (use_conn (mw_conn W) (ham_hamlib_set_frequency quiet a (cstr (khz freq)) None ()) W)"

text \<open>The rows of the dialog of modules; a null pointer is shown as an empty text.\<close>

definition module_row :: "ham_module \<Rightarrow> string list" where
  "module_row m = [case_option [] (\<lambda>s. s) (m_name m), case_option [] (\<lambda>s. s) (m_uri m), case_option [] (\<lambda>s. s) (m_desc m)]"

definition showAvailableModules :: "window \<Rightarrow> string list list result" where
  "showAvailableModules W = rmap (\<lambda>V. map module_row (connection_modules (v_conn V))) (deref (mw_conn W) W)"

definition qrz_registerAccount :: "string \<Rightarrow> string \<Rightarrow> window \<Rightarrow> window result" where
  "qrz_registerAccount username password W =
     use_conn (mw_conn W) (ham_qrz_register quiet (cstr username) (cstr password)) W"

text \<open>The dialog for an account at qrz.com: its signal, and whether it is accepted.\<close>

definition qrz_dialog_construct :: "nat \<Rightarrow> ui_signals \<Rightarrow> ui_signals result" where
  "qrz_dialog_construct d = register_handlers (Qrz_dialog d) [(''qrz-registered'', Handle_qrz_registered)]"

definition qrz_dialog_destruct :: "nat \<Rightarrow> ui_signals \<Rightarrow> ui_signals result option" where
  "qrz_dialog_destruct d = unregister_handlers (Qrz_dialog d) [(''qrz-registered'', Handle_qrz_registered)]"

definition handle_qrz_registered :: "int \<Rightarrow> bool \<Rightarrow> bool" where
  "handle_qrz_registered err accepted = (accepted \<or> err = 0)"

subsection \<open>The signals that reach the window\<close>

text \<open>The signals of the library with the window as their only handler, and dialogs \<open>ds\<close> for QRZ accounts.\<close>

definition window_calls :: "string \<Rightarrow> (ui_callback, ui_object) handler_pair list" where
  "window_calls name = (case map_of window_handlers name of
     None \<Rightarrow> [] | Some h \<Rightarrow> [\<lparr>pair_handler = h, pair_ui_data = The_window\<rparr>])"

definition dialog_calls :: "nat list \<Rightarrow> string \<Rightarrow> (ui_callback, ui_object) handler_pair list" where
  "dialog_calls ds name = (if name = ''qrz-registered''
     then map (\<lambda>d. \<lparr>pair_handler = Handle_qrz_registered, pair_ui_data = Qrz_dialog d\<rparr>) ds else [])"

definition window_ready :: "nat list \<Rightarrow> ui_signals \<Rightarrow> bool" where
  "window_ready ds S \<longleftrightarrow> sig_inv S \<and> sig_table S \<noteq> None
     \<and> (\<forall>name \<in> set library_signals. sig_abs S name = Some (window_calls name @ dialog_calls ds name))"

lemma library_names [simp]: "list_all no_nul library_signals"
  by (simp add: library_signals_def)

lemma dialogs_ignored:
  "run_callbacks a (map (\<lambda>q. (pair_handler q, p, data, err, pair_ui_data q)) (dialog_calls ds name)) W = Inr W"
  by (induction ds) (auto simp: dialog_calls_def run_callback_def)

lemma run_callbacks_append: "run_callbacks a (ks @ ls) W = rbind (run_callbacks a ks W) (run_callbacks a ls)"
  by (induction ks arbitrary: W) (auto simp: rbind_def split: sum.split)

lemma window_hears_value:
  assumes "window_ready ds S" and "name \<in> set library_signals"
  shows "window_hears S a p name data err W = (case map_of window_handlers name of
     None \<Rightarrow> Inr W | Some h \<Rightarrow> run_callback a (h, p, data, err, The_window) W)"
proof -
  have "no_nul name" using library_names assms(2) unfolding list_all_iff by blast
  with assms have "ham_signals_emit_signal name p data err S = Inr (map (\<lambda>q. (pair_handler q, p, data, err, pair_ui_data q))
      (window_calls name @ dialog_calls ds name))"
    by (simp add: window_ready_def emit_value)
  then show ?thesis
    by (auto simp: window_hears_def run_callbacks_append dialogs_ignored window_calls_def rbind_def
        split: option.split sum.split)
qed

lemma handler_names: "set (map fst window_handlers) \<subseteq> set library_signals" "distinct (map fst window_handlers)"
  by (simp_all add: window_handlers_def library_signals_def)

lemma hears_names:
  assumes "window_ready ds S"
  shows "window_hears S a p ''connection-connected'' data err W = handleConnected p W"
    and "window_hears S a p ''connection-disconnected'' data err W = Inr (handleDisconnected data W)"
    and "window_hears S a p ''account-logged-in'' data err W =
      (if err = 0 then handleLoggedIn a p W else Inr (handleLoginFailed data W))"
    and "window_hears S a p ''account-registered'' data err W =
      (if err = 0 then handleRegistered p W else Inr (handleRegistrationFailed data W))"
    and "window_hears S a p ''connection-request-sent'' data err W = Inr W"
proof -
  note all = window_hears_value [OF assms]
  show "window_hears S a p ''connection-connected'' data err W = handleConnected p W"
    "window_hears S a p ''connection-disconnected'' data err W = Inr (handleDisconnected data W)"
    "window_hears S a p ''account-logged-in'' data err W =
      (if err = 0 then handleLoggedIn a p W else Inr (handleLoginFailed data W))"
    "window_hears S a p ''account-registered'' data err W =
      (if err = 0 then handleRegistered p W else Inr (handleRegistrationFailed data W))"
    "window_hears S a p ''connection-request-sent'' data err W = Inr W"
    by (subst all; simp add: library_signals_def window_handlers_def run_callback_def)+
qed

text \<open>Registering and unregistering on the map of handlers.\<close>

lemma register_handlers_value:
  assumes "sig_inv S" and "sig_table S \<noteq> None" and "list_all no_nul (map fst hs)" and "distinct (map fst hs)"
    and "\<forall>n \<in> set (map fst hs). sig_abs S n \<noteq> None"
  shows "\<exists>S1. register_handlers u hs S = Inr S1 \<and> sig_inv S1 \<and> sig_table S1 \<noteq> None
    \<and> (\<forall>n. sig_abs S1 n = (case map_of hs n of None \<Rightarrow> sig_abs S n
        | Some h \<Rightarrow> Some (the (sig_abs S n) @ [\<lparr>pair_handler = h, pair_ui_data = u\<rparr>])))"
  using assms
proof (induction hs arbitrary: S)
  case (Cons x hs)
  obtain n h where x: "x = (n, h)" by (cases x)
  obtain ps where ps: "sig_abs S n = Some ps" using Cons.prems(5) x by auto
  obtain S1 where S1: "ham_signals_register_handler n h u S = Inr S1" "sig_inv S1" "sig_table S1 \<noteq> None"
    "sig_abs S1 = (sig_abs S)(n \<mapsto> ps @ [\<lparr>pair_handler = h, pair_ui_data = u\<rparr>])"
    using register_handler_value [OF Cons.prems(1) _ Cons.prems(2), of n h u] Cons.prems(3) x ps by auto
  have absent: "map_of hs n = None" using Cons.prems(4) x by (simp add: map_of_eq_None_iff)
  have "\<forall>k \<in> set (map fst hs). sig_abs S1 k \<noteq> None"
    using Cons.prems(5) S1(4) by auto
  from Cons.IH [OF S1(2,3) _ _ this] Cons.prems(3,4) x
  obtain S2 where S2: "register_handlers u hs S1 = Inr S2" "sig_inv S2" "sig_table S2 \<noteq> None"
    "\<forall>k. sig_abs S2 k = (case map_of hs k of None \<Rightarrow> sig_abs S1 k
        | Some h \<Rightarrow> Some (the (sig_abs S1 k) @ [\<lparr>pair_handler = h, pair_ui_data = u\<rparr>]))"
    by auto
  have "sig_abs S2 k = (case map_of (x # hs) k of None \<Rightarrow> sig_abs S k
      | Some h \<Rightarrow> Some (the (sig_abs S k) @ [\<lparr>pair_handler = h, pair_ui_data = u\<rparr>]))" for k
    using S2(4) S1(4) absent ps x by (cases "k = n") (auto split: option.splits)
  with S1(1) S2 x show ?case by auto
qed auto

lemma unregister_handlers_value:
  assumes "sig_inv S" and "list_all no_nul (map fst hs)" and "distinct (map fst hs)"
    and "\<forall>(n, h) \<in> set hs. sig_abs S n = Some (\<lparr>pair_handler = h, pair_ui_data = u\<rparr> # qs n)"
  shows "\<exists>S1. unregister_handlers u hs S = Some (Inr S1) \<and> sig_inv S1
    \<and> (\<forall>n. sig_abs S1 n = (if n \<in> set (map fst hs) then Some (qs n) else sig_abs S n))"
  using assms
proof (induction hs arbitrary: S)
  case (Cons x hs)
  obtain n h where x: "x = (n, h)" by (cases x)
  obtain S1 where S1: "ham_signals_unregister_handler n h u S = Some (Inr S1)" "sig_inv S1"
    "sig_abs S1 = (sig_abs S)(n \<mapsto> qs n)"
    using unregister_first [OF Cons.prems(1), of n h u "qs n"] Cons.prems(2,4) x by auto
  have "\<forall>(k, h) \<in> set hs. sig_abs S1 k = Some (\<lparr>pair_handler = h, pair_ui_data = u\<rparr> # qs k)"
    using Cons.prems(3,4) S1(3) x by (force simp: image_iff)
  from Cons.IH [OF S1(2) _ _ this] Cons.prems(2,3) x
  obtain S2 where "unregister_handlers u hs S1 = Some (Inr S2)" "sig_inv S2"
    "\<forall>k. sig_abs S2 k = (if k \<in> set (map fst hs) then Some (qs k) else sig_abs S1 k)"
    by auto
  with S1 x show ?case by auto
qed auto

lemma construct_ready:
  "\<exists>S0 S1. ham_initialize signals0 = Inr S0 \<and> (\<forall>k. sig_abs S0 k = (if k \<in> set library_signals then Some [] else None))
    \<and> window_construct S0 = Inr S1 \<and> window_ready [] S1
    \<and> (\<forall>n. sig_abs S1 n = (if n \<in> set library_signals then Some (window_calls n) else None))"
proof -
  obtain S0 :: ui_signals where S0: "ham_initialize signals0 = Inr S0" "sig_inv S0" "sig_table S0 \<noteq> None"
    "\<forall>k. sig_abs S0 k = (if k \<in> set library_signals then Some [] else None)"
    using initialize_value by blast
  have names: "list_all no_nul (map fst window_handlers)" by (simp add: window_handlers_def)
  have known: "\<forall>n \<in> set (map fst window_handlers). sig_abs S0 n \<noteq> None"
    using S0(4) handler_names(1) by auto
  obtain S1 where S1: "window_construct S0 = Inr S1" "sig_inv S1" "sig_table S1 \<noteq> None"
    "\<forall>n. sig_abs S1 n = (case map_of window_handlers n of None \<Rightarrow> sig_abs S0 n
        | Some h \<Rightarrow> Some (the (sig_abs S0 n) @ [\<lparr>pair_handler = h, pair_ui_data = The_window\<rparr>]))"
    unfolding window_construct_def
    using register_handlers_value [OF S0(2,3) names handler_names(2) known] by blast
  have "n \<in> set library_signals" if "map_of window_handlers n = Some h" for n h
    using handler_names(1) map_of_SomeD [OF that] by force
  then have abs: "sig_abs S1 n = (if n \<in> set library_signals then Some (window_calls n) else None)" for n
    using S1(4) S0(4) by (auto simp: window_calls_def split: option.split)
  have "window_ready [] S1"
    unfolding window_ready_def dialog_calls_def using S1(2,3) abs by simp
  with S0(1,4) S1(1) abs show ?thesis by blast
qed

subsection \<open>The connections the window holds\<close>

text \<open>
  Of the connections only that of the window exists; the widgets hold the same one, which may be
  another, and the timer runs when they hold one.
\<close>

definition window_inv :: "window \<Rightarrow> bool" where
  "window_inv W \<longleftrightarrow> (\<forall>p. mw_heap W p \<noteq> None \<longleftrightarrow> mw_conn W = Some p)
     \<and> mw_logbook_conn W = mw_cluster_conn W \<and> mw_earth_conn W = mw_cluster_conn W
     \<and> (mw_timer W \<longleftrightarrow> mw_cluster_conn W \<noteq> None)"

text \<open>What a step changes of the pointers.\<close>

definition same_pointers :: "window \<Rightarrow> window \<Rightarrow> bool" where
  "same_pointers W W1 \<longleftrightarrow> mw_conn W1 = mw_conn W \<and> mw_logbook_conn W1 = mw_logbook_conn W
     \<and> mw_earth_conn W1 = mw_earth_conn W \<and> mw_cluster_conn W1 = mw_cluster_conn W \<and> mw_timer W1 = mw_timer W
     \<and> (\<forall>p. mw_heap W1 p = None \<longleftrightarrow> mw_heap W p = None)"

lemma same_pointers_inv: "same_pointers W W1 \<Longrightarrow> window_inv W \<Longrightarrow> window_inv W1"
  by (simp add: same_pointers_def window_inv_def)

lemma same_pointers_refl: "same_pointers W W"
  by (simp add: same_pointers_def)

lemma same_pointers_trans: "same_pointers W W1 \<Longrightarrow> same_pointers W1 W2 \<Longrightarrow> same_pointers W W2"
  by (simp add: same_pointers_def)

lemma same_pointers_texts [simp]:
  "same_pointers W (showMessage m W)" "same_pointers W (critical t m W)"
  "same_pointers (showMessage m W) W1 = same_pointers W W1"
  "same_pointers W (handleDisconnected m W)" "same_pointers W (handleLoginFailed m W)"
  "same_pointers W (handleRegistrationFailed m W)"
  by (simp_all add: same_pointers_def showMessage_def critical_def handleDisconnected_def handleLoginFailed_def
      handleRegistrationFailed_def)

lemma use_conn_pointers: "use_conn c f W = Inr W1 \<Longrightarrow> same_pointers W W1"
  by (auto simp: use_conn_def deref_def same_pointers_def rbind_Inr_iff rmap_def split: option.splits if_splits)

lemma fetch_pointers:
  "logbook_fetch a W = Inr W1 \<Longrightarrow> same_pointers W W1"
  "cluster_fetch a W = Inr W1 \<Longrightarrow> same_pointers W W1"
  "earth_showCall a call W = Inr W1 \<Longrightarrow> same_pointers W W1"
  by (auto simp: logbook_fetch_def cluster_fetch_def earth_showCall_def same_pointers_refl use_conn_pointers
      split: option.splits)

lemma handleConnected_pointers: "handleConnected p W = Inr W1 \<Longrightarrow> same_pointers W W1"
  by (auto simp: handleConnected_def rmap_def rbind_Inr_iff split: if_splits dest!: use_conn_pointers)
    (auto simp: same_pointers_def showMessage_def)

lemma handleRegistered_pointers: "handleRegistered p W = Inr W1 \<Longrightarrow> same_pointers W W1"
  by (auto simp: handleRegistered_def dest!: use_conn_pointers)

text \<open>After the login the widgets hold the connection that logged in.\<close>

lemma handleLoggedIn_pointers:
  assumes "handleLoggedIn a p W = Inr W1"
  shows "mw_heap W p \<noteq> None"
    and "same_pointers (cluster_setConnection (Some p) (earth_setConnection (Some p) (logbook_setConnection (Some p) W))) W1"
proof -
  obtain V W2 where V: "mw_heap W p = Some V"
    and fetch: "logbook_fetch (fst a) (logbook_setConnection (Some p) ((showMessage ''Fetching logbook''
        (showMessage ''Logged in!'' W))\<lparr>mw_info := ''Username: '' @ c_username (v_conn V) @ ''     ''\<rparr>)) = Inr W2"
      "cluster_fetch (snd a) (cluster_setConnection (Some p) (earth_setConnection (Some p) W2)) = Inr W1"
    using assms
    by (auto simp: handleLoggedIn_def Let_def rbind_Inr_iff deref_def showMessage_def split: option.splits)
  show "mw_heap W p \<noteq> None" using V by simp
  show "same_pointers (cluster_setConnection (Some p) (earth_setConnection (Some p) (logbook_setConnection (Some p) W))) W1"
    using fetch_pointers(1) [OF fetch(1)] fetch_pointers(2) [OF fetch(2)]
    by (simp add: same_pointers_def cluster_setConnection_def earth_setConnection_def logbook_setConnection_def
        showMessage_def)
qed

lemma logged_in_inv: "handleLoggedIn a p W = Inr W1 \<Longrightarrow> window_inv W \<Longrightarrow> window_inv W1"
  using handleLoggedIn_pointers [of a p W W1]
  by (auto simp: window_inv_def same_pointers_def cluster_setConnection_def earth_setConnection_def
      logbook_setConnection_def)

lemma texts_inv [simp]:
  "window_inv (showMessage m W) = window_inv W" "window_inv (handleDisconnected m W) = window_inv W"
  "window_inv (handleLoginFailed m W) = window_inv W" "window_inv (handleRegistrationFailed m W) = window_inv W"
  by (simp_all add: window_inv_def showMessage_def critical_def handleDisconnected_def handleLoginFailed_def
      handleRegistrationFailed_def)

lemma run_callback_inv: "run_callback a k W = Inr W1 \<Longrightarrow> window_inv W \<Longrightarrow> window_inv W1"
  by (auto simp: run_callback_def split: prod.splits ui_callback.splits if_splits
      intro: logged_in_inv same_pointers_inv handleConnected_pointers handleRegistered_pointers)

lemma hears_inv:
  assumes "window_hears S a p name data err W = Inr W1" and "window_inv W"
  shows "window_inv W1"
proof -
  have "run_callbacks a ks W = Inr W1 \<Longrightarrow> window_inv W \<Longrightarrow> window_inv W1" for ks W
    by (induction ks arbitrary: W) (auto simp: rbind_Inr_iff dest: run_callback_inv)
  with assms show ?thesis by (auto simp: window_hears_def rbind_Inr_iff)
qed

lemma hear_events_inv: "hear_events S a p es W = Inr W1 \<Longrightarrow> window_inv W \<Longrightarrow> window_inv W1"
  by (induction S a p es W rule: hear_events.induct) (auto simp: rbind_Inr_iff dest: hears_inv)

text \<open>What connecting does before and after the signals it emits.\<close>

lemma connectServer_parts:
  assumes "connectServer S a p junk junk_parser net ac W = Inr W1"
  shows "\<exists>c c1 V W2. ham_connection_new True True junk junk_parser (cstr (ac_server ac)) (ac_port ac)
      (cstr (ac_username ac)) (cstr (ac_password ac)) = Some c \<and> ham_connection_connect quiet net None c = Inr c1
    \<and> hear_events S a p (c_events c1) (W\<lparr>mw_register := False, mw_conn := Some p,
        mw_heap := ((mw_heap W)(p \<mapsto> V)) |` ({p} \<union> - set_option (mw_conn W))\<rparr>) = Inr W2
    \<and> W1 = showMessage ''Connection in progress'' W2"
proof -
  obtain W0 c c1 W2 where parts: "ham_connection_destroy (mw_conn W) (W\<lparr>mw_register := False\<rparr>) = Inr W0"
    "ham_connection_new True True junk junk_parser (cstr (ac_server ac)) (ac_port ac)
      (cstr (ac_username ac)) (cstr (ac_password ac)) = Some c"
    "ham_connection_connect quiet net None c = Inr c1"
    "hear_events S a p (c_events c1) (W0\<lparr>mw_conn := Some p,
        mw_heap := (mw_heap W0)(p \<mapsto> \<lparr>v_conn = c1, v_closures = (\<lambda>_. None), v_log = []\<rparr>)\<rparr>) = Inr W2"
    "W1 = showMessage ''Connection in progress'' W2"
    using assms by (auto simp: connectServer_def rbind_Inr_iff rmap_def split: option.splits)
  let ?V = "\<lparr>v_conn = c1, v_closures = (\<lambda>_. None), v_log = []\<rparr> :: library"
  have "W0\<lparr>mw_conn := Some p, mw_heap := (mw_heap W0)(p \<mapsto> ?V)\<rparr>
    = W\<lparr>mw_register := False, mw_conn := Some p,
        mw_heap := ((mw_heap W)(p \<mapsto> ?V)) |` ({p} \<union> - set_option (mw_conn W))\<rparr>"
    using parts(1)
    by (auto simp: ham_connection_destroy_def rbind_Inr_iff rmap_def restrict_map_def fun_eq_iff split: option.splits)
  with parts show ?thesis by metis
qed

lemma connectServer_inv:
  assumes "connectServer S a p junk junk_parser net ac W = Inr W1" and "window_inv W"
  shows "window_inv W1"
proof -
  obtain es V W2 where run: "hear_events S a p es (W\<lparr>mw_register := False, mw_conn := Some p,
        mw_heap := ((mw_heap W)(p \<mapsto> V)) |` ({p} \<union> - set_option (mw_conn W))\<rparr>) = Inr W2"
    "W1 = showMessage ''Connection in progress'' W2"
    using connectServer_parts [OF assms(1)] by metis
  have "window_inv (W\<lparr>mw_register := False, mw_conn := Some p,
        mw_heap := ((mw_heap W)(p \<mapsto> V)) |` ({p} \<union> - set_option (mw_conn W))\<rparr>)"
    using assms(2) by (auto simp: window_inv_def restrict_map_def elem_set)
  from hear_events_inv [OF run(1) this] show ?thesis by (simp add: run(2))
qed

text \<open>Connecting itself only emits that it has failed, or that it has sent a request.\<close>

lemma connect_emits:
  assumes "ham_connection_connect quiet net null c = Inr c1" and "c_events c = []"
  shows "\<forall>name data err. Emitted name data err \<in> set (c_events c1) \<longrightarrow>
    name = ''connection-disconnected'' \<or> name = ''connection-request-sent''"
  using assms
  by (auto simp: ham_connection_connect_def happen_def quiet_def log_event_def Let_def rbind_Inr_iff
      ham_connection_fetch_available_modules_def ham_connection_send_def split: if_splits option.splits)

lemma hear_events_pointers:
  assumes "window_ready ds S" and "\<forall>name data err. Emitted name data err \<in> set es \<longrightarrow>
    name = ''connection-disconnected'' \<or> name = ''connection-request-sent''"
  shows "\<exists>W1. hear_events S a p es W = Inr W1 \<and> same_pointers W W1 \<and> mw_heap W1 = mw_heap W"
  using assms(2)
proof (induction es arbitrary: W)
  case (Cons e es)
  have rest: "\<exists>W1. hear_events S a p es W = Inr W1 \<and> same_pointers W W1 \<and> mw_heap W1 = mw_heap W" for W
  proof (rule Cons.IH, intro allI impI)
    fix name data err assume "Emitted name data err \<in> set es"
    then show "name = ''connection-disconnected'' \<or> name = ''connection-request-sent''"
      using Cons.prems [rule_format, of name data err] by simp
  qed
  show ?case
  proof (cases e)
    case (Emitted name data err)
    with Cons.prems have "name = ''connection-disconnected'' \<or> name = ''connection-request-sent''" by simp
    then have "window_hears S a p name data err W = Inr (handleDisconnected data W)
        \<or> window_hears S a p name data err W = Inr W"
      by (elim disjE) (simp_all add: hears_names(2,5) [OF assms(1)])
    then obtain W2 where "window_hears S a p name data err W = Inr W2" "same_pointers W W2"
      "mw_heap W2 = mw_heap W"
      using same_pointers_refl [of W] same_pointers_texts(4) [of W data]
      by (elim disjE) (simp_all add: handleDisconnected_def showMessage_def)
    with rest [of W2] Emitted show ?thesis by (auto intro: same_pointers_trans)
  qed (use rest in auto)
qed (simp add: same_pointers_refl)

subsection \<open>The window as a state machine\<close>

text \<open>
  The user connects or registers, clicks a spot or asks for a QRZ account; the library works on a
  connection that exists, or emits a signal of it; the timer of the spots runs; a spot arrives. The
  address of a new connection is one that is free when the old connection is destroyed.
\<close>

inductive window_step :: "ui_signals \<Rightarrow> window \<Rightarrow> window \<Rightarrow> bool" for S where
  connect: "mw_heap W p = None \<or> mw_conn W = Some p \<Longrightarrow>
    connectServer S a p junk junk_parser net ac W = Inr W1 \<Longrightarrow> window_step S W W1"
| register: "mw_heap W p = None \<or> mw_conn W = Some p \<Longrightarrow>
    registerAccount S a p junk junk_parser net ac W = Inr W1 \<Longrightarrow> window_step S W W1"
| signal: "mw_heap W p \<noteq> None \<Longrightarrow> window_hears S a p name data err W = Inr W1 \<Longrightarrow> window_step S W W1"
| progress: "mw_heap W p \<noteq> None \<Longrightarrow> window_step S W (W\<lparr>mw_heap := (mw_heap W)(p \<mapsto> V)\<rparr>)"
| timer: "mw_timer W \<Longrightarrow> cluster_fetch b W = Inr W1 \<Longrightarrow> window_step S W W1"
| spot: "earth_showCall b call W = Inr W1 \<Longrightarrow> window_step S W W1"
| clicked: "handleDXClusterDoubleClicked b khz call freq W = Inr W1 \<Longrightarrow> window_step S W W1"
| qrz: "qrz_registerAccount username password W = Inr W1 \<Longrightarrow> window_step S W W1"

inductive window_steps :: "ui_signals \<Rightarrow> window \<Rightarrow> window \<Rightarrow> bool" for S where
  none: "window_steps S W W"
| more: "window_steps S W W1 \<Longrightarrow> window_step S W1 W2 \<Longrightarrow> window_steps S W W2"

lemma clicked_inv: "handleDXClusterDoubleClicked b khz call freq W = Inr W1 \<Longrightarrow> window_inv W \<Longrightarrow> window_inv W1"
  by (auto simp: handleDXClusterDoubleClicked_def rmap_def rbind_Inr_iff dest!: use_conn_pointers)
    (auto simp: window_inv_def same_pointers_def)

lemma window_step_inv:
  assumes "window_step S W W1" and "window_inv W"
  shows "window_inv W1"
  using assms(1)
proof cases
  case (register p a junk junk_parser net ac)
  then obtain W2 where "connectServer S a p junk junk_parser net ac W = Inr W2" "W1 = W2\<lparr>mw_register := True\<rparr>"
    by (auto simp: registerAccount_def rmap_def rbind_Inr_iff)
  with connectServer_inv [OF this(1) assms(2)] show ?thesis by (simp add: window_inv_def)
next
  case (qrz username password)
  then show ?thesis using assms(2) by (auto simp: qrz_registerAccount_def dest!: use_conn_pointers intro: same_pointers_inv)
next
  case (progress p V)
  with assms(2) show ?thesis by (auto simp: window_inv_def)
next
  case (connect p a junk junk_parser net ac)
  from connectServer_inv [OF connect(2) assms(2)] show ?thesis .
next
  case (signal p a name data err)
  from hears_inv [OF signal(2) assms(2)] show ?thesis .
next
  case (timer b)
  from same_pointers_inv [OF fetch_pointers(2) [OF timer(2)] assms(2)] show ?thesis .
next
  case (spot b call)
  from same_pointers_inv [OF fetch_pointers(3) [OF spot] assms(2)] show ?thesis .
next
  case (clicked b khz call freq)
  from clicked_inv [OF clicked assms(2)] show ?thesis .
qed

lemma window_steps_inv: "window_steps S W W1 \<Longrightarrow> window_inv W \<Longrightarrow> window_inv W1"
  by (induction rule: window_steps.induct) (auto dest: window_step_inv)

lemma window_new_inv: "window_inv window_new"
  by (simp add: window_inv_def window_new_def)

text \<open>What the widgets do with a connection that does not exist.\<close>

lemma freed_connection:
  assumes "window_inv W" and "mw_cluster_conn W = Some q" and "mw_conn W \<noteq> Some q"
  shows "mw_timer W" and "cluster_fetch b W = Inl Dangling" and "logbook_fetch b W = Inl Dangling"
    and "earth_showCall b call W = Inl Dangling"
proof -
  have "mw_heap W q = None" using assms(1,3) unfolding window_inv_def by blast
  moreover have "mw_logbook_conn W = Some q" "mw_earth_conn W = Some q" "mw_timer W"
    using assms(1,2) by (auto simp: window_inv_def)
  ultimately show "mw_timer W" "cluster_fetch b W = Inl Dangling" "logbook_fetch b W = Inl Dangling"
    "earth_showCall b call W = Inl Dangling"
    using assms(2)
    by (simp_all add: cluster_fetch_def logbook_fetch_def earth_showCall_def use_conn_def deref_def)
qed

subsection \<open>What the window sends\<close>

abbreviation pending :: "window \<Rightarrow> nat \<Rightarrow> (service reply_handler option \<times> nat option) list" where
  "pending W p \<equiv> c_handlers (v_conn (the (mw_heap W p)))"

lemma use_conn_value:
  "mw_heap W p = Some V \<Longrightarrow> f V = Inr V1 \<Longrightarrow> use_conn (Some p) f W = Inr (W\<lparr>mw_heap := (mw_heap W)(p \<mapsto> V1)\<rparr>)"
  by (simp add: use_conn_def deref_def)

lemma account_requests:
  assumes "c_fd (v_conn V) \<noteq> -1"
  shows "\<exists>V1. ham_account_login quiet V = Inr V1
      \<and> c_handlers (v_conn V1) = c_handlers (v_conn V) @ [(Some (Client_handler S_login1), None)]"
    and "\<exists>V1. ham_account_register quiet V = Inr V1
      \<and> c_handlers (v_conn V1) = c_handlers (v_conn V) @ [(Some (Client_handler S_register), None)]"
  using send_request_value [OF _ assms, of None None "''/login''" "''GET''" "[]" S_login1 None]
    send_request_value [OF _ assms, of None None "''/register''" "''GET''"
      "[(''username'', c_username (v_conn V)), (''password'', c_password (v_conn V))]" S_register None]
  by (auto simp: ham_account_login_def ham_account_register_def sendable_def)

lemma logged_in_value:
  assumes "mw_heap W p = Some V" and "c_fd (v_conn V) \<noteq> -1" and "\<forall>m \<in> set (connection_modules (v_conn V)). m_uri m \<noteq> None"
  shows "\<exists>W1. handleLoggedIn (a, b) p W = Inr W1
    \<and> pending W1 p = c_handlers (v_conn V) @ (Some (Client_handler S_logbook_fetch), Some a)
        # replicate (of_type DXCLUSTER (connection_modules (v_conn V))) (Some (Client_handler S_dxcluster), Some b)"
proof -
  let ?W0 = "logbook_setConnection (Some p) ((showMessage ''Fetching logbook'' (showMessage ''Logged in!'' W))
      \<lparr>mw_info := ''Username: '' @ c_username (v_conn V) @ ''     ''\<rparr>)"
  let ?k = "new_closure (Some Logbook_fetched) ()" and ?l = "new_closure (Some Cluster_fetched) ()"
  obtain V1 where V1: "ham_logbook_fetch quiet a (Some Logbook_fetched) () V = Inr V1"
    "c_handlers (v_conn V1) = c_handlers (v_conn V) @ [(Some (Client_handler S_logbook_fetch), Some a)]"
    "c_fd (v_conn V1) = c_fd (v_conn V)" "c_modules (v_conn V1) = c_modules (v_conn V)"
    using send_request_value [of None None "add_closure a ?k V" "''/logbook''" "''GET''" "[]" S_logbook_fetch "Some a"] assms(2)
    by (auto simp: ham_logbook_fetch_def sendable_def add_closure_def)
  have modules: "connection_modules (v_conn V1) = connection_modules (v_conn V)"
    by (simp add: connection_modules_def V1(4))
  obtain V2 where V2: "ham_dxcluster_fetch quiet b (Some Cluster_fetched) () V1 = Inr V2"
    "c_handlers (v_conn V2) = c_handlers (v_conn V1)
       @ replicate (of_type DXCLUSTER (connection_modules (v_conn V))) (Some (Client_handler S_dxcluster), Some b)"
    using ask_modules_value [of None None "add_closure b ?l V1" "connection_modules (v_conn V)" b ?l DXCLUSTER "''GET''" S_dxcluster]
      assms(2,3) V1(3)
    by (auto simp: ham_dxcluster_fetch_def modules sendable_def add_closure_def)
  have fetch: "logbook_fetch a ?W0 = Inr (?W0\<lparr>mw_heap := (mw_heap ?W0)(p \<mapsto> V1)\<rparr>)" (is "_ = Inr ?W1")
    by (simp add: logbook_fetch_def logbook_setConnection_def showMessage_def use_conn_def deref_def assms(1) V1(1))
  let ?W2 = "cluster_setConnection (Some p) (earth_setConnection (Some p) ?W1)"
  have "cluster_fetch b ?W2 = Inr (?W2\<lparr>mw_heap := (mw_heap ?W2)(p \<mapsto> V2)\<rparr>)" (is "_ = Inr ?W3")
    by (simp add: cluster_fetch_def cluster_setConnection_def use_conn_value earth_setConnection_def V2(1))
  with fetch have "handleLoggedIn (a, b) p W = Inr ?W3"
    by (simp add: handleLoggedIn_def Let_def deref_def showMessage_def assms(1))
  moreover have "pending ?W3 p = c_handlers (v_conn V2)" by simp
  ultimately show ?thesis using V2(2) V1(2) by auto
qed

text \<open>A connection that was not made looks as if it were still being made.\<close>

lemma failed_connect_looks_in_progress:
  assumes "window_ready ds S" and "mw_conn W = None" and "\<not> n_resolved net"
  shows "\<exists>W1 V. connectServer S a p junk junk_parser net ac W = Inr W1 \<and> mw_status W1 = ''Connection in progress''
    \<and> mw_heap W1 p = Some V \<and> c_fd (v_conn V) = -1"
  using assms
  by (simp add: connectServer_def ham_connection_destroy_def ham_connection_new_def ham_connection_connect_def
      happen_def quiet_def log_event_def hears_names(2) [OF assms(1)] handleDisconnected_def showMessage_def rmap_def)

text \<open>A first connection that is made, up to its request for the modules.\<close>

lemma first_connection:
  assumes "window_ready ds S" and "mw_conn W = None" and "mw_heap W = (\<lambda>_. None)"
    and "n_resolved net" and "n_socket net \<noteq> -1" and "n_connected net"
  shows "\<exists>W1 V. connectServer S a p junk junk_parser net ac W = Inr W1 \<and> mw_conn W1 = Some p \<and> mw_heap W1 p = Some V
    \<and> c_fd (v_conn V) = n_socket net \<and> connection_modules (v_conn V) = []"
proof -
  obtain c :: "(service, nat option) connection" where c: "ham_connection_new True True junk junk_parser (cstr (ac_server ac)) (ac_port ac)
      (cstr (ac_username ac)) (cstr (ac_password ac)) = Some c" "c_fd c = -1" "c_events c = []"
      "connection_modules c = []"
    by (simp add: ham_connection_new_def connection_modules_def all_items_def ham_hash_table_new_def
        ham_hash_table_set_free_func_def)
  obtain c1 where c1: "ham_connection_connect quiet net None c = Inr c1" "c_fd c1 = n_socket net"
    "c_modules c1 = c_modules c"
    using assms(4-6) c(2)
    by (simp add: ham_connection_connect_def Let_def ham_connection_fetch_available_modules_def ham_request_new_def
        ham_connection_send_def get_data_value happen_def quiet_def log_event_def)
  let ?V = "\<lparr>v_conn = c1, v_closures = (\<lambda>_. None), v_log = []\<rparr> :: library"
  let ?W = "W\<lparr>mw_register := False, mw_conn := Some p, mw_heap := (mw_heap W)(p \<mapsto> ?V)\<rparr>"
  obtain W2 where W2: "hear_events S a p (c_events c1) ?W = Inr W2" "same_pointers ?W W2" "mw_heap W2 = mw_heap ?W"
    using hear_events_pointers [OF assms(1) connect_emits [OF c1(1) c(3)], of a p ?W] by blast
  have "connectServer S a p junk junk_parser net ac W = Inr (showMessage ''Connection in progress'' W2)"
    using c(1) c1(1) W2(1) by (simp add: connectServer_def assms(2) ham_connection_destroy_def)
  with W2(2,3) c1 c(4) show ?thesis by (simp add: same_pointers_def showMessage_def connection_modules_def)
qed

text \<open>A window after a login, to try the properties on.\<close>

definition sample_net :: "bool \<Rightarrow> net" where
  "sample_net ok = \<lparr>n_resolved = ok, n_socket = 3, n_connected = ok, n_input = ok, n_error = ''unknown host''\<rparr>"

definition sample_account :: account where
  "sample_account = \<lparr>ac_server = ''localhost'', ac_port = 7531, ac_username = ''ok1'', ac_password = ''secret''\<rparr>"

lemma sample_connection:
  assumes "window_ready ds S"
  shows "\<exists>W1 V. connectServer S (0, 0) 10 (\<lambda>_. NUL) parser0 (sample_net True) sample_account window_new = Inr W1
    \<and> mw_conn W1 = Some 10 \<and> mw_heap W1 10 = Some V \<and> c_fd (v_conn V) = 3 \<and> connection_modules (v_conn V) = []"
  using first_connection [OF assms, of window_new "sample_net True" "(0, 0)" 10 "\<lambda>_. NUL" parser0 sample_account]
  by (simp add: window_new_def sample_net_def)

lemma sample_window:
  "\<exists>S W. window_ready [] S \<and> window_steps S window_new W \<and> mw_conn W = Some 10 \<and> mw_cluster_conn W = Some 10
    \<and> mw_heap W 10 \<noteq> None"
proof -
  obtain S where S: "window_ready [] S" using construct_ready by blast
  obtain W1 V where W1: "connectServer S (0, 0) 10 (\<lambda>_. NUL) parser0 (sample_net True) sample_account window_new = Inr W1"
    "mw_conn W1 = Some 10" "mw_heap W1 10 = Some V" "c_fd (v_conn V) = 3" "connection_modules (v_conn V) = []"
    using sample_connection [OF S] by blast
  obtain W2 where W2: "handleLoggedIn (5, 6) 10 W1 = Inr W2" using logged_in_value [OF W1(3)] W1(4,5) by auto
  have "window_step S window_new W1"
    by (rule window_step.connect [OF _ W1(1)]) (simp add: window_new_def)
  moreover have "window_step S W1 W2"
    by (rule window_step.signal [of W1 10 S "(5, 6)" "''account-logged-in''" "[]" 0])
      (simp_all add: W1(3) hears_names(3) [OF S] W2)
  ultimately have "window_steps S window_new W2" by (blast intro: window_steps.intros)
  moreover have "mw_conn W2 = Some 10" "mw_cluster_conn W2 = Some 10" "mw_heap W2 10 \<noteq> None"
    using W1(2,3) handleLoggedIn_pointers(2) [OF W2]
    by (simp_all add: same_pointers_def cluster_setConnection_def earth_setConnection_def logbook_setConnection_def)
  ultimately show ?thesis using S by blast
qed

subsection \<open>The properties\<close>

text \<open>
  C20. Whatever the user, the library and the timer do, the window's pointer and the connections that
  exist are the same: none leaks, and none that the window itself uses is freed. The table of records,
  the map and the table of spots hold one and the same connection, and the timer runs when they do; if
  this is not the window's connection, then everything they do with it uses a freed object.
\<close>

theorem window_connections:
  assumes "window_steps S window_new W"
  shows "(\<forall>p. mw_heap W p \<noteq> None \<longleftrightarrow> mw_conn W = Some p)
    \<and> mw_logbook_conn W = mw_cluster_conn W \<and> mw_earth_conn W = mw_cluster_conn W
    \<and> (mw_timer W \<longleftrightarrow> mw_cluster_conn W \<noteq> None)
    \<and> (mw_cluster_conn W \<noteq> None \<and> mw_cluster_conn W \<noteq> mw_conn W \<longrightarrow>
        cluster_fetch b W = Inl Dangling \<and> logbook_fetch b W = Inl Dangling \<and> earth_showCall b call W = Inl Dangling)"
proof -
  have inv: "window_inv W" by (rule window_steps_inv [OF assms window_new_inv])
  moreover have "cluster_fetch b W = Inl Dangling \<and> logbook_fetch b W = Inl Dangling \<and> earth_showCall b call W = Inl Dangling"
    if "mw_cluster_conn W \<noteq> None" "mw_cluster_conn W \<noteq> mw_conn W"
    using that freed_connection [OF inv] by fastforce
  ultimately show ?thesis unfolding window_inv_def by blast
qed

theorem window_connections_witness:
  "\<exists>S W. window_steps S window_new W \<and> mw_heap W 10 \<noteq> None \<and> mw_logbook_conn W = Some 10 \<and> mw_earth_conn W = Some 10 \<and> mw_timer W"
proof -
  obtain S W where W: "window_steps S window_new W" "mw_conn W = Some 10" "mw_cluster_conn W = Some 10"
    using sample_window by blast
  with window_connections [OF W(1), of 0 "[]"] show ?thesis by (intro exI [of _ S] exI [of _ W]) simp
qed

text \<open>
  A second connection makes the client use the first, which is freed: when the user connects again
  after a login, the timer of the spots goes on running with the pointer to the old connection, and
  its next tick reads memory that was freed, unless the new connection happens to be at the same address.
\<close>

theorem reconnect_uses_freed_connection:
  assumes "window_ready ds S" and "window_steps S window_new W" and "mw_cluster_conn W = Some q"
    and "connectServer S a p junk junk_parser net ac W = Inr W1" and "p \<noteq> q"
  shows "mw_conn W1 = Some p \<and> mw_cluster_conn W1 = Some q \<and> mw_timer W1 \<and> cluster_fetch b W1 = Inl Dangling"
proof -
  have inv: "window_inv W" by (rule window_steps_inv [OF assms(2) window_new_inv])
  obtain c c1 V W2 where parts: "ham_connection_new True True junk junk_parser (cstr (ac_server ac)) (ac_port ac)
      (cstr (ac_username ac)) (cstr (ac_password ac)) = Some c" "ham_connection_connect quiet net None c = Inr c1"
    "hear_events S a p (c_events c1) (W\<lparr>mw_register := False, mw_conn := Some p,
        mw_heap := ((mw_heap W)(p \<mapsto> V)) |` ({p} \<union> - set_option (mw_conn W))\<rparr>) = Inr W2" (is "hear_events _ _ _ _ ?W = _")
    "W1 = showMessage ''Connection in progress'' W2"
    using connectServer_parts [OF assms(4)] by blast
  have "c_events c = []" using parts(1) by (auto simp: ham_connection_new_def)
  from hear_events_pointers [OF assms(1) connect_emits [OF parts(2) this], of a p ?W] parts(3)
  have "same_pointers ?W W2" by auto
  then have "mw_conn W1 = Some p" "mw_cluster_conn W1 = Some q"
    using assms(3) parts(4) by (simp_all add: same_pointers_def showMessage_def)
  with freed_connection [OF connectServer_inv [OF assms(4) inv]] assms(5) show ?thesis by fastforce
qed

theorem reconnect_uses_freed_connection_witness:
  "\<exists>S W W1. window_steps S window_new W
    \<and> connectServer S (0, 0) 20 (\<lambda>_. NUL) parser0 (sample_net False) sample_account W = Inr W1
    \<and> mw_timer W1 \<and> cluster_fetch 7 W1 = Inl Dangling"
proof -
  obtain S W where W: "window_ready [] S" "window_steps S window_new W" "mw_conn W = Some 10" "mw_cluster_conn W = Some 10"
    "mw_heap W 10 \<noteq> None"
    using sample_window by blast
  obtain W1 where W1: "connectServer S (0, 0) 20 (\<lambda>_. NUL) parser0 (sample_net False) sample_account W = Inr W1"
    using W(3,5)
    by (auto simp: connectServer_def ham_connection_destroy_def deref_def ham_connection_new_def sample_net_def
        ham_connection_connect_def happen_def quiet_def log_event_def hears_names(2) [OF W(1)])
  from reconnect_uses_freed_connection [OF W(1,2,4) this, of 7] W(2) W1 show ?thesis by auto
qed

text \<open>
  C21. What the window does when the library signals: connected, it registers the account when it was
  asked to and logs in otherwise; registered, it logs in; logged in, it gives the connection to its
  widgets and fetches the records and, from each module of a cluster, the spots; each request joins the
  queue of the connection behind those that wait for replies. When the login has failed nothing is sent.
\<close>

theorem login_conversation:
  assumes "window_ready ds S" and "mw_heap W p = Some V" and "c_fd (v_conn V) \<noteq> -1"
    and "\<forall>m \<in> set (connection_modules (v_conn V)). m_uri m \<noteq> None"
  shows "(\<exists>W1. window_hears S (a, b) p ''connection-connected'' [] 0 W = Inr W1
      \<and> pending W1 p = pending W p @ [(Some (Client_handler (if mw_register W then S_register else S_login1)), None)])
    \<and> (\<exists>W1. window_hears S (a, b) p ''account-registered'' [] 0 W = Inr W1
      \<and> pending W1 p = pending W p @ [(Some (Client_handler S_login1), None)])
    \<and> (\<exists>W1. window_hears S (a, b) p ''account-logged-in'' [] 0 W = Inr W1
      \<and> pending W1 p = pending W p @ (Some (Client_handler S_logbook_fetch), Some a)
          # replicate (of_type DXCLUSTER (connection_modules (v_conn V))) (Some (Client_handler S_dxcluster), Some b)
      \<and> mw_logbook_conn W1 = Some p \<and> mw_earth_conn W1 = Some p \<and> mw_cluster_conn W1 = Some p \<and> mw_timer W1)
    \<and> (\<exists>W1. window_hears S (a, b) p ''account-logged-in'' reason 1 W = Inr W1 \<and> mw_heap W1 = mw_heap W
      \<and> mw_boxes W1 = mw_boxes W @ [(''Login failed!'', reason)])"
proof (intro conjI)
  note hears = hears_names [OF assms(1)]
  obtain V1 V2 where V1: "ham_account_login quiet V = Inr V1"
      "c_handlers (v_conn V1) = c_handlers (v_conn V) @ [(Some (Client_handler S_login1), None)]"
    and V2: "ham_account_register quiet V = Inr V2"
      "c_handlers (v_conn V2) = c_handlers (v_conn V) @ [(Some (Client_handler S_register), None)]"
    using account_requests [OF assms(3)] by blast
  note run = use_conn_def deref_def showMessage_def assms(2) V1 V2
  show "\<exists>W1. window_hears S (a, b) p ''connection-connected'' [] 0 W = Inr W1
      \<and> pending W1 p = pending W p @ [(Some (Client_handler (if mw_register W then S_register else S_login1)), None)]"
    by (simp add: hears(1) handleConnected_def run)
  show "\<exists>W1. window_hears S (a, b) p ''account-registered'' [] 0 W = Inr W1
      \<and> pending W1 p = pending W p @ [(Some (Client_handler S_login1), None)]"
    by (simp add: hears(4) handleRegistered_def run)
  obtain W1 where W1: "handleLoggedIn (a, b) p W = Inr W1"
    "pending W1 p = c_handlers (v_conn V) @ (Some (Client_handler S_logbook_fetch), Some a)
        # replicate (of_type DXCLUSTER (connection_modules (v_conn V))) (Some (Client_handler S_dxcluster), Some b)"
    using logged_in_value [OF assms(2-4)] by blast
  have "mw_logbook_conn W1 = Some p \<and> mw_earth_conn W1 = Some p \<and> mw_cluster_conn W1 = Some p \<and> mw_timer W1"
    using handleLoggedIn_pointers(2) [OF W1(1)]
    by (simp add: same_pointers_def cluster_setConnection_def earth_setConnection_def logbook_setConnection_def)
  with W1 show "\<exists>W1. window_hears S (a, b) p ''account-logged-in'' [] 0 W = Inr W1
      \<and> pending W1 p = pending W p @ (Some (Client_handler S_logbook_fetch), Some a)
          # replicate (of_type DXCLUSTER (connection_modules (v_conn V))) (Some (Client_handler S_dxcluster), Some b)
      \<and> mw_logbook_conn W1 = Some p \<and> mw_earth_conn W1 = Some p \<and> mw_cluster_conn W1 = Some p \<and> mw_timer W1"
    by (simp add: hears(3) assms(2))
  show "\<exists>W1. window_hears S (a, b) p ''account-logged-in'' reason 1 W = Inr W1 \<and> mw_heap W1 = mw_heap W
      \<and> mw_boxes W1 = mw_boxes W @ [(''Login failed!'', reason)]"
    by (simp add: hears(3) handleLoginFailed_def critical_def showMessage_def)
qed

theorem login_conversation_witness:
  "\<exists>S W W1. window_hears S (5, 6) 10 ''account-logged-in'' [] 0 W = Inr W1
    \<and> pending W1 10 = pending W 10 @ [(Some (Client_handler S_logbook_fetch), Some 5)] \<and> mw_timer W1"
proof -
  obtain S where S: "window_ready [] S" using construct_ready by blast
  obtain W :: window and V where W: "mw_heap W 10 = Some V" "c_fd (v_conn V) = 3" "connection_modules (v_conn V) = []"
    using sample_connection [OF S] by blast
  have "c_fd (v_conn V) \<noteq> -1" "\<forall>m \<in> set (connection_modules (v_conn V)). m_uri m \<noteq> None" using W by simp_all
  from login_conversation [OF S W(1) this, of 5 6 "[]"] W(3)
  have "\<exists>W1. window_hears S (5, 6) 10 ''account-logged-in'' [] 0 W = Inr W1
    \<and> pending W1 10 = pending W 10 @ [(Some (Client_handler S_logbook_fetch), Some 5)] \<and> mw_timer W1" by auto
  then show ?thesis by blast
qed

lemma window_emits:
  assumes "sig_table S \<noteq> None" and "\<forall>n. sig_abs S n = (if n \<in> set library_signals then Some (window_calls n) else None)"
    and "map_of window_handlers n = Some h"
  shows "ham_signals_emit_signal n p data err S = Inr [(h, p, data, err, The_window)]"
proof -
  have known: "n \<in> set library_signals" using handler_names(1) map_of_SomeD [OF assms(3)] by force
  then have "no_nul n" using library_names unfolding list_all_iff by blast
  with known assms(3) emit_value [OF _ assms(1), of n p data err] assms(2) show ?thesis by (simp add: window_calls_def)
qed

text \<open>A dialog for QRZ accounts hears its signal while it is open, and leaves nothing.\<close>

lemma dialog_lifecycle:
  assumes "sig_inv S1" and "sig_table S1 \<noteq> None" and "sig_abs S1 ''qrz-registered'' = Some []"
  shows "\<exists>S2 S3. qrz_dialog_construct d S1 = Inr S2
    \<and> ham_signals_emit_signal ''qrz-registered'' p data err S2 = Inr [(Handle_qrz_registered, p, data, err, Qrz_dialog d)]
    \<and> qrz_dialog_destruct d S2 = Some (Inr S3) \<and> sig_inv S3 \<and> sig_abs S3 = sig_abs S1"
proof -
  let ?q = "[(''qrz-registered'', Handle_qrz_registered)]"
  have known: "\<forall>n \<in> set (map fst ?q). sig_abs S1 n \<noteq> None" using assms(3) by simp
  obtain S2 where S2: "qrz_dialog_construct d S1 = Inr S2" "sig_inv S2" "sig_table S2 \<noteq> None"
    "\<forall>n. sig_abs S2 n = (case map_of ?q n of None \<Rightarrow> sig_abs S1 n
        | Some h \<Rightarrow> Some (the (sig_abs S1 n) @ [\<lparr>pair_handler = h, pair_ui_data = Qrz_dialog d\<rparr>]))"
    using register_handlers_value [OF assms(1,2) _ _ known, of "Qrz_dialog d"] by (auto simp: qrz_dialog_construct_def)
  have abs2: "sig_abs S2 ''qrz-registered'' = Some [\<lparr>pair_handler = Handle_qrz_registered, pair_ui_data = Qrz_dialog d\<rparr>]"
    using assms(3) S2(4) by simp
  then have "\<forall>(n, h) \<in> set ?q. sig_abs S2 n = Some (\<lparr>pair_handler = h, pair_ui_data = Qrz_dialog d\<rparr> # [])" by simp
  from unregister_handlers_value [OF S2(2) _ _ this]
  obtain S3 where S3: "qrz_dialog_destruct d S2 = Some (Inr S3)" "sig_inv S3"
    "\<forall>n. sig_abs S3 n = (if n \<in> set (map fst ?q) then Some [] else sig_abs S2 n)"
    by (auto simp: qrz_dialog_destruct_def)
  have "sig_abs S3 = sig_abs S1" using S3(3) S2(4) assms(3) by (auto simp: fun_eq_iff)
  moreover have "ham_signals_emit_signal ''qrz-registered'' p data err S2 = Inr [(Handle_qrz_registered, p, data, err, Qrz_dialog d)]"
    using emit_value [OF _ S2(3), of "''qrz-registered''"] abs2 by simp
  ultimately show ?thesis using S2(1) S3(1,2) by blast
qed

text \<open>
  C35. The signals from start to end: once the library is initialised and the window made, each of the
  four signals calls its function with the window; the window's destructor returns and leaves no
  handler behind, and so do the dialogs for QRZ accounts that are opened and closed in between.
\<close>

theorem window_lifecycle:
  "\<exists>S0 S1 S2 S3 S4. ham_initialize signals0 = Inr S0 \<and> window_construct S0 = Inr S1
    \<and> ham_signals_emit_signal ''connection-connected'' p data err S1 = Inr [(Handle_connected, p, data, err, The_window)]
    \<and> ham_signals_emit_signal ''connection-disconnected'' p data err S1 = Inr [(Handle_disconnected, p, data, err, The_window)]
    \<and> ham_signals_emit_signal ''account-logged-in'' p data err S1 = Inr [(Handle_logged_in, p, data, err, The_window)]
    \<and> ham_signals_emit_signal ''account-registered'' p data err S1 = Inr [(Handle_registered, p, data, err, The_window)]
    \<and> qrz_dialog_construct d S1 = Inr S2
    \<and> ham_signals_emit_signal ''qrz-registered'' p data err S2 = Inr [(Handle_qrz_registered, p, data, err, Qrz_dialog d)]
    \<and> qrz_dialog_destruct d S2 = Some (Inr S3) \<and> sig_abs S3 = sig_abs S1
    \<and> window_destruct S3 = Some (Inr S4) \<and> sig_abs S4 = sig_abs S0"
proof -
  obtain S0 S1 where S: "ham_initialize signals0 = Inr S0"
    "\<forall>k. sig_abs S0 k = (if k \<in> set library_signals then Some [] else None)" "window_construct S0 = Inr S1" "window_ready [] S1"
    "\<forall>n. sig_abs S1 n = (if n \<in> set library_signals then Some (window_calls n) else None)"
    using construct_ready by blast
  have inv: "sig_inv S1" "sig_table S1 \<noteq> None" using S(4) by (auto simp: window_ready_def)
  have "sig_abs S1 ''qrz-registered'' = Some []"
    using S(5) by (simp add: library_signals_def window_calls_def window_handlers_def)
  from dialog_lifecycle [OF inv this, of d p data err]
  obtain S2 S3 where S2: "qrz_dialog_construct d S1 = Inr S2"
    "ham_signals_emit_signal ''qrz-registered'' p data err S2 = Inr [(Handle_qrz_registered, p, data, err, Qrz_dialog d)]"
    and S3: "qrz_dialog_destruct d S2 = Some (Inr S3)" "sig_inv S3" and abs3: "sig_abs S3 = sig_abs S1"
    by blast
  have "\<forall>(n, h) \<in> set window_handlers. sig_abs S3 n = Some (\<lparr>pair_handler = h, pair_ui_data = The_window\<rparr> # [])"
    using S(5) by (simp add: abs3 window_handlers_def window_calls_def library_signals_def)
  from unregister_handlers_value [OF S3(2) _ handler_names(2) this]
  obtain S4 where S4: "window_destruct S3 = Some (Inr S4)"
    "\<forall>n. sig_abs S4 n = (if n \<in> set (map fst window_handlers) then Some [] else sig_abs S3 n)"
    by (auto simp: window_destruct_def window_handlers_def)
  have "sig_abs S4 n = sig_abs S0 n" for n
  proof (cases "n \<in> set (map fst window_handlers)")
    case True
    with S4(2) S(2) handler_names(1) show ?thesis by (metis subsetD)
  next
    case False
    then have "map_of window_handlers n = None" by (simp add: map_of_eq_None_iff)
    then have "window_calls n = []" by (simp add: window_calls_def)
    with False S4(2) S(2,5) abs3 show ?thesis by metis
  qed
  then have abs4: "sig_abs S4 = sig_abs S0" by (rule ext)
  have calls: "ham_signals_emit_signal ''connection-connected'' p data err S1 = Inr [(Handle_connected, p, data, err, The_window)]"
    "ham_signals_emit_signal ''connection-disconnected'' p data err S1 = Inr [(Handle_disconnected, p, data, err, The_window)]"
    "ham_signals_emit_signal ''account-logged-in'' p data err S1 = Inr [(Handle_logged_in, p, data, err, The_window)]"
    "ham_signals_emit_signal ''account-registered'' p data err S1 = Inr [(Handle_registered, p, data, err, The_window)]"
    by (rule window_emits [OF inv(2) S(5)], simp add: window_handlers_def)+
  with S(1,3) calls S2 S3(1) abs3 S4(1) abs4 show ?thesis by blast
qed

end
