(* ===== verification/EventLoop.thy ===== *)
theory EventLoop
  imports Connection
begin

text \<open>
  The event loop: \<open>library/eventloop.c\<close>, which passes on to the callbacks of the user interface, and
  those of \<open>ui/qt/qteventloop.cpp\<close>. A notifier of Qt is an object in a store; \<open>deleteLater\<close> marks it,
  and the loop of Qt frees the marked ones when control returns to it. The address of a new notifier is an
  argument. A handle is a pointer to a notifier, or null.

  \<open>inputs\<close> is what the component promises: a map from handles to what was added.
\<close>

record notifier =
  nf_fd :: int
  nf_enabled :: bool
  nf_doomed :: bool

record ('k, 'u) input_closure =
  ic_callback :: "'k option"
  ic_user_data :: "'u option"

record ('k, 'u) event_loop =
  el_callbacks :: bool
  el_heap :: "nat \<Rightarrow> notifier option"
  el_notifiers :: "nat \<Rightarrow> ('k, 'u) input_closure option"

text \<open>Before an interface has given its callbacks.\<close>

definition event_loop0 :: "('k, 'u) event_loop" where
  "event_loop0 = \<lparr>el_callbacks = False, el_heap = (\<lambda>_. None), el_notifiers = (\<lambda>_. None)\<rparr>"

definition ham_eventloop_set_ui_callbacks :: "bool \<Rightarrow> ('k, 'u) event_loop \<Rightarrow> ('k, 'u) event_loop" where
  "ham_eventloop_set_ui_callbacks callbacks L = L\<lparr>el_callbacks := callbacks\<rparr>"

text \<open>The only instance is made, and gives its callbacks, at the first call.\<close>

definition QtEventLoop_getInstance :: "bool \<Rightarrow> ('k, 'u) event_loop \<Rightarrow> bool \<times> ('k, 'u) event_loop" where
  "QtEventLoop_getInstance made L = (True, if \<not> made then ham_eventloop_set_ui_callbacks True L else L)"

subsection \<open>Notifiers\<close>

definition handleInputAdd :: "nat \<Rightarrow> int \<Rightarrow> 'k option \<Rightarrow> 'u option \<Rightarrow> ('k, 'u) event_loop \<Rightarrow> nat option \<times> ('k, 'u) event_loop" where
  "handleInputAdd p fd callback user_data L =
     (Some p, L\<lparr>el_heap := (el_heap L)(p \<mapsto> \<lparr>nf_fd = fd, nf_enabled = True, nf_doomed = False\<rparr>),
       el_notifiers := (el_notifiers L)(p \<mapsto> \<lparr>ic_callback = callback, ic_user_data = user_data\<rparr>)\<rparr>)"

definition handleInputRemove :: "nat option \<Rightarrow> ('k, 'u) event_loop \<Rightarrow> ('k, 'u) event_loop result" where
  "handleInputRemove handle L = (case handle of
     None \<Rightarrow> Inl Null_deref
   | Some p \<Rightarrow> (case el_heap L p of
       None \<Rightarrow> Inl Dangling
     | Some n \<Rightarrow> Inr (L\<lparr>el_notifiers := (el_notifiers L)(p := None),
         el_heap := (el_heap L)(p \<mapsto> n\<lparr>nf_enabled := False, nf_doomed := True\<rparr>)\<rparr>)))"

text \<open>
  \<open>p\<close> is the sender. A notifier that is not in the map is added with a null callback. The call that is
  made: the callback, its data and the descriptor.
\<close>

definition handleInputActivated :: "nat \<Rightarrow> int \<Rightarrow> ('k, 'u) event_loop \<Rightarrow> (('k \<times> 'u option \<times> int) \<times> ('k, 'u) event_loop) result" where
  "handleInputActivated p fd L =
     (let closure = (case el_notifiers L p of Some c \<Rightarrow> c | None \<Rightarrow> \<lparr>ic_callback = None, ic_user_data = None\<rparr>);
          L1 = L\<lparr>el_notifiers := (el_notifiers L)(p \<mapsto> closure)\<rparr>
      in case ic_callback closure of
           None \<Rightarrow> Inl Null_deref
         | Some k \<Rightarrow> Inr ((k, ic_user_data closure, fd), L1))"

text \<open>The loop of Qt has control again.\<close>

definition delete_doomed :: "('k, 'u) event_loop \<Rightarrow> ('k, 'u) event_loop" where
  "delete_doomed L = L\<lparr>el_heap := (\<lambda>p. case el_heap L p of
     None \<Rightarrow> None | Some n \<Rightarrow> if nf_doomed n then None else Some n)\<rparr>"

subsection \<open>The functions of the library\<close>

text \<open>The timers of the interface do nothing.\<close>

definition ham_timeout_add :: "('k, 'u) event_loop \<Rightarrow> nat option" where
  "ham_timeout_add L = None"

definition ham_timeout_remove :: "nat option \<Rightarrow> ('k, 'u) event_loop \<Rightarrow> ('k, 'u) event_loop" where
  "ham_timeout_remove handle L = L"

definition ham_input_add :: "nat \<Rightarrow> int \<Rightarrow> 'k option \<Rightarrow> 'u option \<Rightarrow> ('k, 'u) event_loop \<Rightarrow> nat option \<times> ('k, 'u) event_loop" where
  "ham_input_add p fd callback user_data L =
     (if \<not> el_callbacks L then (None, L) else handleInputAdd p fd callback user_data L)"

definition ham_input_remove :: "nat option \<Rightarrow> ('k, 'u) event_loop \<Rightarrow> ('k, 'u) event_loop result" where
  "ham_input_remove handle L = (if \<not> el_callbacks L then Inr L else handleInputRemove handle L)"

subsection \<open>The inputs that are waited for\<close>

definition inputs :: "('k, 'u) event_loop \<Rightarrow> nat \<Rightarrow> (int \<times> 'k \<times> 'u option) option" where
  "inputs L p = (case (el_heap L p, el_notifiers L p) of
     (Some n, Some c) \<Rightarrow> if nf_enabled n then map_option (\<lambda>k. (nf_fd n, k, ic_user_data c)) (ic_callback c) else None
   | _ \<Rightarrow> None)"

definition ui_loop :: "('k, 'u) event_loop" where
  "ui_loop = snd (QtEventLoop_getInstance False event_loop0)"

definition loop_inv :: "('k, 'u) event_loop \<Rightarrow> bool" where
  "loop_inv L \<longleftrightarrow> (\<forall>p n. el_heap L p = Some n \<longrightarrow> nf_doomed n = (\<not> nf_enabled n))
     \<and> (\<forall>p c. el_notifiers L p = Some c \<longrightarrow> ic_callback c \<noteq> None)
     \<and> (\<forall>p. el_notifiers L p \<noteq> None \<longleftrightarrow> (\<exists>n. el_heap L p = Some n \<and> nf_enabled n))"

lemma loop_inv0: "loop_inv event_loop0"
  by (simp add: loop_inv_def event_loop0_def)

lemma add_input:
  assumes "loop_inv L" and "el_heap L p = None"
  shows "inputs (snd (handleInputAdd p fd (Some k) u L)) = (inputs L)(p \<mapsto> (fd, k, u))"
    and "loop_inv (snd (handleInputAdd p fd (Some k) u L))"
  using assms by (auto simp: handleInputAdd_def inputs_def loop_inv_def fun_eq_iff)

lemma remove_input:
  assumes "loop_inv L" and "inputs L p \<noteq> None"
  shows "\<exists>L1. handleInputRemove (Some p) L = Inr L1 \<and> inputs L1 = (inputs L)(p := None) \<and> loop_inv L1"
proof -
  obtain n where n: "el_heap L p = Some n" using assms(2) by (auto simp: inputs_def split: option.splits)
  show ?thesis
    using assms(1) by (auto simp: handleInputRemove_def n inputs_def loop_inv_def fun_eq_iff split: option.splits)
qed

lemma delete_input: "loop_inv L \<Longrightarrow> inputs (delete_doomed L) = inputs L \<and> loop_inv (delete_doomed L)"
  by (auto simp: delete_doomed_def inputs_def loop_inv_def fun_eq_iff split: option.splits)

text \<open>Only enabled notifiers of a descriptor are activated.\<close>

lemma activate_input:
  assumes "loop_inv L" and "el_heap L p = Some n" and "nf_enabled n"
  shows "\<exists>k u. inputs L p = Some (nf_fd n, k, u)
    \<and> handleInputActivated p (nf_fd n) L = Inr ((k, u, nf_fd n), L)"
proof -
  obtain c where c: "el_notifiers L p = Some c" using assms unfolding loop_inv_def by blast
  then obtain k where k: "ic_callback c = Some k" using assms(1) unfolding loop_inv_def by blast
  have "(el_notifiers L)(p \<mapsto> c) = el_notifiers L" using c by (simp add: fun_upd_idem)
  then show ?thesis using assms(2,3) c k by (simp add: inputs_def handleInputActivated_def Let_def)
qed

subsection \<open>The loop and what it promises\<close>

datatype ('k, 'u) loop_event = Added nat int 'k "'u option" | Removed nat | Freed | Called_back nat 'k "'u option" int

text \<open>
  The library adds inputs and removes those it has added; Qt frees notifiers, and activates an enabled
  one when its descriptor is readable.
\<close>

inductive loop_run :: "('k, 'u) event_loop \<Rightarrow> ('k, 'u) loop_event list \<Rightarrow> ('k, 'u) event_loop \<Rightarrow> bool" where
  loop_start: "loop_run L [] L"
| loop_add: "loop_run L es L1 \<Longrightarrow> el_heap L1 p = None \<Longrightarrow> ham_input_add p fd (Some k) u L1 = (Some q, L2)
    \<Longrightarrow> loop_run L (es @ [Added p fd k u]) L2"
| loop_remove: "loop_run L es L1 \<Longrightarrow> inputs L1 p \<noteq> None \<Longrightarrow> ham_input_remove (Some p) L1 = Inr L2
    \<Longrightarrow> loop_run L (es @ [Removed p]) L2"
| loop_free: "loop_run L es L1 \<Longrightarrow> loop_run L (es @ [Freed]) (delete_doomed L1)"
| loop_activate: "loop_run L es L1 \<Longrightarrow> el_heap L1 p = Some n \<Longrightarrow> nf_enabled n
    \<Longrightarrow> handleInputActivated p (nf_fd n) L1 = Inr ((k, u, fd), L2) \<Longrightarrow> loop_run L (es @ [Called_back p k u fd]) L2"

text \<open>The promise: a map from handles.\<close>

fun waiting :: "('k, 'u) loop_event list \<Rightarrow> (nat \<Rightarrow> (int \<times> 'k \<times> 'u option) option) \<Rightarrow> nat \<Rightarrow> (int \<times> 'k \<times> 'u option) option" where
  "waiting [] m = m"
| "waiting (Added p fd k u # es) m = waiting es (m(p \<mapsto> (fd, k, u)))"
| "waiting (Removed p # es) m = waiting es (m(p := None))"
| "waiting (_ # es) m = waiting es m"

fun kept :: "('k, 'u) loop_event list \<Rightarrow> (nat \<Rightarrow> (int \<times> 'k \<times> 'u option) option) \<Rightarrow> bool" where
  "kept [] m = True"
| "kept (Called_back p k u fd # es) m \<longleftrightarrow> m p = Some (fd, k, u) \<and> kept es m"
| "kept (e # es) m \<longleftrightarrow> kept es (waiting [e] m)"

lemma waiting_append: "waiting (es @ fs) m = waiting fs (waiting es m)"
proof (induction es arbitrary: m)
  case (Cons e es)
  then show ?case by (cases e) (simp_all del: fun_upd_apply)
qed simp

lemma kept_append: "kept (es @ fs) m \<longleftrightarrow> kept es m \<and> kept fs (waiting es m)"
proof (induction es arbitrary: m)
  case (Cons e es)
  then show ?case by (cases e) (simp_all del: fun_upd_apply)
qed simp

lemma ui_loop_inv: "loop_inv ui_loop" "el_callbacks ui_loop" "inputs ui_loop = (\<lambda>_. None)"
  by (auto simp: ui_loop_def QtEventLoop_getInstance_def ham_eventloop_set_ui_callbacks_def event_loop0_def
      loop_inv_def inputs_def)

lemma loop_run_inv:
  assumes "loop_run L es L1" and "loop_inv L" and "el_callbacks L"
  shows "loop_inv L1 \<and> el_callbacks L1 \<and> inputs L1 = waiting es (inputs L) \<and> kept es (inputs L)"
  using assms
proof (induction rule: loop_run.induct)
  case (loop_add L es L1 p fd k u q L2)
  then show ?case
    using add_input [of L1 p fd k u]
    by (auto simp: ham_input_add_def waiting_append kept_append handleInputAdd_def)
next
  case (loop_remove L es L1 p L2)
  then show ?case
    using remove_input [of L1 p]
    by (auto simp: ham_input_remove_def waiting_append kept_append handleInputRemove_def split: option.splits)
next
  case (loop_free L es L1)
  then show ?case using delete_input [of L1] by (simp add: waiting_append kept_append delete_doomed_def)
next
  case (loop_activate L es L1 p n k u fd L2)
  then show ?case using activate_input [of L1 p n] by (auto simp: waiting_append kept_append)
qed simp

text \<open>No activation fails.\<close>

lemma activation_works:
  assumes "loop_run ui_loop es L" and "el_heap L p = Some n" and "nf_enabled n"
  shows "\<exists>k u. handleInputActivated p (nf_fd n) L = Inr ((k, u, nf_fd n), L)"
  using activate_input [OF _ assms(2,3)] loop_run_inv [OF assms(1) ui_loop_inv(1,2)] by blast

lemma waiting_origin:
  assumes "waiting es (\<lambda>_. None) p = Some (fd, k, u)"
  shows "\<exists>as bs. es = as @ Added p fd k u # bs \<and> Removed p \<notin> set bs"
  using assms
proof (induction es rule: rev_induct)
  case (snoc e es)
  show ?case
  proof (cases "e = Added p fd k u")
    case True
    then show ?thesis by (intro exI [of _ es] exI [of _ "[]"]) simp
  next
    case False
    with snoc.prems have "waiting es (\<lambda>_. None) p = Some (fd, k, u) \<and> e \<noteq> Removed p"
      by (cases e) (auto simp: waiting_append split: if_splits)
    with snoc.IH obtain as bs where "es = as @ Added p fd k u # bs" "Removed p \<notin> set bs" "e \<noteq> Removed p" by blast
    then show ?thesis by (intro exI [of _ as] exI [of _ "bs @ [e]"]) simp
  qed
qed simp

subsection \<open>The property\<close>

text \<open>
  C30. The event loop keeps the promise of its interface: every call it makes is of a callback, with the
  data and the descriptor, that was added with this handle and has not been removed since; and as long as
  an input is not removed, its activation makes this call.
\<close>

theorem inputs_called_until_removed:
  assumes "loop_run ui_loop es L"
  shows "(es = cs @ Called_back p k u fd # ds \<longrightarrow> (\<exists>as bs. cs = as @ Added p fd k u # bs \<and> Removed p \<notin> set bs))
    \<and> inputs L = waiting es (\<lambda>_. None)
    \<and> (inputs L p = Some (fd, k, u) \<longrightarrow> handleInputActivated p fd L = Inr ((k, u, fd), L))"
proof (intro conjI impI)
  have run: "loop_inv L" "inputs L = waiting es (\<lambda>_. None)" "kept es (\<lambda>_. None)"
    using loop_run_inv [OF assms ui_loop_inv(1,2)] by (simp_all add: ui_loop_inv(3))
  show "inputs L = waiting es (\<lambda>_. None)" by (rule run(2))
  show "\<exists>as bs. cs = as @ Added p fd k u # bs \<and> Removed p \<notin> set bs" if "es = cs @ Called_back p k u fd # ds"
    using run(3) that waiting_origin [of cs p fd k u] by (auto simp: kept_append)
  show "handleInputActivated p fd L = Inr ((k, u, fd), L)" if here: "inputs L p = Some (fd, k, u)"
  proof -
    obtain n where "el_heap L p = Some n" "nf_enabled n" "nf_fd n = fd"
      using here by (cases "el_heap L p"; cases "el_notifiers L p") (auto simp: inputs_def split: if_splits)
    with activate_input [OF run(1) this(1,2)] here show ?thesis by auto
  qed
qed

theorem inputs_called_until_removed_witness:
  "\<exists>L :: (nat, nat) event_loop. loop_run ui_loop [Added 4 3 7 (Some 8), Called_back 4 7 (Some 8) 3] L
    \<and> handleInputActivated 4 3 L = Inr ((7, Some 8, 3), L)"
proof -
  let ?L = "snd (ham_input_add 4 3 (Some 7) (Some 8) (ui_loop :: (nat, nat) event_loop))"
  note eval = ham_input_add_def handleInputAdd_def ui_loop_def QtEventLoop_getInstance_def
    ham_eventloop_set_ui_callbacks_def event_loop0_def
  have "loop_run ui_loop ([] @ [Added 4 3 7 (Some 8)]) ?L"
    by (rule loop_run.loop_add [OF loop_run.loop_start, of _ 4 _ _ _ 4]) (simp_all add: eval)
  from loop_run.loop_activate [OF this, of 4 "\<lparr>nf_fd = 3, nf_enabled = True, nf_doomed = False\<rparr>" 7 "Some 8" 3 ?L]
  have run: "loop_run ui_loop [Added 4 3 7 (Some 8), Called_back 4 7 (Some 8) 3] ?L"
    by (simp add: eval handleInputActivated_def)
  have "inputs ?L 4 = Some (3, 7, Some 8)" by (simp add: eval inputs_def)
  with inputs_called_until_removed [OF run] run show ?thesis by blast
qed

end
