(* ===== verification/Boot.thy ===== *)
theory Boot
  imports Server Storage
begin

text \<open>
  The start of the server: \<open>server/main.cpp\<close>, \<open>server/config.cpp\<close>, \<open>ModuleManager::loadModules\<close> of
  \<open>server/modulemanager.cpp\<close>, and the module \<open>server/responders/root.cpp\<close>.

  What boost parses is an argument: the command line, a configuration file, and how the parsed options
  are stored. So are the entries of the directory of modules. A shared library is what loading it and
  calling its \<open>module_init\<close> give; the modules that create a table when they are made use the storage,
  which is null when none was configured.
\<close>

subsection \<open>Configuration\<close>

record parsed_option =
  op_unregistered :: bool
  op_key :: string
  op_value :: "string list"

record config =
  cfg_variables :: "string std_map"
  cfg_unregistered :: "string std_map"
  cfg_file :: string

definition config_new :: config where
  "config_new = \<lparr>cfg_variables = [], cfg_unregistered = [], cfg_file = []\<rparr>"

text \<open>The options with their default values.\<close>

definition config_options :: "(string \<times> string) list" where
  "config_options = [(''server.hostname'', ''localhost''), (''server.port'', ''7531''), (''logging.config'', []),
     (''modules.path'', ''./responders''), (''database.type'', ''none''), (''database.database'', []),
     (''database.prefix'', [])]"

fun keep_unregistered :: "parsed_option list \<Rightarrow> string std_map \<Rightarrow> string std_map result" where
  "keep_unregistered [] m = Inr m"
| "keep_unregistered (opt # opts) m =
     (if op_unregistered opt
      then (case op_value opt of [] \<Rightarrow> Inl Dangling | v # vs \<Rightarrow> keep_unregistered opts (smap_set (op_key opt) v m))
      else keep_unregistered opts m)"

text \<open>
  \<open>parse\<close>: \<open>None\<close> when the file cannot be opened, a fault when the parser throws; \<open>store\<close> gives the
  variables from the options, the parsed ones and the variables before.
\<close>

definition config_load ::
  "(string \<Rightarrow> parsed_option list result option) \<Rightarrow> ((string \<times> string) list \<Rightarrow> parsed_option list \<Rightarrow> string std_map \<Rightarrow> string std_map)
   \<Rightarrow> string \<Rightarrow> config \<Rightarrow> (bool \<times> config) result" where
  "config_load parse store configfile c = (case parse configfile of
     None \<Rightarrow> Inr (False, c)
   | Some parsed \<Rightarrow> rbind parsed (\<lambda>opts. rbind (keep_unregistered opts (cfg_unregistered c)) (\<lambda>u.
       Inr (True, \<lparr>cfg_variables = store config_options opts (cfg_variables c), cfg_unregistered = u,
         cfg_file = configfile\<rparr>))))"

definition config_reload ::
  "(string \<Rightarrow> parsed_option list result option) \<Rightarrow> ((string \<times> string) list \<Rightarrow> parsed_option list \<Rightarrow> string std_map \<Rightarrow> string std_map)
   \<Rightarrow> config \<Rightarrow> (bool \<times> config) result" where
  "config_reload parse store c =
     (if cfg_file c = [] then Inr (False, c) else config_load parse store (cfg_file c) c)"

text \<open>\<open>CONFIG_STRING\<close>: a variable that is not there cannot be cast.\<close>

definition config_string :: "config \<Rightarrow> string \<Rightarrow> string result" where
  "config_string c k = (case smap_get (cfg_variables c) k of None \<Rightarrow> Inl Uncaught | Some v \<Rightarrow> Inr v)"

subsection \<open>Modules\<close>

text \<open>\<open>boost::filesystem::extension\<close>: from the last dot of the file's name on.\<close>

definition file_name :: "string \<Rightarrow> string" where
  "file_name path = rev (takeWhile (\<lambda>c. c \<noteq> CHR ''/'') (rev path))"

definition extension :: "string \<Rightarrow> string" where
  "extension path = (let name = file_name path
     in if name = ''.'' \<or> name = ''..'' \<or> CHR ''.'' \<notin> set name then []
        else CHR ''.'' # rev (takeWhile (\<lambda>c. c \<noteq> CHR ''.'') (rev name)))"

text \<open>\<open>module_init\<close>, given whether there is a storage: the module with its URI, or null.\<close>

datatype shared_library = Not_loaded | No_symbol | Library "bool \<Rightarrow> (string \<times> module_info) option result"

type_synonym entry = "string \<times> shared_library"

fun loadModules :: "bool \<Rightarrow> entry list \<Rightarrow> module_map \<Rightarrow> module_map result" where
  "loadModules storage [] mods = Inr mods"
| "loadModules storage ((path, lib) # ds) mods =
     (if extension path \<noteq> ''.so'' then loadModules storage ds mods
      else case lib of
        Not_loaded \<Rightarrow> loadModules storage ds mods
      | No_symbol \<Rightarrow> loadModules storage ds mods
      | Library init \<Rightarrow> rbind (init storage) (\<lambda>created. case created of
            None \<Rightarrow> loadModules storage ds mods
          | Some (uri, info) \<Rightarrow> loadModules storage ds (smap_set uri info mods)))"

text \<open>The module of the start page.\<close>

definition root_handle :: responder where
  "root_handle session req reply = (True, session,
     setContent ''<html><head></head><body>This is HamLog server. Download HamLog and setup your username to connect it.</body></html>''
       (setContentType ''text/html'' reply))"

definition root_module :: "bool \<Rightarrow> (string \<times> module_info) option result" where
  "root_module storage = Inr (Some (''/'', \<lparr>mi_name = ''Root responder module'', mi_description = [], mi_type = 0,
     mi_auth = False, mi_handle = root_handle\<rparr>))"

subsection \<open>The main function\<close>

datatype command_line = Help | Bad_options | Options

text \<open>What is running: the storage and whether it could connect, the configured name, the modules, the server.\<close>

record running =
  rn_storage :: "bool option"
  rn_hostname :: string
  rn_port :: string
  rn_modules :: module_map
  rn_server :: server

datatype started = Exit int | Running running

text \<open>
  \<open>connects\<close>: the storage can connect; \<open>bound\<close>: the port can be opened, else the constructor throws;
  \<open>entries\<close>: a directory that is not there makes the iterator throw.
\<close>

definition server_main ::
  "command_line \<Rightarrow> (string \<Rightarrow> parsed_option list result option)
   \<Rightarrow> ((string \<times> string) list \<Rightarrow> parsed_option list \<Rightarrow> string std_map \<Rightarrow> string std_map)
   \<Rightarrow> (string \<Rightarrow> bool) \<Rightarrow> (string \<Rightarrow> bool) \<Rightarrow> (string \<Rightarrow> entry list option) \<Rightarrow> string list \<Rightarrow> started result" where
  "server_main cmd parse store connects bound entries argv =
     (if cmd \<noteq> Options then Inr (Exit 1)
      else if length argv \<noteq> 2 then Inr (Exit 1)
      else rbind (config_load parse store (argv ! 1) config_new) (\<lambda>(ok, c).
        if \<not> ok then Inr (Exit 2)
        else rbind (config_string c ''database.type'') (\<lambda>ty.
          rbind (if ty = ''sqlite3'' then rmap (\<lambda>db. Some (connects db)) (config_string c ''database.database'')
            else Inr None) (\<lambda>storage.
          rbind (config_string c ''server.hostname'') (\<lambda>hostname.
          rbind (config_string c ''server.port'') (\<lambda>port.
            if \<not> bound port then Inl Uncaught
            else rbind (config_string c ''modules.path'') (\<lambda>path. case entries path of
              None \<Rightarrow> Inl Uncaught
            | Some ds \<Rightarrow> rmap (\<lambda>mods. Running \<lparr>rn_storage = storage, rn_hostname = hostname, rn_port = port,
                  rn_modules = mods, rn_server = server_new\<rparr>) (loadModules (storage \<noteq> None) ds [])))))))) "

subsection \<open>The modules that are loaded\<close>

text \<open>The module an entry gives, and the last entry for a URI.\<close>

definition entry_module :: "bool \<Rightarrow> entry \<Rightarrow> (string \<times> module_info) option" where
  "entry_module storage = (\<lambda>(path, lib). if extension path \<noteq> ''.so'' then None
     else case lib of Library init \<Rightarrow> (case init storage of Inr created \<Rightarrow> created | Inl _ \<Rightarrow> None) | _ \<Rightarrow> None)"

definition created_modules :: "bool \<Rightarrow> entry list \<Rightarrow> (string \<times> module_info) list" where
  "created_modules storage ds = List.map_filter (entry_module storage) ds"

lemma created_modules_simps:
  "created_modules storage [] = []"
  "created_modules storage (d # ds) = (case entry_module storage d of
     None \<Rightarrow> created_modules storage ds | Some m \<Rightarrow> m # created_modules storage ds)"
  by (simp_all add: created_modules_def map_filter_simps split: option.split)

lemma loadModules_step:
  assumes "loadModules storage (d # ds) mods = Inr mods1"
  shows "loadModules storage ds (case entry_module storage d of None \<Rightarrow> mods | Some (uri, info) \<Rightarrow> smap_set uri info mods)
    = Inr mods1"
proof -
  obtain path lib where d: "d = (path, lib)" by (cases d)
  show ?thesis
  proof (cases "extension path = ''.so''")
    case True
    with assms show ?thesis
      by (cases lib) (auto simp: d entry_module_def rbind_Inr_iff split: option.splits)
  qed (use assms in \<open>simp add: d entry_module_def\<close>)
qed

lemma loadModules_value:
  "loadModules storage ds mods = Inr mods1 \<Longrightarrow>
   mods1 = fold (\<lambda>(uri, info). smap_set uri info) (created_modules storage ds) mods"
proof (induction ds arbitrary: mods)
  case (Cons d ds)
  from Cons.IH [OF loadModules_step [OF Cons.prems]] show ?case
    by (auto simp: created_modules_simps split: option.split)
qed (simp add: created_modules_simps)

lemma fold_modules:
  assumes "smap_inv mods"
  shows "smap_inv (fold (\<lambda>(uri, info). smap_set uri info) ms mods)
    \<and> smap_get (fold (\<lambda>(uri, info). smap_set uri info) ms mods) k =
        (case map_of (rev ms) k of None \<Rightarrow> smap_get mods k | Some info \<Rightarrow> Some info)"
  using assms
proof (induction ms arbitrary: mods)
  case (Cons m ms)
  obtain u i where m: "m = (u, i)" by (cases m)
  show ?case
    using Cons.IH [of "smap_set u i mods"] Cons.prems
    by (simp add: m smap_simps map_add_def split: option.split)
qed simp

subsection \<open>The property\<close>

text \<open>
  C34. A server that runs was started with a configuration file as its only argument, one that could be
  read, and it has exactly the modules that could be made from the shared libraries of the configured
  directory, for each URI that of the last library, in the order of the URIs; there is a storage, with a
  connection or without, just when the file asks for sqlite3.
\<close>

theorem started_server:
  assumes "server_main cmd parse store connects bound entries argv = Inr (Running R)"
  shows "\<exists>prog conf c path ds. argv = [prog, conf] \<and> cmd = Options
    \<and> config_load parse store conf config_new = Inr (True, c)
    \<and> config_string c ''modules.path'' = Inr path \<and> entries path = Some ds
    \<and> smap_inv (rn_modules R)
    \<and> (\<forall>uri. map_of (rn_modules R) uri = map_of (rev (created_modules (rn_storage R \<noteq> None) ds)) uri)
    \<and> (rn_storage R \<noteq> None \<longleftrightarrow> config_string c ''database.type'' = Inr ''sqlite3'')"
proof -
  have run: "cmd = Options" "length argv = 2"
    using assms by (auto simp: server_main_def split: if_splits)
  then obtain prog conf where argv: "argv = [prog, conf]"
    by (auto simp: numeral_2_eq_2 length_Suc_conv)
  obtain c ty storage where c: "config_load parse store conf config_new = Inr (True, c)"
    "config_string c ''database.type'' = Inr ty"
    "(if ty = ''sqlite3'' then rmap (\<lambda>db. Some (connects db)) (config_string c ''database.database'') else Inr None) = Inr storage"
    "rbind (config_string c ''server.hostname'') (\<lambda>hostname.
          rbind (config_string c ''server.port'') (\<lambda>port.
            if \<not> bound port then Inl Uncaught
            else rbind (config_string c ''modules.path'') (\<lambda>path. case entries path of
              None \<Rightarrow> Inl Uncaught
            | Some ds \<Rightarrow> rmap (\<lambda>mods. Running \<lparr>rn_storage = storage, rn_hostname = hostname, rn_port = port,
                  rn_modules = mods, rn_server = server_new\<rparr>) (loadModules (storage \<noteq> None) ds [])))) = Inr (Running R)"
    using assms by (auto simp: server_main_def argv rbind_Inr_iff split: if_splits)
  then obtain path ds where path: "config_string c ''modules.path'' = Inr path" "entries path = Some ds"
    "loadModules (storage \<noteq> None) ds [] = Inr (rn_modules R)" "rn_storage R = storage"
    by (auto simp: rbind_Inr_iff rmap_def split: if_splits option.splits)
  have mods: "smap_inv (rn_modules R)"
    "smap_get (rn_modules R) uri = map_of (rev (created_modules (storage \<noteq> None) ds)) uri" for uri
    using loadModules_value [OF path(3)] fold_modules [OF smap_inv_Nil, of "created_modules (storage \<noteq> None) ds" uri]
    by (auto split: option.splits)
  have "storage \<noteq> None \<longleftrightarrow> ty = ''sqlite3''"
    using c(3) by (auto simp: rmap_def rbind_Inr_iff split: if_splits)
  with c(1,2) argv run(1) path mods show ?thesis by (auto simp: smap_get_def)
qed

definition sample_store :: "(string \<times> string) list \<Rightarrow> parsed_option list \<Rightarrow> string std_map \<Rightarrow> string std_map" where
  "sample_store defaults opts m = fold (\<lambda>opt. smap_set (op_key opt) (concat (op_value opt))) opts
     (fold (\<lambda>(k, v). smap_set k v) defaults m)"

definition sample_start :: "started result" where
  "sample_start = server_main Options (\<lambda>f. if f = ''hamlog.cfg'' then Some (Inr []) else None) sample_store (\<lambda>_. False)
     (\<lambda>_. True) (\<lambda>d. if d = ''./responders'' then Some [(''./responders/CMakeLists.txt'', Not_loaded),
        (''./responders/libroot.so'', Library root_module), (''./responders/libold.so'', No_symbol)] else None)
     [''hamlog_server'', ''hamlog.cfg'']"

theorem started_server_witness:
  "\<exists>R. sample_start = Inr (Running R) \<and> rn_storage R = None
    \<and> map_option mi_name (map_of (rn_modules R) ''/'') = Some ''Root responder module''
    \<and> map_of (rn_modules R) ''/dxcc'' = None"
proof -
  have load: "config_load (\<lambda>f. if f = ''hamlog.cfg'' then Some (Inr []) else None) sample_store ''hamlog.cfg'' config_new =
      Inr (True, \<lparr>cfg_variables = sample_store config_options [] [], cfg_unregistered = [], cfg_file = ''hamlog.cfg''\<rparr>)"
    by (simp add: config_load_def config_new_def)
  have vars: "smap_get (sample_store config_options [] []) k = map_of (rev config_options) k" for k
    by (simp add: sample_store_def config_options_def smap_get_def)
  obtain R where R: "sample_start = Inr (Running R)"
    by (simp add: sample_start_def server_main_def load config_string_def vars)
      (simp add: config_options_def root_module_def extension_def file_name_def)
  from started_server [OF R [unfolded sample_start_def]] load
  have "rn_storage R = None" "\<forall>uri. map_of (rn_modules R) uri = map_of (rev (created_modules False
      [(''./responders/CMakeLists.txt'', Not_loaded), (''./responders/libroot.so'', Library root_module),
       (''./responders/libold.so'', No_symbol)])) uri"
    by (auto simp: config_string_def vars) (auto simp: config_options_def)
  then show ?thesis
    using R by (intro exI [of _ R]) (simp add: created_modules_simps entry_module_def extension_def file_name_def
        root_module_def)
qed

end
