(* ===== verification/Spec2Isabelle.thy ===== *)
theory Spec2Isabelle
  imports Startup Account Qrz Server EndToEnd Records QtEdit QtMap Rig Window EventLoop Boot
begin

text \<open>
  HamLog is a logbook for radio amateurs: a C library for clients (\<open>src/library\<close>) and a server in C++
  (\<open>src/server\<close>), which talk in messages shaped like those of HTTP. The client prints requests, the
  server parses them, hands them to the module of the URI and prints a reply, which the client parses
  and gives to the handler of the oldest request that has none yet. Tables travel as CSV texts.

  \<^bold>\<open>Common theories.\<close> \<open>Prelude\<close>: faults of C and C++ as values (\<open>fault\<close>, \<open>result\<close>), bytes, C strings and
  buffers written through a moving pointer. \<open>StdMap\<close>: \<open>std::map\<close> of strings, with its laws as the locale
  \<open>string_map\<close>.

  \<^bold>\<open>The library.\<close>
  \<^item> \<open>HamList\<close> (\<open>list.c\<close>): doubly linked lists in a store of items; every operation refines the one on
    sequences, and the locale \<open>fifo\<close> is the interface of queues.
  \<^item> \<open>HashTable\<close> (\<open>hashtable.c\<close>): chains of items under 64-bit hashes; what adding and removing do for each
    position of a key in its chain; the locale \<open>fresh_map\<close> is what the clients of the table rely on.
  \<^item> \<open>Messages\<close> (\<open>request.c\<close>, \<open>reply.c\<close>): requests, replies, their texts and the sizes of the buffers.
  \<^item> \<open>HttpParser\<close> (\<open>parser.c\<close>): the state machine that reads replies, with the pointer it writes through. The
    lemmas run it over the parts of a reply and keep an invariant of parser and reply.
  \<^item> \<open>Csv\<close> (\<open>parser.c\<close>): reading tables over an uninitialised field buffer, printing, merging.
  \<^item> \<open>Signals\<close> (\<open>signals.c\<close>): names, handlers and emission. The walk of \<open>ham_signals_unregister_handler\<close> may
    not end; it is a partial function and the property says when it returns.
  \<^item> \<open>Startup\<close> (\<open>hamlog.h\<close>): \<open>ham_initialize\<close> and the signals each component registers.
  \<^item> \<open>EventLoop\<close> (\<open>eventloop.c\<close>, \<open>ui/qt/qteventloop.cpp\<close>): the inputs the library waits for, as notifiers of Qt.
    They refine a map from handles, along the runs of the loop.
  \<^item> \<open>Connection\<close> (\<open>connection.c\<close>): requests and their handlers, reading from the socket, the table of modules.
  \<^item> \<open>Services\<close> (\<open>callinfo.c\<close>, \<open>dxcc.c\<close>, \<open>dxcluster.c\<close>, \<open>hamlib.c\<close>, \<open>logbook.c\<close>, \<open>qrz.c\<close>): the requests of the
    client and what it does with the replies, with the closures in a store.
  \<^item> \<open>Md5\<close> (\<open>md5.c\<close>, \<open>server/md5.cpp\<close>): the digest on 32-bit words, compared with the padded message of RFC 1321.
  \<^item> \<open>Account\<close> (\<open>account.c\<close>, \<open>server/responders/login.cpp\<close>, \<open>register.cpp\<close>): both sides of the login by digest.

  \<^bold>\<open>The server.\<close>
  \<^item> \<open>ServerReply\<close> (\<open>reply.cpp\<close>) and \<open>ServerParser\<close> (\<open>requestparser.cpp\<close>, \<open>request.cpp\<close>): the texts of replies
    and the parser of requests, each related to its counterpart in the client.
  \<^item> \<open>Modules\<close> (\<open>modulemanager.cpp\<close>, \<open>requesthandler.cpp\<close>): dispatch to the modules and the list of modules. A
    module is a function of session, request and reply.
  \<^item> \<open>ServerSession\<close> (\<open>session.cpp\<close>): the loop over the bytes of a client. It refines a server that takes one
    byte after the other; a step relation with arriving bytes, errors and asynchronous replies gives its
    invariant.
  \<^item> \<open>Server\<close> (\<open>server.cpp\<close>, \<open>sessionmanager.cpp\<close>): accepting clients and the list of sessions.
  \<^item> \<open>Storage\<close> (\<open>storagebackend.h\<close>, \<open>sqlite3backend.cpp\<close>): queries, the statements made of them and the values
    bound to their parameters, on an engine that stands for SQLite.
  \<^item> \<open>LogBook\<close> (\<open>responders/logbook.cpp\<close>): the records of the users, and the server's own CSV parser.
  \<^item> \<open>Spots\<close> (\<open>responders/dxcc.cpp\<close>, \<open>dxcluster.cpp\<close>): the table of countries and the spots of a cluster.
  \<^item> \<open>Qrz\<close> (\<open>responders/qrz.cpp\<close>): queries to qrz.com as asynchronous operations, with a relation of their runs.

  \<^item> \<open>Boot\<close> (\<open>main.cpp\<close>, \<open>config.cpp\<close>, \<open>ModuleManager::loadModules\<close>, \<open>responders/root.cpp\<close>): from the arguments
    and the configuration to a server with its modules.
  \<^item> \<open>Rig\<close> (\<open>responders/hamlib.cpp\<close>): the calls of the library hamlib, and the frequency up to the client's dialog.

  \<^bold>\<open>The interface.\<close>
  \<^item> \<open>QtRecords\<close> (\<open>ui/qt/qtlogbook.cpp\<close>, \<open>logbooktreewidget.cpp\<close>, \<open>newrecorddialog.cpp\<close>): the third CSV parser, the
    table of records and the dialog, followed to what the server's logbook saves.
  \<^item> \<open>QtEdit\<close> (\<open>logbooktreewidget.cpp\<close>): the delegate that edits a cell, what an edit asks the library for, the
    menu of an item and the records with one call.
  \<^item> \<open>QtSpots\<close> (\<open>ui/qt/dxclusterwidget.cpp\<close>): the rows of the cluster, from the line the server read.
  \<^item> \<open>QtFetch\<close>: the records of the server's database, as \<open>LogBook::sendLogs\<close> prints them, in the table of the
    interface.
  \<^item> \<open>QtMap\<close> (\<open>ui/qt/earthwidget.cpp\<close>): the markers on the map, from the server's table of countries.
  \<^item> \<open>Window\<close> (\<open>ui/qt/mainwindow.cpp\<close> and its dialogs): the connections the window and its widgets hold, the
    signals of the library it hears and what it then sends, as a relation of steps with its invariant.

  \<open>Exchange\<close> joins both ends: requests from the client through a session of the server and back to the handlers
  of the client. \<open>EndToEnd\<close> follows the records of a user from the database to the items of the table,
  and an edited item back to the statement that saves it. \<open>Database\<close> says what SQLite is documented to do with
  such statements (\<open>sql_table\<close>, a hypothesis on the engine), and follows the requests of the logbook to the
  rows; \<open>SqlModel\<close> is an interpreter of these statements, read back from their texts, that has what is asked;
  \<open>Records\<close> holds what this says of the users: whose rows change, and that an edit is shown.

  \<^bold>\<open>Groups of properties.\<close> Round trips between the two sides (requests, replies, CSV tables, login, records); order
  and survival of what is pending (replies in the client, sessions, queries to qrz.com); refinement of sequences,
  maps and a byte-wise server; safety of both parsers; access of users (login, protected modules, rows of the
  logbook); start and end (modules of a server, signals of the window); data followed through all parts (spots,
  markers, the frequency of the radio); and what goes wrong: replies split over two reads, the lost last module,
  columns as SQL, requests that overtake their replies, connections used after they were freed.

  \<^bold>\<open>Bounds.\<close> Buffers have the sizes of the code (65535 bytes for reads, contents and CSV fields, 512 for
  headers, 8192 for the server's reads); lengths are natural numbers where no arithmetic of the code can wrap,
  and words of 32 or 64 bits in hashes, the digest and the numbers of a version. There is no fuel: loops are
  total functions with their termination proofs, or partial functions into \<open>option\<close> where they may not end.

  \<^bold>\<open>Arguments of the model.\<close> System calls and what they return, the code that signals and handlers run
  (\<open>react\<close>), the contents of uninitialised memory (\<open>junk\<close>), the addresses of new objects, SQLite (\<open>engine\<close>), the
  number conversions of boost and Qt, the parsers of boost for options, TinyXML (\<open>doc\<close>), hamlib, what the user
  does in a dialog, and shared libraries.

  \<^bold>\<open>Not modelled.\<close> What only shows or prints: layout and menus of the interface, the sliders of the map,
  \<open>ham_reply_dump\<close>, \<open>ham_request_dump\<close>, \<open>Request::dump\<close>, log files; the destructors that only free; \<open>ui/qt/main.cpp\<close>;
  daemons and the resolver of host names in the server; \<open>addUser\<close> and \<open>getUser\<close> of the SQLite backend, whose
  statements are no longer prepared and which nothing calls. Failures of memory allocation are not modelled.
\<close>

end
